(* ===== verification/PyFloat.thy ===== *)
theory PyFloat
  imports Prelude "HOL-Library.Log_Nat"
begin

text \<open>
  Python's \<^verbatim>\<open>float\<close> (IEEE 754 binary64) as the code uses it. A finite float is the rational
  it denotes; the two infinities and NaN are separate constructors, and comparisons follow IEEE
  (every comparison with NaN is false). The sign of zero is not kept: nothing in the modelled code
  observes it. \<open>fround\<close> is round-to-nearest-even to binary64, subnormals and overflow included,
  so \<open>float_of_string\<close> (Python's \<^verbatim>\<open>float(str)\<close>) and \<open>repr_float\<close> (\<^verbatim>\<open>repr(float)\<close>, the
  shortest digit string that reads back) compute what CPython computes. The main result is that
  reading back what \<open>repr_float\<close> printed gives the same float.
\<close>

datatype pyfloat = Fin rat | PInf | NInf | NaN

section \<open>Comparisons\<close>

definition fl_lt :: "pyfloat \<Rightarrow> pyfloat \<Rightarrow> bool" where
  "fl_lt a b = (case a of
      Fin x \<Rightarrow> (case b of Fin y \<Rightarrow> x < y | PInf \<Rightarrow> True | NInf \<Rightarrow> False | NaN \<Rightarrow> False)
    | NInf \<Rightarrow> (case b of Fin y \<Rightarrow> True | PInf \<Rightarrow> True | NInf \<Rightarrow> False | NaN \<Rightarrow> False)
    | PInf \<Rightarrow> False
    | NaN \<Rightarrow> False)"

definition fl_eq :: "pyfloat \<Rightarrow> pyfloat \<Rightarrow> bool" where
  "fl_eq a b = (a = b \<and> a \<noteq> NaN)"

definition fl_le :: "pyfloat \<Rightarrow> pyfloat \<Rightarrow> bool" where
  "fl_le a b = (fl_lt a b \<or> fl_eq a b)"

text \<open>A total order that agrees with the comparisons above on everything but NaN.\<close>

fun fl_rank :: "pyfloat \<Rightarrow> nat" where
  "fl_rank NaN = 0" | "fl_rank NInf = 1" | "fl_rank (Fin q) = 2" | "fl_rank PInf = 3"

fun fl_mag :: "pyfloat \<Rightarrow> rat" where
  "fl_mag (Fin q) = q" | "fl_mag PInf = 0" | "fl_mag NInf = 0" | "fl_mag NaN = 0"

instantiation pyfloat :: linorder
begin

definition less_eq_pyfloat :: "pyfloat \<Rightarrow> pyfloat \<Rightarrow> bool" where
  "less_eq_pyfloat a b =
     (fl_rank a < fl_rank b \<or> (fl_rank a = fl_rank b \<and> fl_mag a \<le> fl_mag b))"

definition less_pyfloat :: "pyfloat \<Rightarrow> pyfloat \<Rightarrow> bool" where
  "less_pyfloat a b =
     (fl_rank a < fl_rank b \<or> (fl_rank a = fl_rank b \<and> fl_mag a < fl_mag b))"

instance
proof
  fix x y z :: pyfloat
  show "(x < y) = (x \<le> y \<and> \<not> y \<le> x)"
    by (auto simp: less_pyfloat_def less_eq_pyfloat_def)
  show "x \<le> x" by (simp add: less_eq_pyfloat_def)
  show "x \<le> y \<Longrightarrow> y \<le> z \<Longrightarrow> x \<le> z" by (auto simp: less_eq_pyfloat_def)
  show "x \<le> y \<Longrightarrow> y \<le> x \<Longrightarrow> x = y"
    by (cases x; cases y) (auto simp: less_eq_pyfloat_def)
  show "x \<le> y \<or> y \<le> x" by (auto simp: less_eq_pyfloat_def)
qed

end

lemma fl_lt_less: "a \<noteq> NaN \<Longrightarrow> b \<noteq> NaN \<Longrightarrow> fl_lt a b = (a < b)"
  by (cases a; cases b) (simp_all add: fl_lt_def less_pyfloat_def)

lemma fl_lt_NaN [simp]: "\<not> fl_lt NaN b" "\<not> fl_lt a NaN"
  by (cases a; simp add: fl_lt_def)+

section \<open>Rounding to binary64\<close>

text \<open>Round a rational to an integer, ties to even.\<close>

definition rhe :: "rat \<Rightarrow> int" where
  "rhe x = (let k = \<lfloor>x\<rfloor>; r = x - of_int k in
     if r < 1/2 then k else if 1/2 < r then k + 1 else if even k then k else k + 1)"

text \<open>The exponents of the leading binary and decimal digit of a positive rational.\<close>

definition floor_log2 :: "rat \<Rightarrow> int" where
  "floor_log2 q = (let (n, d) = quotient_of q; k = bitlen n - bitlen d in
     if 2 powi k \<le> q then k else k - 1)"

definition floor_log10 :: "rat \<Rightarrow> int" where
  "floor_log10 q = (let (n, d) = quotient_of q;
       k = int (length (show_pos n)) - int (length (show_pos d)) in
     if 10 powi k \<le> q then k else k - 1)"

definition ulp_exp :: "rat \<Rightarrow> int" where
  "ulp_exp a = max (floor_log2 a - 52) (- 1074)"

definition fround :: "rat \<Rightarrow> pyfloat" where
  "fround q =
     (if q = 0 then Fin 0
      else let a = \<bar>q\<bar>; e = ulp_exp a; r = of_int (rhe (a / 2 powi e)) * 2 powi e in
        if 2 ^ 1024 \<le> r then (if q < 0 then NInf else PInf) else Fin (sgn q * r))"

text \<open>The rationals that are binary64 values.\<close>

definition is_float :: "rat \<Rightarrow> bool" where
  "is_float q = (fround q = Fin q)"

section \<open>Reading and printing\<close>

text \<open>Digits with single underscores between them, as Python's literals and \<^verbatim>\<open>float()\<close> accept.\<close>

fun read_digits :: "string \<Rightarrow> string \<times> string" where
  "read_digits [] = ([], [])"
| "read_digits (c # cs) =
     (if is_digit c then
        (let p = (case cs of
             u # d # cs' \<Rightarrow> if u = CHR ''_'' \<and> is_digit d then read_digits (d # cs') else read_digits cs
           | _ \<Rightarrow> read_digits cs)
         in (c # fst p, snd p))
      else ([], c # cs))"

definition read_sign :: "string \<Rightarrow> bool \<times> string" where
  "read_sign s = (case s of
      [] \<Rightarrow> (False, s)
    | c # r \<Rightarrow> if c = CHR ''-'' then (True, r) else if c = CHR ''+'' then (False, r) else (False, s))"

definition read_exponent :: "string \<Rightarrow> int option" where
  "read_exponent s = (case s of
      [] \<Rightarrow> Some 0
    | c # r \<Rightarrow>
        if c = CHR ''e'' \<or> c = CHR ''E'' then
          (let (neg, u) = read_sign r; (ds, rest) = read_digits u in
           if ds \<noteq> [] \<and> rest = [] then
             Some (if neg then - digits_val ds else digits_val ds) else None)
        else None)"

definition read_fraction :: "string \<Rightarrow> string \<times> string" where
  "read_fraction s = (case s of
      [] \<Rightarrow> ([], s) | c # r \<Rightarrow> if c = CHR ''.'' then read_digits r else ([], s))"

text \<open>The exact value of an unsigned decimal numeral.\<close>

definition read_decimal :: "string \<Rightarrow> rat option" where
  "read_decimal u =
     (let (ip, r1) = read_digits u; (fp, r2) = read_fraction r1 in
      if ip = [] \<and> fp = [] then None
      else map_option (\<lambda>e. of_int (digits_val (ip @ fp)) * 10 powi (e - int (length fp)))
             (read_exponent r2))"

text \<open>\<^verbatim>\<open>float(s)\<close>; \<^const>\<open>None\<close> is ValueError.\<close>

definition float_of_string :: "string \<Rightarrow> pyfloat option" where
  "float_of_string s =
     (let (neg, u) = read_sign (strip s); l = lower u in
      if l = ''inf'' \<or> l = ''infinity'' then Some (if neg then NInf else PInf)
      else if l = ''nan'' then Some NaN
      else map_option (\<lambda>q. fround (if neg then - q else q)) (read_decimal u))"

text \<open>\<^verbatim>\<open>int(s)\<close>; \<^const>\<open>None\<close> is ValueError.\<close>

definition int_of_string :: "string \<Rightarrow> int option" where
  "int_of_string s =
     (let (neg, u) = read_sign (strip s); (ds, rest) = read_digits u in
      if ds \<noteq> [] \<and> rest = [] then
        Some (if neg then - digits_val ds else digits_val ds) else None)"

text \<open>\<^verbatim>\<open>x.is_integer()\<close> and \<^verbatim>\<open>int(x)\<close> (towards zero).\<close>

definition is_integer :: "pyfloat \<Rightarrow> bool" where
  "is_integer x = (case x of Fin q \<Rightarrow> of_int \<lfloor>q\<rfloor> = q | _ \<Rightarrow> False)"

definition int_of_float :: "pyfloat \<Rightarrow> int res" where
  "int_of_float x = (case x of
      Fin q \<Rightarrow> Inr (if 0 \<le> q then \<lfloor>q\<rfloor> else \<lceil>q\<rceil>)
    | NaN \<Rightarrow> Inl ValueError
    | _ \<Rightarrow> Inl OverflowError)"

text \<open>
  The digits \<^verbatim>\<open>repr\<close> prints for a positive float: the least number of significant digits at which
  one of the two neighbouring decimals reads back as the float, the nearer one where both do. The
  result is (k, x) for the decimal k * 10^x.
\<close>

definition repr_pick :: "rat \<Rightarrow> nat \<Rightarrow> (int \<times> int) option" where
  "repr_pick a n =
     (let x = floor_log10 a - int n + 1; s = a / 10 powi x; k = \<lfloor>s\<rfloor>;
          lo = (fround (of_int k * 10 powi x) = Fin a);
          hi = (fround (of_int (k + 1) * 10 powi x) = Fin a) in
      if lo \<and> hi then Some (if s - of_int k < 1/2 \<or> (s - of_int k = 1/2 \<and> even k) then k else k + 1, x)
      else if lo then Some (k, x) else if hi then Some (k + 1, x) else None)"

fun repr_search :: "rat \<Rightarrow> nat \<Rightarrow> nat \<Rightarrow> (int \<times> int) option" where
  "repr_search a n 0 = None"
| "repr_search a n (Suc fuel) =
     (case repr_pick a n of Some r \<Rightarrow> Some r | None \<Rightarrow> repr_search a (Suc n) fuel)"

definition repr_digits :: "rat \<Rightarrow> int \<times> int" where
  "repr_digits a = (case repr_search a 1 1400 of Some r \<Rightarrow> r | None \<Rightarrow> (0, 0))"

definition strip_zeros :: "string \<Rightarrow> string" where
  "strip_zeros s = rev (dropWhile (\<lambda>c. c = CHR ''0'') (rev s))"

definition zeros :: "nat \<Rightarrow> string" where
  "zeros n = replicate n (CHR ''0'')"

text \<open>CPython's layout of the digits ds with the decimal point after position decpt.\<close>

definition repr_layout :: "string \<Rightarrow> int \<Rightarrow> string" where
  "repr_layout ds decpt =
     (if decpt \<le> - 4 \<or> 16 < decpt then
        (let x = decpt - 1; ex = show_pos \<bar>x\<bar> in
         take 1 ds @ (if length ds \<le> 1 then [] else CHR ''.'' # drop 1 ds)
           @ CHR ''e'' # (if x < 0 then CHR ''-'' else CHR ''+'')
           # (if length ex < 2 then CHR ''0'' # ex else ex))
      else if decpt \<le> 0 then ''0.'' @ zeros (nat (- decpt)) @ ds
      else if int (length ds) \<le> decpt then ds @ zeros (nat decpt - length ds) @ ''.0''
      else take (nat decpt) ds @ CHR ''.'' # drop (nat decpt) ds)"

definition repr_pos :: "rat \<Rightarrow> string" where
  "repr_pos a = (let (k, x) = repr_digits a; d = show_pos k in
     repr_layout (strip_zeros d) (int (length d) + x))"

text \<open>\<^verbatim>\<open>repr(x)\<close>.\<close>

definition repr_float :: "pyfloat \<Rightarrow> string" where
  "repr_float x = (case x of
      Fin q \<Rightarrow> if q = 0 then ''0.0'' else if q < 0 then CHR ''-'' # repr_pos (- q) else repr_pos q
    | PInf \<Rightarrow> ''inf'' | NInf \<Rightarrow> ''-inf'' | NaN \<Rightarrow> ''nan'')"

section \<open>Arithmetic\<close>

text \<open>The rounded operations on finite operands; the special values follow IEEE.\<close>

definition fl_sgn :: "pyfloat \<Rightarrow> rat" where
  "fl_sgn z = (case z of Fin q \<Rightarrow> sgn q | PInf \<Rightarrow> 1 | NInf \<Rightarrow> - 1 | NaN \<Rightarrow> 0)"

definition fl_mul :: "pyfloat \<Rightarrow> pyfloat \<Rightarrow> pyfloat" where
  "fl_mul a b = (case (a, b) of
      (Fin x, Fin y) \<Rightarrow> fround (x * y)
    | _ \<Rightarrow> if fl_sgn a * fl_sgn b = 0 then NaN
           else if 0 < fl_sgn a * fl_sgn b then PInf else NInf)"

definition fl_add :: "pyfloat \<Rightarrow> pyfloat \<Rightarrow> pyfloat" where
  "fl_add a b = (case (a, b) of
      (Fin x, Fin y) \<Rightarrow> fround (x + y)
    | (NaN, _) \<Rightarrow> NaN | (_, NaN) \<Rightarrow> NaN
    | (PInf, NInf) \<Rightarrow> NaN | (NInf, PInf) \<Rightarrow> NaN
    | (PInf, _) \<Rightarrow> PInf | (_, PInf) \<Rightarrow> PInf
    | _ \<Rightarrow> NInf)"

definition fl_neg :: "pyfloat \<Rightarrow> pyfloat" where
  "fl_neg a = (case a of Fin x \<Rightarrow> Fin (- x) | PInf \<Rightarrow> NInf | NInf \<Rightarrow> PInf | NaN \<Rightarrow> NaN)"

definition fl_sub :: "pyfloat \<Rightarrow> pyfloat \<Rightarrow> pyfloat" where
  "fl_sub a b = fl_add a (fl_neg b)"

definition fl_abs :: "pyfloat \<Rightarrow> pyfloat" where
  "fl_abs a = (case a of Fin x \<Rightarrow> Fin \<bar>x\<bar> | NaN \<Rightarrow> NaN | _ \<Rightarrow> PInf)"

definition fl_div :: "pyfloat \<Rightarrow> pyfloat \<Rightarrow> pyfloat res" where
  "fl_div a b = (if b = Fin 0 then Inl ZeroDivisionError
     else Inr (case (a, b) of
         (Fin x, Fin y) \<Rightarrow> fround (x / y)
       | (NaN, _) \<Rightarrow> NaN | (_, NaN) \<Rightarrow> NaN
       | (Fin x, _) \<Rightarrow> Fin 0
       | (_, Fin y) \<Rightarrow> if 0 < fl_sgn a * fl_sgn b then PInf else NInf
       | _ \<Rightarrow> NaN))"

section \<open>Rounding is idempotent\<close>


text \<open>Bracketing a quotient by the leading digits of its numerator and denominator.\<close>

lemma powi_bracket:
  fixes b :: rat and n d :: int
  assumes b: "1 < b" and k: "b powi (x - 1) \<le> of_int n" "of_int n < b powi x"
    and l: "b powi (y - 1) \<le> of_int d" "of_int d < b powi y" and d: "0 < d" "0 < n"
    and q: "q = of_int n / of_int d"
    and r: "r = (if b powi (x - y) \<le> q then x - y else x - y - 1)"
  shows "b powi r \<le> q \<and> q < b powi (r + 1)"
proof -
  have b0: "b \<noteq> 0" "0 < b" using b by auto
  have up: "q < b powi (x - y + 1)"
  proof -
    have "q < b powi x / b powi (y - 1)"
      unfolding q by (rule frac_less) (use k l d b0 in auto)
    also have "\<dots> = b powi (x - y + 1)"
      using b0 by (simp add: power_int_diff [symmetric] algebra_simps)
    finally show ?thesis .
  qed
  have lo: "b powi (x - y - 1) < q"
  proof -
    have "b powi (x - y - 1) = b powi (x - 1) / b powi y"
      using b0 by (simp add: power_int_diff [symmetric] algebra_simps)
    also have "\<dots> < q"
      unfolding q by (rule frac_less2) (use k l d b0 in auto)
    finally show ?thesis .
  qed
  show ?thesis using up lo r by auto
qed

lemma floor_log2: 
  assumes "0 < q"
  shows "2 powi (floor_log2 q) \<le> q \<and> q < 2 powi (floor_log2 q + 1)"
proof -
  obtain n d where nd: "quotient_of q = (n, d)" by (cases "quotient_of q")
  have d: "0 < d" using quotient_of_denom_pos [OF nd] .
  have q: "q = of_int n / of_int d" using quotient_of_div [OF nd] .
  have n: "0 < n" using assms d q by (simp add: zero_less_divide_iff)
  have B: "(2::rat) powi (bitlen m - 1) \<le> of_int m \<and> of_int m < (2::rat) powi (bitlen m)" if "0 < m" for m
  proof -
    have b: "2 ^ nat (bitlen m - 1) \<le> m \<and> m < 2 ^ nat (bitlen m)" "0 < bitlen m"
      using that bitlen_bounds [of m] bitlen_eq_zero_iff [of m] bitlen_nonneg [of m] by auto
    have "(2::rat) powi (bitlen m - 1) = of_int (2 ^ nat (bitlen m - 1))"
      "(2::rat) powi (bitlen m) = of_int (2 ^ nat (bitlen m))"
      using b(2) by (auto simp: power_int_def)
    then show ?thesis using b(1) by (simp only: of_int_le_iff of_int_less_iff)
  qed
  have r: "floor_log2 q = (if 2 powi (bitlen n - bitlen d) \<le> q then bitlen n - bitlen d else bitlen n - bitlen d - 1)"
    by (simp add: floor_log2_def nd Let_def)
  show ?thesis
    by (rule powi_bracket [where x = "bitlen n" and y = "bitlen d" and n = n and d = d])
       (use B[OF n] B[OF d] d n q r in simp_all)
qed

lemma floor_log10: 
  assumes "0 < q"
  shows "10 powi (floor_log10 q) \<le> q \<and> q < 10 powi (floor_log10 q + 1)"
proof -
  obtain n d where nd: "quotient_of q = (n, d)" by (cases "quotient_of q")
  have d: "0 < d" using quotient_of_denom_pos [OF nd] .
  have q: "q = of_int n / of_int d" using quotient_of_div [OF nd] .
  have n: "0 < n" using assms d q by (simp add: zero_less_divide_iff)
  let ?l = "\<lambda>m. int (length (show_pos m))"
  have B: "(10::rat) powi (?l m - 1) \<le> of_int m \<and> of_int m < (10::rat) powi (?l m)" if "0 < m" for m
  proof -
    have b: "10 ^ (length (show_pos m) - 1) \<le> m \<and> m < 10 ^ length (show_pos m)" "0 < ?l m"
      using show_pos_length [OF that] by auto
    have "(10::rat) powi (?l m - 1) = of_int (10 ^ (length (show_pos m) - 1))"
      "(10::rat) powi (?l m) = of_int (10 ^ length (show_pos m))"
      using b(2) by (auto simp: power_int_def nat_diff_distrib')
    then show ?thesis using b(1) by (simp only: of_int_le_iff of_int_less_iff)
  qed
  have r: "floor_log10 q = (if 10 powi (?l n - ?l d) \<le> q then ?l n - ?l d else ?l n - ?l d - 1)"
    by (simp add: floor_log10_def nd Let_def)
  show ?thesis
    by (rule powi_bracket [where x = "?l n" and y = "?l d" and n = n and d = d])
       (use B[OF n] B[OF d] d n q r in simp_all)
qed

lemma powi_less_imp: "b powi m < b powi n \<Longrightarrow> 1 < b \<Longrightarrow> m < n" for b :: rat
  using power_int_increasing [of n m b] by force

lemma floor_log2_unique: "0 < q \<Longrightarrow> 2 powi e \<le> q \<Longrightarrow> q < 2 powi (e + 1) \<Longrightarrow> floor_log2 q = e"
proof -
  assume q: "0 < q" "2 powi e \<le> q" "q < 2 powi (e + 1)"
  have "2 powi (floor_log2 q) < (2::rat) powi (e + 1)" "(2::rat) powi e < 2 powi (floor_log2 q + 1)"
    using floor_log2 [OF q(1)] q by linarith+
  then have "floor_log2 q < e + 1" "e < floor_log2 q + 1"
    by (auto dest!: powi_less_imp)
  then show ?thesis by simp
qed

lemma rhe_of_int [simp]: "rhe (of_int m) = m"
  by (simp add: rhe_def)

lemma rhe_ge: "of_int m \<le> x \<Longrightarrow> m \<le> rhe x"
  by (auto simp: rhe_def Let_def le_floor_iff) linarith+

lemma rhe_le: "x \<le> of_int m \<Longrightarrow> rhe x \<le> m"
proof -
  assume x: "x \<le> of_int m"
  show ?thesis
  proof (cases "\<lfloor>x\<rfloor> < m")
    case True
    then show ?thesis by (simp add: rhe_def Let_def)
  next
    case False
    with x have "x = of_int m" by (meson floor_less_iff le_floor_iff linorder_not_less order_antisym)
    then show ?thesis by simp
  qed
qed

text \<open>A multiple of the unit in the last place rounds to itself.\<close>

lemma is_float_multiple:
  assumes "0 < r" "r = of_int m * 2 powi (ulp_exp r)" "r < 2 ^ 1024"
  shows "is_float r \<and> is_float (- r)"
proof -
  have "r / 2 powi ulp_exp r = of_int m" by (subst assms(2)) simp
  then have "of_int (rhe (r / 2 powi ulp_exp r)) * 2 powi ulp_exp r = r"
    using assms(2) by simp
  with assms show ?thesis by (simp add: is_float_def fround_def Let_def)
qed


lemma fround_0 [simp]: "fround 0 = Fin 0"
  by (simp add: fround_def)

lemma is_float_0 [simp]: "is_float 0"
  by (simp add: is_float_def)

lemma ulp_exp_ge: "- 1074 \<le> ulp_exp a"
  by (simp add: ulp_exp_def)

lemma is_float_scaled:
  assumes m: "0 < m" "m \<le> 2 ^ 53" and e: "- 1074 \<le> e"
    and r: "r = of_int m * 2 powi e" "r < 2 ^ 1024"
  shows "is_float r \<and> is_float (- r)"
proof -
  have r0: "0 < r" using m r by simp
  show ?thesis
  proof (cases "m = 2 ^ 53")
    case True
    have "r = 2 powi (e + 53)" using True r by (simp add: power_int_add power_int_numeral)
    then have "floor_log2 r = e + 53"
      by (intro floor_log2_unique) (use r0 in \<open>auto simp: power_int_add\<close>)
    then have "ulp_exp r = e + 1" using e by (simp add: ulp_exp_def)
    then have "r = of_int (2 ^ 52) * 2 powi (ulp_exp r)"
      using True r by (simp add: power_int_add)
    then show ?thesis using r0 r by (intro is_float_multiple)
  next
    case False
    with m have "(of_int m :: rat) < of_int (2 ^ 53)" by (simp only: of_int_less_iff)
    then have "r < 2 ^ 53 * 2 powi e" using r by simp
    also have "\<dots> = 2 powi (e + 53)" by (simp add: power_int_add power_int_numeral)
    finally have "2 powi (floor_log2 r) < (2 :: rat) powi (e + 53)"
      using floor_log2 [OF r0] by linarith
    then have "floor_log2 r < e + 53" by (auto dest: powi_less_imp)
    then have le: "ulp_exp r \<le> e" using e by (simp add: ulp_exp_def)
    then have "(2 :: rat) powi e = 2 ^ nat (e - ulp_exp r) * 2 powi (ulp_exp r)"
      by (simp add: power_int_def [of 2 "e - ulp_exp r", symmetric] power_int_diff
            flip: power_int_of_nat)
    then have "r = of_int (m * 2 ^ nat (e - ulp_exp r)) * 2 powi (ulp_exp r)"
      using r by simp
    then show ?thesis using r0 r by (intro is_float_multiple)
  qed
qed

lemma fround_is_float: "fround q = Fin r \<Longrightarrow> is_float r"
proof (cases "q = 0")
  case False
  assume fr: "fround q = Fin r"
  define e where "e = ulp_exp \<bar>q\<bar>"
  define m where "m = rhe (\<bar>q\<bar> / 2 powi e)"
  define r' where "r' = of_int m * (2 :: rat) powi e"
  have r: "r = sgn q * r'" "r' < 2 ^ 1024"
    using fr False by (auto simp: fround_def Let_def e_def m_def r'_def split: if_splits)
  have a: "0 < \<bar>q\<bar>" using False by simp
  have "\<bar>q\<bar> < 2 powi (floor_log2 \<bar>q\<bar> + 1)" using floor_log2 [OF a] by blast
  also have "\<dots> \<le> (2 :: rat) powi (e + 53)"
    by (rule power_int_increasing) (auto simp: e_def ulp_exp_def)
  also have "\<dots> = of_int (2 ^ 53) * 2 powi e" by (simp add: power_int_add)
  finally have "\<bar>q\<bar> / 2 powi e \<le> of_int (2 ^ 53)" by (simp add: divide_le_eq)
  then have m2: "m \<le> 2 ^ 53" unfolding m_def by (rule rhe_le)
  have m0: "0 \<le> m" unfolding m_def by (rule rhe_ge) simp
  show ?thesis
  proof (cases "m = 0")
    case True
    then show ?thesis using r by (simp add: r'_def)
  next
    case False
    with m0 m2 r(2) have "is_float r' \<and> is_float (- r')"
      by (intro is_float_scaled [where m = m and e = e]) (auto simp: r'_def e_def ulp_exp_ge)
    then show ?thesis using r(1) \<open>q \<noteq> 0\<close> by (auto simp: sgn_if)
  qed
qed simp

section \<open>Reading back what was printed\<close>


subsection \<open>Reading digits back\<close>

lemma digit_not_underscore: "is_digit c \<Longrightarrow> c \<noteq> CHR ''_''"
  by (auto simp: is_digit_def)

lemma read_digits_append:
  "list_all is_digit ds \<Longrightarrow> rest = [] \<or> (\<not> is_digit (hd rest) \<and> hd rest \<noteq> CHR ''_'') \<Longrightarrow>
   read_digits (ds @ rest) = (ds, rest)"
proof (induction ds)
  case Nil
  then show ?case by (cases rest) auto
next
  case (Cons c ds)
  then have ih: "read_digits (ds @ rest) = (ds, rest)" and c: "is_digit c" by auto
  have "ds @ rest = u # v \<Longrightarrow> u \<noteq> CHR ''_''" for u v
    using Cons.prems digit_not_underscore by (cases ds) auto
  then have "(case ds @ rest of
       u # d # cs' \<Rightarrow> if u = CHR ''_'' \<and> is_digit d then read_digits (d # cs') else read_digits (ds @ rest)
     | _ \<Rightarrow> read_digits (ds @ rest)) = read_digits (ds @ rest)"
    by (auto split: list.splits)
  then show ?case using ih c by simp
qed

lemma read_digits_all: "list_all is_digit ds \<Longrightarrow> read_digits ds = (ds, [])"
  using read_digits_append [of ds "[]"] by simp

lemma not_digit_chars [simp]:
  "\<not> is_digit (CHR ''.'')" "\<not> is_digit (CHR ''e'')" "\<not> is_digit (CHR ''-'')" "\<not> is_digit (CHR ''+'')"
  by (simp_all add: is_digit_def)

lemma read_decimal_fixed:
  assumes "list_all is_digit ip" "list_all is_digit fp" "ip \<noteq> []"
  shows "read_decimal (ip @ CHR ''.'' # fp) =
     Some (of_int (digits_val (ip @ fp)) * 10 powi (- int (length fp)))"
  using assms
  by (simp add: read_decimal_def read_digits_append read_digits_all read_fraction_def
      read_exponent_def)

lemma read_exponent_layout:
  assumes "list_all is_digit ex" "ex \<noteq> []" "digits_val ex = \<bar>x\<bar>"
  shows "read_exponent (CHR ''e'' # (if x < 0 then CHR ''-'' else CHR ''+'') # ex) = Some x"
  using assms by (simp add: read_exponent_def read_sign_def read_digits_all)

lemma read_decimal_exp:
  assumes ip: "list_all is_digit ip" "ip \<noteq> []" and fp: "list_all is_digit fp"
    and ex: "list_all is_digit ex" "ex \<noteq> []" "digits_val ex = \<bar>x\<bar>"
  shows "read_decimal (ip @ (if fp = [] then [] else CHR ''.'' # fp)
       @ CHR ''e'' # (if x < 0 then CHR ''-'' else CHR ''+'') # ex) =
     Some (of_int (digits_val (ip @ fp)) * 10 powi (x - int (length fp)))"
proof (cases "fp = []")
  case True
  then show ?thesis
    using ip read_exponent_layout [OF ex]
    by (simp add: read_decimal_def read_digits_append read_fraction_def)
next
  case False
  then show ?thesis
    using ip fp read_exponent_layout [OF ex]
    by (simp add: read_decimal_def read_digits_append read_fraction_def)
qed

subsection \<open>The layout denotes the digits\<close>

lemma digits_zeros [simp]: "list_all is_digit (zeros n)"
  by (simp add: zeros_def list_all_iff is_digit_def)

lemma length_zeros [simp]: "length (zeros n) = n"
  by (simp add: zeros_def)

lemma digits_val_zeros [simp]: "digits_val (zeros n) = 0"
  using digits_val_replicate_0 [of n "[]"] by (simp add: zeros_def digits_val_def)

lemma powi_nat_diff: "b \<noteq> 0 \<Longrightarrow> int n \<le> m \<Longrightarrow> b ^ nat (m - int n) = b powi m / b ^ n" for b :: rat
  by (simp add: power_int_diff [symmetric] power_int_def [of b "m - int n", symmetric]
        flip: power_int_of_nat)

lemma read_repr_layout:
  assumes ds: "list_all is_digit ds" "ds \<noteq> []"
  shows "read_decimal (repr_layout ds decpt) =
     Some (of_int (digits_val ds) * 10 powi (decpt - int (length ds)))"
proof -
  consider (ex) "decpt \<le> - 4 \<or> 16 < decpt" | (zero) "- 4 < decpt" "decpt \<le> 0"
    | (int) "0 < decpt" "decpt \<le> 16" "int (length ds) \<le> decpt"
    | (mid) "0 < decpt" "decpt \<le> 16" "decpt < int (length ds)" by linarith
  then show ?thesis
  proof cases
    case ex
    let ?x = "decpt - 1" and ?ex = "show_pos \<bar>decpt - 1\<bar>"
    let ?e = "if length ?ex < 2 then CHR ''0'' # ?ex else ?ex"
    have e: "list_all is_digit ?e" "?e \<noteq> []" "digits_val ?e = \<bar>?x\<bar>"
      using show_pos_digits [of "\<bar>?x\<bar>"] digits_val_replicate_0 [of 1 ?ex]
      by (auto simp: is_digit_def)
    have t: "list_all is_digit (take 1 ds)" "take 1 ds \<noteq> []" "list_all is_digit (drop 1 ds)"
      using ds by (auto simp: list_all_iff dest: in_set_takeD in_set_dropD)
    have "repr_layout ds decpt = take 1 ds @ (if drop 1 ds = [] then [] else CHR ''.'' # drop 1 ds)
        @ CHR ''e'' # (if ?x < 0 then CHR ''-'' else CHR ''+'') # ?e"
      using ex by (simp add: repr_layout_def Let_def)
    moreover have "?x - int (length (drop 1 ds)) = decpt - int (length ds)"
      using ds(2) by (cases ds) auto
    ultimately show ?thesis
      using read_decimal_exp [OF t(1,2,3) e] by (simp only: append_take_drop_id)
  next
    case zero
    have "repr_layout ds decpt = ''0'' @ CHR ''.'' # (zeros (nat (- decpt)) @ ds)"
      using zero by (simp add: repr_layout_def)
    moreover have "digits_val (''0'' @ zeros (nat (- decpt)) @ ds) = digits_val ds"
      using digits_val_replicate_0 [of "Suc (nat (- decpt))" ds] by (simp add: zeros_def)
    ultimately show ?thesis
      using read_decimal_fixed [of "''0''" "zeros (nat (- decpt)) @ ds"] ds zero
      by (simp add: is_digit_def)
  next
    case int
    have zero: "digits_val ''0'' = 0" by (simp add: digits_val_def digit_val_def)
    let ?z = "zeros (nat decpt - length ds)"
    have "repr_layout ds decpt = (ds @ ?z) @ CHR ''.'' # ''0''"
      using int by (simp add: repr_layout_def)
    moreover have "digits_val ((ds @ ?z) @ ''0'') = digits_val ds * 10 ^ nat (decpt - int (length ds)) * 10"
      using int by (simp add: digits_val_append nat_diff_distrib zero)
    ultimately show ?thesis
      using read_decimal_fixed [of "ds @ ?z" "''0''"] ds int
      by (simp add: is_digit_def power_int_def [of 10 "decpt - int (length ds)"] power_int_minus)
  next
    case mid
    let ?i = "take (nat decpt) ds" and ?f = "drop (nat decpt) ds"
    have t: "list_all is_digit ?i" "?i \<noteq> []" "list_all is_digit ?f"
      using ds mid by (auto simp: list_all_iff dest: in_set_takeD in_set_dropD)
    have "repr_layout ds decpt = ?i @ CHR ''.'' # ?f"
      using mid by (simp add: repr_layout_def)
    moreover have "- int (length ?f) = decpt - int (length ds)" using mid by simp
    ultimately show ?thesis
      using read_decimal_fixed [OF t(1,3,2)] by (simp only: append_take_drop_id)
  qed
qed


subsection \<open>The digits that are printed\<close>

lemma strip_zeros_split: "\<exists>n. s = strip_zeros s @ zeros n"
proof -
  let ?z = "\<lambda>c. c = CHR ''0''"
  have "takeWhile ?z (rev s) = replicate (length (takeWhile ?z (rev s))) (CHR ''0'')"
    by (rule replicate_eqI) (auto dest: set_takeWhileD)
  then obtain n where n: "takeWhile ?z (rev s) = zeros n" by (auto simp: zeros_def)
  have "s = rev (takeWhile ?z (rev s) @ dropWhile ?z (rev s))" by simp
  also have "\<dots> = strip_zeros s @ zeros n"
    unfolding n rev_append by (simp add: strip_zeros_def zeros_def)
  finally show ?thesis by blast
qed

lemma strip_zeros_digits:
  assumes "0 < k"
  shows "list_all is_digit (strip_zeros (show_pos k))" "strip_zeros (show_pos k) \<noteq> []"
    "digits_val (strip_zeros (show_pos k)) * 10 ^ (length (show_pos k) - length (strip_zeros (show_pos k))) = k"
    "length (strip_zeros (show_pos k)) \<le> length (show_pos k)"
proof -
  let ?d = "show_pos k"
  obtain n where n: "?d = strip_zeros ?d @ zeros n" using strip_zeros_split by blast
  have dig: "list_all is_digit (strip_zeros ?d @ zeros n)" using show_pos_digits [of k] assms n by simp
  then show "list_all is_digit (strip_zeros ?d)" by simp
  have len: "length ?d = length (strip_zeros ?d) + n"
    using arg_cong [OF n, of length] by simp
  then show "length (strip_zeros ?d) \<le> length ?d" by simp
  have "k = digits_val (strip_zeros ?d @ zeros n)"
    using digits_val_show_pos [of k] assms n by simp
  then have k: "k = digits_val (strip_zeros ?d) * 10 ^ n" by (simp add: digits_val_append)
  then show "digits_val (strip_zeros ?d) * 10 ^ (length ?d - length (strip_zeros ?d)) = k"
    using len by simp
  show "strip_zeros ?d \<noteq> []"
  proof
    assume "strip_zeros ?d = []"
    with k assms show False by (simp add: digits_val_def)
  qed
qed

lemma read_repr_digits:
  assumes "0 < k"
  shows "read_decimal (repr_layout (strip_zeros (show_pos k)) (int (length (show_pos k)) + x)) =
     Some (of_int k * 10 powi x)"
proof -
  let ?d = "show_pos k" and ?s = "strip_zeros (show_pos k)"
  note s = strip_zeros_digits [OF assms]
  have "(of_int k :: rat) * 10 powi x = of_int (digits_val ?s) * 10 ^ (length ?d - length ?s) * 10 powi x"
    by (subst s(3) [symmetric]) simp
  also have "\<dots> = of_int (digits_val ?s) * 10 powi (int (length ?d) + x - int (length ?s))"
    using s(4) by (simp add: power_int_add power_int_diff power_diff)
  finally show ?thesis using read_repr_layout [OF s(1,2)] by simp
qed

lemma repr_pick_Some:
  assumes "repr_pick a n = Some (k, x)" "0 < a" "0 < n"
  shows "fround (of_int k * 10 powi x) = Fin a \<and> 0 < k"
proof -
  let ?x = "floor_log10 a - int n + 1"
  have "(10 :: rat) powi ?x \<le> 10 powi floor_log10 a"
    by (rule power_int_increasing) (use assms in auto)
  also have "\<dots> \<le> a" using floor_log10 [OF assms(2)] by blast
  finally have "1 \<le> a / 10 powi ?x" by simp
  then have k: "1 \<le> \<lfloor>a / 10 powi ?x\<rfloor>" by simp
  have "k = \<lfloor>a / 10 powi ?x\<rfloor> \<or> k = \<lfloor>a / 10 powi ?x\<rfloor> + 1"
    using assms(1) by (auto simp: repr_pick_def Let_def split: if_splits)
  with k have "0 < k" by linarith
  moreover have "fround (of_int k * 10 powi x) = Fin a"
    using assms(1) by (auto simp: repr_pick_def Let_def split: if_splits)
  ultimately show ?thesis by blast
qed

lemma repr_search_Some:
  assumes "repr_pick a (n + i) \<noteq> None" "i < fuel"
  shows "\<exists>r j. repr_search a n fuel = Some r \<and> repr_pick a j = Some r \<and> n \<le> j"
  using assms
proof (induction fuel arbitrary: n i)
  case (Suc fuel)
  show ?case
  proof (cases "repr_pick a n")
    case None
    with Suc.prems obtain i' where "i = Suc i'" by (cases i) auto
    with Suc.IH [of "Suc n" i'] Suc.prems None show ?thesis by (auto intro: Suc_leD)
  qed auto
qed simp

lemma is_float_dyadic:
  assumes "is_float a" "0 < a"
  shows "\<exists>m e. a = of_int m * 2 powi e \<and> - 1074 \<le> e" "a < 2 ^ 1024"
  using assms ulp_exp_ge [of a]
  by (auto simp: is_float_def fround_def Let_def split: if_splits) metis

lemma repr_pick_exact:
  assumes "is_float a" "0 < a"
  shows "repr_pick a 1399 \<noteq> None"
proof -
  obtain m e where a: "a = of_int m * 2 powi e" and e: "- 1074 \<le> e"
    using is_float_dyadic(1) [OF assms] by blast
  have "10 powi (floor_log10 a) \<le> a" using floor_log10 [OF assms(2)] by blast
  also have "\<dots> < 2 ^ 1024" by (rule is_float_dyadic(2) [OF assms])
  also have "\<dots> \<le> (10 :: rat) powi 309" by simp
  finally have "10 powi (floor_log10 a) < (10 :: rat) powi 309" .
  then have E: "floor_log10 a < 309" by (rule powi_less_imp) simp
  define x where "x = floor_log10 a - int 1399 + 1"
  have x: "x \<le> - 1074" "x \<le> e" "x < 0" using E e by (auto simp: x_def)
  have "a / 10 powi x = of_int m * (2 powi (e - x) * 5 powi (- x))"
    using a power_int_mult_distrib [of "2 :: rat" 5 x]
    by (simp add: power_int_diff power_int_minus field_simps)
  also have "\<dots> = of_int (m * (2 ^ nat (e - x) * 5 ^ nat (- x)))"
    using x by (simp add: power_int_def)
  finally obtain z where z: "a / 10 powi x = of_int z" by blast
  then have "of_int z * 10 powi x = a" by (simp add: field_simps)
  then have "fround (of_int \<lfloor>a / 10 powi x\<rfloor> * 10 powi x) = Fin a"
    using assms(1) z by (simp add: is_float_def)
  then show ?thesis
    by (simp add: repr_pick_def Let_def x_def)
qed

lemma read_repr_pos:
  assumes "is_float a" "0 < a"
  shows "map_option fround (read_decimal (repr_pos a)) = Some (Fin a)"
proof -
  have "repr_pick a (1 + 1398) \<noteq> None" using repr_pick_exact [OF assms] by simp
  then obtain k x j where s: "repr_search a 1 1400 = Some (k, x)" and p: "repr_pick a j = Some (k, x)" "1 \<le> j"
    using repr_search_Some [of a 1 1398 1400] by auto
  from repr_pick_Some [OF p(1) assms(2)] p(2)
  have k: "fround (of_int k * 10 powi x) = Fin a" "0 < k" by auto
  have "repr_pos a = repr_layout (strip_zeros (show_pos k)) (int (length (show_pos k)) + x)"
    using s by (simp add: repr_pos_def repr_digits_def Let_def)
  then show ?thesis using read_repr_digits [OF k(2)] k(1) by simp
qed


lemma repr_layout_ends:
  assumes "list_all is_digit ds" "ds \<noteq> []"
  shows "is_digit (hd (repr_layout ds decpt)) \<and> is_digit (last (repr_layout ds decpt))
     \<and> repr_layout ds decpt \<noteq> []"
proof -
  have ends: "is_digit (hd ds)" "is_digit (last ds)" "is_digit (CHR ''0'')"
    using assms by (auto simp: list_all_iff is_digit_def)
  have ex: "is_digit (last (show_pos \<bar>decpt - 1\<bar>))"
    using show_pos_digits [of "\<bar>decpt - 1\<bar>"] by (auto simp: list_all_iff)
  have "is_digit (hd (take 1 ds @ s))" for s
    using assms ends by (cases ds) auto
  then show ?thesis
    using assms ends ex
    by (auto simp: repr_layout_def Let_def hd_append hd_take last_append last_drop)
qed

lemma repr_pos_ends:
  assumes "is_float a" "0 < a"
  shows "is_digit (hd (repr_pos a)) \<and> is_digit (last (repr_pos a)) \<and> repr_pos a \<noteq> []"
proof -
  have "repr_pick a (1 + 1398) \<noteq> None" using repr_pick_exact [OF assms] by simp
  then obtain k x j where s: "repr_search a 1 1400 = Some (k, x)" and p: "repr_pick a j = Some (k, x)" "1 \<le> j"
    using repr_search_Some [of a 1 1398 1400] by auto
  from repr_pick_Some [OF p(1) assms(2)] p(2) have k: "0 < k" by auto
  show ?thesis
    using s repr_layout_ends [OF strip_zeros_digits(1,2) [OF k]]
    by (simp add: repr_pos_def repr_digits_def Let_def)
qed

lemma fround_minus: "fround q = Fin r \<Longrightarrow> fround (- q) = Fin (- r)"
  by (auto simp: fround_def Let_def sgn_if split: if_splits)

lemma digit_not_space: "is_digit c \<Longrightarrow> \<not> is_space c"
  by (auto simp: is_digit_def is_space_def Let_def)

lemma lower_digit: "is_digit c \<Longrightarrow> lower_char c = c"
  by (auto simp: is_digit_def lower_char_def Let_def)

lemma float_of_string_digit:
  assumes "is_digit (hd u)" "is_digit (last u)" "u \<noteq> []"
  shows "float_of_string u = map_option fround (read_decimal u)"
    "float_of_string (CHR ''-'' # u) = map_option (\<lambda>q. fround (- q)) (read_decimal u)"
proof -
  have minus: "\<not> is_space (CHR ''-'')" by (simp add: is_space_def)
  obtain c v where u: "u = c # v" "is_digit c" using assms by (cases u) auto
  have strip: "strip u = u" "strip (CHR ''-'' # u) = CHR ''-'' # u"
    using assms by (auto intro!: strip_id simp: digit_not_space minus)
  have words: "lower u \<noteq> ''inf''" "lower u \<noteq> ''infinity''" "lower u \<noteq> ''nan''"
    using u by (auto simp: lower_def lower_digit is_digit_def)
  have "c \<noteq> CHR ''-''" "c \<noteq> CHR ''+''" using u(2) by auto
  then show "float_of_string u = map_option fround (read_decimal u)"
    using strip words u by (simp add: float_of_string_def read_sign_def)
  show "float_of_string (CHR ''-'' # u) = map_option (\<lambda>q. fround (- q)) (read_decimal u)"
    using strip words by (simp add: float_of_string_def read_sign_def)
qed

lemma float_repr_roundtrip:
  assumes "is_float q"
  shows "float_of_string (repr_float (Fin q)) = Some (Fin q)"
proof -
  consider "q = 0" | "0 < q" | "q < 0" by linarith
  then show ?thesis
  proof cases
    case 1
    have "float_of_string (repr_float (Fin 0)) = Some (Fin 0)" by code_simp
    with 1 show ?thesis by simp
  next
    case 2
    with read_repr_pos [OF assms] repr_pos_ends [OF assms] show ?thesis
      by (simp add: repr_float_def float_of_string_digit)
  next
    case 3
    then have pos: "0 < - q" by simp
    have fl: "is_float (- q)" using fround_minus [of q q] assms by (simp add: is_float_def)
    from read_repr_pos [OF fl pos] repr_pos_ends [OF fl pos] 3 show ?thesis
      by (auto simp: repr_float_def float_of_string_digit fround_minus)
  qed
qed


lemma read_decimal_int: "list_all is_digit ds \<Longrightarrow> ds \<noteq> [] \<Longrightarrow> read_decimal ds = Some (of_int (digits_val ds))"
  by (simp add: read_decimal_def read_digits_all read_fraction_def read_exponent_def)

lemma show_pos_ends: "0 \<le> n \<Longrightarrow> is_digit (hd (show_pos n)) \<and> is_digit (last (show_pos n))"
  using show_pos_digits [of n] by (simp add: list_all_iff)

lemma float_int_roundtrip:
  assumes "is_float (of_int n)"
  shows "float_of_string (show_int n) = Some (Fin (of_int n))"
proof (cases "n < 0")
  case True
  then have "fround (of_int (- n)) = Fin (of_int (- n))"
    using fround_minus [of "of_int n" "of_int n"] assms by (simp add: is_float_def)
  with True assms show ?thesis
    using show_pos_ends [of "- n"] show_pos_digits [of "- n"]
    by (simp add: show_int_def float_of_string_digit read_decimal_int is_float_def)
next
  case False
  with assms show ?thesis
    using show_pos_ends [of n] show_pos_digits [of n]
    by (simp add: show_int_def float_of_string_digit read_decimal_int is_float_def)
qed

lemma int_of_string_show_int [simp]: "int_of_string (show_int n) = Some n"
proof -
  have ends: "\<not> is_space (hd (show_pos m))" "\<not> is_space (last (show_pos m))" "is_digit (hd (show_pos m))"
    if "0 \<le> m" for m
    using show_pos_ends [OF that] by (auto simp: digit_not_space)
  have sgn: "read_sign (show_pos m) = (False, show_pos m)" if "0 \<le> m" for m
    using ends(3) [OF that] by (cases "show_pos m") (auto simp: read_sign_def)
  have minus: "\<not> is_space (CHR ''-'')" by (simp add: is_space_def)
  have strip: "strip (show_int n) = show_int n"
    by (rule strip_id) (use ends [of n] ends [of "- n"] minus in \<open>auto simp: show_int_def\<close>)
  show ?thesis
  proof (cases "n < 0")
    case True
    then show ?thesis using strip show_pos_digits [of "- n"]
      by (simp add: int_of_string_def show_int_def read_sign_def read_digits_all)
  next
    case False
    then show ?thesis using strip show_pos_digits [of n]
      by (simp add: int_of_string_def show_int_def sgn read_digits_all)
  qed
qed

end
