(* ===== verification/PyTime.thy ===== *)
theory PyTime
  imports PyFloat
begin

text \<open>
  Python's \<^verbatim>\<open>datetime\<close> as the code uses it. A datetime is a number of microseconds since
  1970-01-01T00:00:00 and a flag: aware datetimes are the UTC instant they denote (the code
  normalises every parsed timestamp with \<^verbatim>\<open>astimezone(UTC)\<close>, and comparisons of aware datetimes
  only look at the instant), naive ones the wall clock reading. The proleptic Gregorian calendar,
  \<^verbatim>\<open>datetime.fromisoformat\<close> of Python 3.11 (the version the backend requires) and the
  \<^verbatim>\<open>strftime\<close> format the code prints are computed. An instant outside the years 1 to 9999, where
  \<^verbatim>\<open>astimezone\<close> would raise OverflowError, is kept. The main result is that reading back a
  printed timestamp gives the instant truncated to milliseconds.
\<close>

datatype datetime = DT (dt_aware: bool) (dt_us: int)

instantiation datetime :: linorder
begin

definition less_eq_datetime :: "datetime \<Rightarrow> datetime \<Rightarrow> bool" where
  "less_eq_datetime a b =
     (dt_aware a < dt_aware b \<or> (dt_aware a = dt_aware b \<and> dt_us a \<le> dt_us b))"

definition less_datetime :: "datetime \<Rightarrow> datetime \<Rightarrow> bool" where
  "less_datetime a b =
     (dt_aware a < dt_aware b \<or> (dt_aware a = dt_aware b \<and> dt_us a < dt_us b))"

instance
proof
  fix x y z :: datetime
  show "(x < y) = (x \<le> y \<and> \<not> y \<le> x)" by (auto simp: less_datetime_def less_eq_datetime_def)
  show "x \<le> x" by (simp add: less_eq_datetime_def)
  show "x \<le> y \<Longrightarrow> y \<le> z \<Longrightarrow> x \<le> z" by (auto simp: less_eq_datetime_def)
  show "x \<le> y \<Longrightarrow> y \<le> x \<Longrightarrow> x = y" by (auto simp: less_eq_datetime_def intro: datetime.expand)
  show "x \<le> y \<or> y \<le> x" by (auto simp: less_eq_datetime_def)
qed

end

section \<open>Calendar\<close>

definition leap :: "int \<Rightarrow> bool" where
  "leap y = (4 dvd y \<and> (\<not> 100 dvd y \<or> 400 dvd y))"

definition days_in_month :: "int \<Rightarrow> int \<Rightarrow> int" where
  "days_in_month y m =
     (if m = 2 then (if leap y then 29 else 28)
      else if m = 4 \<or> m = 6 \<or> m = 9 \<or> m = 11 then 30 else 31)"

definition days_before_year :: "int \<Rightarrow> int" where
  "days_before_year y = (let p = y - 1 in p * 365 + p div 4 - p div 100 + p div 400)"

definition days_before_month :: "int \<Rightarrow> int \<Rightarrow> int" where
  "days_before_month y m = sum_list (map (days_in_month y) [1..m - 1])"

definition ymd2ord :: "int \<Rightarrow> int \<Rightarrow> int \<Rightarrow> int" where
  "ymd2ord y m d = days_before_year y + days_before_month y m + d"

definition valid_date :: "int \<Rightarrow> int \<Rightarrow> int \<Rightarrow> bool" where
  "valid_date y m d =
     (1 \<le> y \<and> y \<le> 9999 \<and> 1 \<le> m \<and> m \<le> 12 \<and> 1 \<le> d \<and> d \<le> days_in_month y m)"

text \<open>The year of a day number: an estimate from the mean year length, corrected by one.\<close>

definition ord_year :: "int \<Rightarrow> int" where
  "ord_year n = (let y = (n - 1) * 400 div 146097 + 1 in
     if days_before_year (y + 1) < n then y + 1 else if days_before_year y < n then y else y - 1)"

fun ord_month :: "int \<Rightarrow> int list \<Rightarrow> int \<Rightarrow> int \<times> int" where
  "ord_month y [] r = (12, r)"
| "ord_month y (m # ms) r =
     (if r \<le> days_in_month y m then (m, r) else ord_month y ms (r - days_in_month y m))"

definition ord2ymd :: "int \<Rightarrow> int \<times> int \<times> int" where
  "ord2ymd n = (let y = ord_year n; (m, d) = ord_month y [1..12] (n - days_before_year y) in (y, m, d))"

definition epoch_ord :: int where
  "epoch_ord = 719163"

definition usec_of :: "int \<Rightarrow> int \<Rightarrow> int \<Rightarrow> int \<Rightarrow> int \<Rightarrow> int \<Rightarrow> int \<Rightarrow> int" where
  "usec_of y m d h mi s us =
     (((ymd2ord y m d - epoch_ord) * 86400 + h * 3600 + mi * 60 + s) * 1000000 + us)"

text \<open>\<^verbatim>\<open>_isoweek_to_gregorian\<close>.\<close>

definition isoweek_ord :: "int \<Rightarrow> int \<Rightarrow> int \<Rightarrow> int option" where
  "isoweek_ord y w d =
     (let first = ymd2ord y 1 1; wd = (first + 6) mod 7;
          monday = first - wd + (if 3 < wd then 7 else 0) in
      if 1 \<le> y \<and> y \<le> 9999 \<and> 1 \<le> d \<and> d \<le> 7 \<and>
         ((1 \<le> w \<and> w \<le> 52) \<or> (w = 53 \<and> (first mod 7 = 4 \<or> (first mod 7 = 3 \<and> leap y))))
      then Some (monday + (w - 1) * 7 + (d - 1)) else None)"

section \<open>datetime.fromisoformat\<close>

definition int_digits :: "string \<Rightarrow> int option" where
  "int_digits s = (if s \<noteq> [] \<and> list_all is_digit s then Some (digits_val s) else None)"

definition char_at :: "string \<Rightarrow> nat \<Rightarrow> char option" where
  "char_at s i = (if i < length s then Some (s ! i) else None)"

definition slice :: "nat \<Rightarrow> nat \<Rightarrow> string \<Rightarrow> string" where
  "slice i n s = take n (drop i s)"

text \<open>Where the date part ends.\<close>

definition iso_separator :: "string \<Rightarrow> nat" where
  "iso_separator s =
     (if length s = 7 then 7
      else if char_at s 4 = Some (CHR ''-'') then
        (if char_at s 5 = Some (CHR ''W'') then
           (if char_at s 8 = Some (CHR ''-'') then
              (case char_at s 10 of Some c \<Rightarrow> if is_digit c then 8 else 10 | None \<Rightarrow> 10)
            else 8)
         else 10)
      else if char_at s 4 = Some (CHR ''W'') then
        (let idx = 7 + length (takeWhile is_digit (drop 7 s)) in
         if idx < 9 then idx else if even idx then 7 else 8)
      else 8)"

text \<open>The day number of the date part.\<close>

definition iso_date :: "string \<Rightarrow> int option" where
  "iso_date s =
     (let sep = (char_at s 4 = Some (CHR ''-'')); p = (if sep then 5 else 4); k = (if sep then 1 else 0) in
      case (if length (take 4 s) = 4 then int_digits (take 4 s) else None) of
        None \<Rightarrow> None
      | Some y \<Rightarrow>
        if char_at s p = Some (CHR ''W'') then
          (case (if length (slice (p + 1) 2 s) = 2 then int_digits (slice (p + 1) 2 s) else None) of
             None \<Rightarrow> None
           | Some w \<Rightarrow>
               if length s = p + 3 then isoweek_ord y w 1
               else if (char_at s (p + 3) = Some (CHR ''-'')) \<noteq> sep then None
               else if length s \<noteq> p + 4 + k then None
               else (case int_digits (drop (p + 3 + k) s) of None \<Rightarrow> None | Some d \<Rightarrow> isoweek_ord y w d))
        else if (char_at s (p + 2) = Some (CHR ''-'')) \<noteq> sep \<or> length s \<noteq> p + 4 + k then None
        else
          (case (int_digits (slice p 2 s), int_digits (drop (p + 2 + k) s)) of
             (Some m, Some d) \<Rightarrow> if valid_date y m d then Some (ymd2ord y m d) else None
           | _ \<Rightarrow> None))"

text \<open>A fraction of a second in microseconds, and whether something other than digits follows.\<close>

definition iso_fraction :: "string \<Rightarrow> (int \<times> bool) option" where
  "iso_fraction s = (let k = min 6 (length s) in
     map_option (\<lambda>v. (v * 10 ^ (6 - k), \<not> list_all is_digit (drop k s))) (int_digits (take k s)))"

text \<open>
  \<^verbatim>\<open>parse_hh_mm_ss_ff\<close>: up to three two-digit components, then a fraction. The last component of
  the result says that input was left over.
\<close>

definition hms_cons :: "int \<Rightarrow> (int list \<times> int \<times> bool) option \<Rightarrow> (int list \<times> int \<times> bool) option" where
  "hms_cons v = map_option (\<lambda>(vs, us, l). (v # vs, us, l))"

fun iso_hms :: "nat \<Rightarrow> bool \<Rightarrow> string \<Rightarrow> (int list \<times> int \<times> bool) option" where
  "iso_hms 0 sep s = map_option (\<lambda>(us, l). ([], us, l)) (iso_fraction s)"
| "iso_hms (Suc n) sep s = (case s of
      a # b # rest \<Rightarrow>
        if is_digit a \<and> is_digit b then
          (let v = digits_val [a, b] in
           case rest of
             [] \<Rightarrow> Some ([v], 0, False)
           | [c] \<Rightarrow> Some ([v], 0, True)
           | c # d # r \<Rightarrow>
               (let sep' = (if n = 2 then c = CHR '':'' else sep) in
                if sep' \<and> c = CHR '':'' then hms_cons v (iso_hms n sep' (d # r))
                else if c = CHR ''.'' \<or> c = CHR '','' then
                  hms_cons v (map_option (\<lambda>(us, l). ([], us, l)) (iso_fraction (d # r)))
                else if \<not> sep' then hms_cons v (iso_hms n sep' rest)
                else None))
        else None
    | _ \<Rightarrow> None)"

definition is_tz_char :: "char \<Rightarrow> bool" where
  "is_tz_char c = (c = CHR ''+'' \<or> c = CHR ''-'' \<or> c = CHR ''Z'')"

definition hms_comp :: "int list \<Rightarrow> nat \<Rightarrow> int" where
  "hms_comp vs i = (if i < length vs then vs ! i else 0)"

definition hms_usec :: "int list \<Rightarrow> int \<Rightarrow> int" where
  "hms_usec vs us = (hms_comp vs 0 * 3600 + hms_comp vs 1 * 60 + hms_comp vs 2) * 1000000 + us"

text \<open>The time part: microseconds of the day and the UTC offset, if there is one.\<close>

definition iso_time :: "string \<Rightarrow> (int \<times> int option) option" where
  "iso_time t =
     (let tm = takeWhile (\<lambda>c. \<not> is_tz_char c) t; tz = dropWhile (\<lambda>c. \<not> is_tz_char c) t in
      case iso_hms 3 False tm of
        None \<Rightarrow> None
      | Some (vs, us, left) \<Rightarrow>
        if 24 \<le> hms_comp vs 0 \<or> 60 \<le> hms_comp vs 1 \<or> 60 \<le> hms_comp vs 2 then None
        else
          (case tz of
             [] \<Rightarrow> if left then None else Some (hms_usec vs us, None)
           | c # r \<Rightarrow>
               if c = CHR ''Z'' then (if r = [] then Some (hms_usec vs us, Some 0) else None)
               else
                 (case iso_hms 3 False r of
                    None \<Rightarrow> None
                  | Some (ws, uz, zleft) \<Rightarrow>
                      if zleft \<or> 86400 * 1000000 \<le> hms_usec ws uz then None
                      else Some (hms_usec vs us,
                             Some (if c = CHR ''-'' then - hms_usec ws uz else hms_usec ws uz)))))"

text \<open>\<^verbatim>\<open>datetime.fromisoformat(s)\<close>; \<^const>\<open>None\<close> is ValueError.\<close>

definition fromisoformat :: "string \<Rightarrow> datetime option" where
  "fromisoformat s =
     (if length s < 7 then None
      else
        let p = iso_separator s in
        case iso_date (take p s) of
          None \<Rightarrow> None
        | Some n \<Rightarrow>
          let day = (n - epoch_ord) * 86400 * 1000000 in
          if length s \<le> p then Some (DT False day)
          else (case iso_time (drop (p + 1) s) of
                  None \<Rightarrow> None
                | Some (us, None) \<Rightarrow> Some (DT False (day + us))
                | Some (us, Some off) \<Rightarrow> Some (DT True (day + us - off))))"

section \<open>Printing\<close>

definition pad :: "nat \<Rightarrow> int \<Rightarrow> string" where
  "pad n i = (let s = show_int i in replicate (n - length s) (CHR ''0'') @ s)"

text \<open>
  \<^verbatim>\<open>dt.strftime("%Y-%m-%dT%H:%M:%S.") + f"{dt.microsecond // 1000:03d}Z"\<close> of an aware datetime
  (the C library prints \<^verbatim>\<open>%Y\<close> without padding).
\<close>

definition strftime_ms :: "int \<Rightarrow> string" where
  "strftime_ms us =
     (let secs = us div 1000000; day = secs div 86400; sod = secs mod 86400;
          (y, m, d) = ord2ymd (day + epoch_ord) in
      show_int y @ ''-'' @ pad 2 m @ ''-'' @ pad 2 d @ ''T'' @ pad 2 (sod div 3600) @ '':''
        @ pad 2 (sod div 60 mod 60) @ '':'' @ pad 2 (sod mod 60) @ ''.''
        @ pad 3 (us mod 1000000 div 1000) @ ''Z'')"

text \<open>The instants whose year prints with four digits.\<close>

definition four_digit_year :: "int \<Rightarrow> bool" where
  "four_digit_year us = (usec_of 1000 1 1 0 0 0 0 \<le> us \<and> us < usec_of 10000 1 1 0 0 0 0)"

definition trunc_ms :: "int \<Rightarrow> int" where
  "trunc_ms us = us - us mod 1000"

section \<open>The calendar is inverted\<close>

lemma days_before_year_Suc:
  "days_before_year (y + 1) = days_before_year y + (if leap y then 366 else 365)"
proof -
  have "y div k - (y - 1) div k = (if k dvd y then 1 else 0)" if "0 < k" for k :: int
  proof -
    have "y = k * (y div k) + y mod k" "y - 1 = k * ((y - 1) div k) + (y - 1) mod k"
      "0 \<le> y mod k" "y mod k < k" "0 \<le> (y - 1) mod k" "(y - 1) mod k < k"
      using that by (simp_all add: mult.commute)
    show ?thesis
    proof (cases "k dvd y")
      case True
      then obtain z where "y = k * z" by blast
      then have "(y - 1) div k = z - 1"
        using that by (intro int_div_pos_eq [of _ _ _ "k - 1"]) (auto simp: algebra_simps)
      then show ?thesis using True \<open>y = k * z\<close> that by simp
    next
      case False
      then have "0 < y mod k" using that by (simp add: dvd_eq_mod_eq_0 order_less_le pos_mod_sign)
      then have "(y - 1) div k = y div k"
        using that pos_mod_bound [OF that, of y]
        by (intro int_div_pos_eq [of _ _ _ "y mod k - 1"]) (auto simp: algebra_simps)
      then show ?thesis using False by simp
    qed
  qed
  from this [of 4] this [of 100] this [of 400] show ?thesis
    by (auto simp: days_before_year_def leap_def Let_def algebra_simps)
qed

lemma ord_year_bounds: "days_before_year (ord_year n) < n \<and> n \<le> days_before_year (ord_year n + 1)"
proof -
  define y where "y = (n - 1) * 400 div 146097 + 1"
  have dby: "days_before_year z * 400 \<le> (z - 1) * 146097 + 400"
    "(z - 1) * 146097 - 800 \<le> days_before_year z * 400" for z
  proof -
    let ?p = "z - 1"
    have "?p div 4 * 4 \<le> ?p" "?p < ?p div 4 * 4 + 4" "?p div 100 * 100 \<le> ?p" "?p < ?p div 100 * 100 + 100"
      "?p div 400 * 400 \<le> ?p" "?p < ?p div 400 * 400 + 400" by auto
    then show "days_before_year z * 400 \<le> ?p * 146097 + 400" "?p * 146097 - 800 \<le> days_before_year z * 400"
      by (auto simp: days_before_year_def Let_def)
  qed
  have y: "(y - 1) * 146097 \<le> (n - 1) * 400" "(n - 1) * 400 < (y - 1) * 146097 + 146097"
    by (auto simp: y_def)
  have "n \<le> days_before_year (y + 2)"
    using dby(2) [of "y + 2"] y(2) by (simp add: algebra_simps)
  moreover have "days_before_year (y - 1) < n"
    using dby(1) [of "y - 1"] y(1) by (simp add: algebra_simps)
  moreover have "ord_year n = (if days_before_year (y + 1) < n then y + 1
      else if days_before_year y < n then y else y - 1)"
    by (simp only: ord_year_def y_def Let_def)
  ultimately show ?thesis by (auto simp: add.commute)
qed

lemma ord_month_spec:
  "k \<le> 12 \<Longrightarrow> 1 \<le> r \<Longrightarrow> r \<le> sum_list (map (days_in_month y) [k..12]) \<Longrightarrow>
   ord_month y [k..12] r = (m, d) \<Longrightarrow>
   k \<le> m \<and> m \<le> 12 \<and> 1 \<le> d \<and> d \<le> days_in_month y m \<and>
   sum_list (map (days_in_month y) [k..m - 1]) + d = r"
proof (induction "nat (12 - k)" arbitrary: k r)
  case 0
  then have "k = 12" by simp
  with 0 show ?case by (auto split: if_splits)
next
  case (Suc i)
  have k: "[k..12] = k # [k + 1..12]" using Suc by (simp add: upto_rec1)
  show ?case
  proof (cases "r \<le> days_in_month y k")
    case True
    with Suc.prems k show ?thesis by auto
  next
    case False
    have "i = nat (12 - (k + 1))" "k + 1 \<le> 12" using Suc by auto
    from Suc.hyps(1) [OF this, of "r - days_in_month y k"] False Suc.prems k
    have *: "k + 1 \<le> m \<and> m \<le> 12 \<and> 1 \<le> d \<and> d \<le> days_in_month y m \<and>
       sum_list (map (days_in_month y) [k + 1..m - 1]) + d = r - days_in_month y k" by auto
    then have "[k..m - 1] = k # [k + 1..m - 1]" by (simp add: upto_rec1)
    with * show ?thesis by simp
  qed
qed

lemma months_12: "sum_list (map (days_in_month y) [1..12]) = (if leap y then 366 else 365)"
proof -
  have "[1..12] = [1, 2, 3, 4, 5, 6, 7, 8, 9, 10, 11, 12 :: int]" by code_simp
  then show ?thesis by (simp add: days_in_month_def)
qed

lemma ord2ymd_spec:
  assumes "ord2ymd n = (y, m, d)"
  shows "ymd2ord y m d = n \<and> 1 \<le> m \<and> m \<le> 12 \<and> 1 \<le> d \<and> d \<le> days_in_month y m \<and> y = ord_year n"
proof -
  let ?r = "n - days_before_year y"
  have y: "y = ord_year n" and om: "ord_month y [1..12] ?r = (m, d)"
    using assms by (auto simp: ord2ymd_def Let_def split: prod.splits)
  have r: "1 \<le> ?r" "?r \<le> sum_list (map (days_in_month y) [1..12])"
    using ord_year_bounds [of n] y days_before_year_Suc [of y] months_12 [of y] by auto
  from ord_month_spec [OF _ r om] y show ?thesis
    by (auto simp: ymd2ord_def days_before_month_def)
qed

lemma days_before_year_mono: "y \<le> z \<Longrightarrow> days_before_year y \<le> days_before_year z"
proof (induction "nat (z - y)" arbitrary: z)
  case (Suc i)
  then have "days_before_year y \<le> days_before_year (z - 1)" by auto
  with days_before_year_Suc [of "z - 1"] show ?case by (auto split: if_splits)
qed simp

lemma ord_year_range:
  assumes "ymd2ord a 1 1 \<le> n" "n < ymd2ord b 1 1"
  shows "a \<le> ord_year n \<and> ord_year n < b"
proof -
  have e: "days_before_year z + 1 = ymd2ord z 1 1" for z by (simp add: ymd2ord_def days_before_month_def)
  show ?thesis
  proof (rule conjI; rule ccontr)
    assume "\<not> a \<le> ord_year n"
    then have "days_before_year (ord_year n + 1) \<le> days_before_year a" by (intro days_before_year_mono) simp
    with ord_year_bounds [of n] assms(1) e [of a] show False by linarith
  next
    assume "\<not> ord_year n < b"
    then have "days_before_year b \<le> days_before_year (ord_year n)" by (intro days_before_year_mono) simp
    with ord_year_bounds [of n] assms(2) e [of b] show False by linarith
  qed
qed

section \<open>Reading back a printed timestamp\<close>

lemma digit_neq:
  "is_digit c \<Longrightarrow> c \<noteq> CHR ''-'' \<and> c \<noteq> CHR ''W'' \<and> c \<noteq> CHR '':'' \<and> c \<noteq> CHR ''.'' \<and> c \<noteq> CHR '',''
     \<and> c \<noteq> CHR ''+'' \<and> c \<noteq> CHR ''Z''"
  by (auto simp: is_digit_def)

lemma tz_char_digit: "is_digit c \<Longrightarrow> \<not> is_tz_char c"
  by (auto simp: is_tz_char_def is_digit_def)

lemma iso_date_ymd:
  assumes "list_all is_digit [y1, y2, y3, y4, m1, m2, d1, d2]"
    and "valid_date (digits_val [y1, y2, y3, y4]) (digits_val [m1, m2]) (digits_val [d1, d2])"
  shows "iso_date [y1, y2, y3, y4, CHR ''-'', m1, m2, CHR ''-'', d1, d2] =
    Some (ymd2ord (digits_val [y1, y2, y3, y4]) (digits_val [m1, m2]) (digits_val [d1, d2]))"
  using assms digit_neq [of m1]
  by (simp add: iso_date_def char_at_def int_digits_def slice_def Let_def numeral_eq_Suc)

lemma iso_hms_full:
  assumes "list_all is_digit [h1, h2, n1, n2, s1, s2, f1, f2, f3]"
  shows "iso_hms 3 False [h1, h2, CHR '':'', n1, n2, CHR '':'', s1, s2, CHR ''.'', f1, f2, f3] =
    Some ([digits_val [h1, h2], digits_val [n1, n2], digits_val [s1, s2]],
          digits_val [f1, f2, f3] * 1000, False)"
  using assms
  by (simp add: numeral_eq_Suc hms_cons_def iso_fraction_def int_digits_def Let_def)

lemma iso_hms_zero: "iso_hms 3 False ''00:00'' = Some ([0, 0], 0, False)"
  by code_simp

lemma iso_time_full:
  assumes "list_all is_digit [h1, h2, n1, n2, s1, s2, f1, f2, f3]"
    and "digits_val [h1, h2] < 24" "digits_val [n1, n2] < 60" "digits_val [s1, s2] < 60"
  shows "iso_time ([h1, h2, CHR '':'', n1, n2, CHR '':'', s1, s2, CHR ''.'', f1, f2, f3] @ ''+00:00'') =
    Some ((digits_val [h1, h2] * 3600 + digits_val [n1, n2] * 60 + digits_val [s1, s2]) * 1000000
          + digits_val [f1, f2, f3] * 1000, Some 0)"
proof -
  let ?t = "[h1, h2, CHR '':'', n1, n2, CHR '':'', s1, s2, CHR ''.'', f1, f2, f3]"
  have tz: "\<not> is_tz_char c" if "c \<in> set ?t" for c
    using that assms(1) tz_char_digit by (auto simp: is_tz_char_def)
  have "is_tz_char (CHR ''+'')" by (simp add: is_tz_char_def)
  then have "takeWhile (\<lambda>c. \<not> is_tz_char c) (?t @ ''+00:00'') = ?t"
    "dropWhile (\<lambda>c. \<not> is_tz_char c) (?t @ ''+00:00'') = ''+00:00''"
    using tz by (subst takeWhile_append2 dropWhile_append2; simp)+
  then show ?thesis
    using assms iso_hms_full [OF assms(1)] iso_hms_zero
    by (simp add: iso_time_def hms_comp_def hms_usec_def)
qed


lemma digit_char_digits: "0 \<le> d \<Longrightarrow> d < 10 \<Longrightarrow> is_digit (digit_char d) \<and> digit_val (digit_char d) = d"
  by (simp add: is_digit_digit_char digit_val_digit_char)

lemma show_int_small: "0 \<le> n \<Longrightarrow> n < 10 \<Longrightarrow> show_int n = [digit_char n]"
  by (simp add: show_int_def show_pos.simps [of n])

lemma show_int_step: "10 \<le> n \<Longrightarrow> show_int n = show_int (n div 10) @ [digit_char (n mod 10)]"
  by (simp add: show_int_def show_pos.simps [of n])

lemma pad2: "0 \<le> n \<Longrightarrow> n < 100 \<Longrightarrow> pad 2 n = [digit_char (n div 10), digit_char (n mod 10)]"
proof (cases "n < 10")
  case True
  assume "0 \<le> n"
  moreover have "digit_char 0 = CHR ''0''" by code_simp
  ultimately show ?thesis using True by (simp add: pad_def show_int_small)
next
  case False
  assume "n < 100"
  then show ?thesis using False by (simp add: pad_def show_int_step show_int_small)
qed

lemma pad3: "0 \<le> n \<Longrightarrow> n < 1000 \<Longrightarrow>
   pad 3 n = [digit_char (n div 100), digit_char (n div 10 mod 10), digit_char (n mod 10)]"
proof -
  assume n: "0 \<le> n" "n < 1000"
  have z: "digit_char 0 = CHR ''0''" by code_simp
  consider "n < 10" | "10 \<le> n" "n < 100" | "100 \<le> n" by linarith
  then show ?thesis
  proof cases
    case 1
    then show ?thesis using n z by (simp add: pad_def show_int_small numeral_eq_Suc)
  next
    case 2
    then show ?thesis using n z by (simp add: pad_def show_int_step show_int_small)
  next
    case 3
    then show ?thesis using n
      by (simp add: pad_def show_int_step [of n] show_int_step [of "n div 10"] show_int_small
          zdiv_zmult2_eq [symmetric])
  qed
qed

lemma show_int4: "1000 \<le> n \<Longrightarrow> n < 10000 \<Longrightarrow>
   show_int n = [digit_char (n div 1000), digit_char (n div 100 mod 10), digit_char (n div 10 mod 10),
     digit_char (n mod 10)]"
  by (simp add: show_int_step [of n] show_int_step [of "n div 10"] show_int_step [of "n div 100"]
      show_int_small zdiv_zmult2_eq [symmetric])

lemma digits2: "0 \<le> n \<Longrightarrow> n < 100 \<Longrightarrow> digits_val [digit_char (n div 10), digit_char (n mod 10)] = n"
  by (simp add: digits_val_def digit_val_digit_char)

lemma div_10_100: "n div 100 = n div 10 div 10" "n div 1000 = n div 10 div 10 div 10" for n :: int
  by (simp_all add: zdiv_zmult2_eq [symmetric])

lemma digits3: "0 \<le> n \<Longrightarrow> n < 1000 \<Longrightarrow>
   digits_val [digit_char (n div 100), digit_char (n div 10 mod 10), digit_char (n mod 10)] = n"
  using div_mult_mod_eq [of n 10] div_mult_mod_eq [of "n div 10" 10]
  by (simp add: digits_val_def digit_val_digit_char div_10_100 del: div_mult_mod_eq)

lemma digits4: "1000 \<le> n \<Longrightarrow> n < 10000 \<Longrightarrow>
   digits_val [digit_char (n div 1000), digit_char (n div 100 mod 10), digit_char (n div 10 mod 10),
     digit_char (n mod 10)] = n"
  using div_mult_mod_eq [of n 10] div_mult_mod_eq [of "n div 10" 10] div_mult_mod_eq [of "n div 100" 10]
  by (simp add: digits_val_def digit_val_digit_char div_10_100 del: div_mult_mod_eq)


lemma fromisoformat_full:
  assumes dig: "list_all is_digit [y1, y2, y3, y4, m1, m2, d1, d2]"
    "list_all is_digit [h1, h2, n1, n2, s1, s2, f1, f2, f3]"
    and date: "valid_date (digits_val [y1, y2, y3, y4]) (digits_val [m1, m2]) (digits_val [d1, d2])"
    and time: "digits_val [h1, h2] < 24" "digits_val [n1, n2] < 60" "digits_val [s1, s2] < 60"
  shows "fromisoformat ([y1, y2, y3, y4, CHR ''-'', m1, m2, CHR ''-'', d1, d2, CHR ''T'']
       @ [h1, h2, CHR '':'', n1, n2, CHR '':'', s1, s2, CHR ''.'', f1, f2, f3] @ ''+00:00'') =
     Some (DT True (usec_of (digits_val [y1, y2, y3, y4]) (digits_val [m1, m2]) (digits_val [d1, d2])
        (digits_val [h1, h2]) (digits_val [n1, n2]) (digits_val [s1, s2]) (digits_val [f1, f2, f3] * 1000)))"
proof -
  let ?d = "[y1, y2, y3, y4, CHR ''-'', m1, m2, CHR ''-'', d1, d2]"
  let ?t = "[h1, h2, CHR '':'', n1, n2, CHR '':'', s1, s2, CHR ''.'', f1, f2, f3] @ ''+00:00''"
  have "m1 \<noteq> CHR ''W''" using dig digit_neq by simp
  then have "iso_separator (?d @ CHR ''T'' # ?t) = length ?d"
    by (simp add: iso_separator_def char_at_def)
  moreover have "?d @ CHR ''T'' # ?t = (?d @ [CHR ''T'']) @ ?t" by simp
  moreover have "drop (length ?d + 1) ((?d @ [CHR ''T'']) @ ?t) = ?t"
    by (subst drop_append) simp
  moreover have "take (length ?d) (?d @ CHR ''T'' # ?t) = ?d" by (subst take_append) simp
  moreover have "\<not> length (?d @ CHR ''T'' # ?t) < 7" "\<not> length (?d @ CHR ''T'' # ?t) \<le> length ?d"
    by (simp_all only: length_append) simp_all
  ultimately have "fromisoformat (?d @ CHR ''T'' # ?t) = Some (DT True (usec_of (digits_val [y1, y2, y3, y4])
     (digits_val [m1, m2]) (digits_val [d1, d2]) (digits_val [h1, h2]) (digits_val [n1, n2])
     (digits_val [s1, s2]) (digits_val [f1, f2, f3] * 1000)))"
    using iso_date_ymd [OF dig(1) date] iso_time_full [OF dig(2) time]
    by (simp only: fromisoformat_def Let_def if_False option.case prod.case)
       (simp add: usec_of_def algebra_simps)
  then show ?thesis by simp
qed

lemma usec_day_bounds:
  fixes us :: int
  shows "A * 86400 * 1000000 \<le> us \<Longrightarrow> A \<le> us div 1000000 div 86400"
    "us < A * 86400 * 1000000 \<Longrightarrow> us div 1000000 div 86400 < A"
proof -
  have e: "us div 1000000 div 86400 = us div 86400000000" by (simp add: zdiv_zmult2_eq [symmetric])
  show "A * 86400 * 1000000 \<le> us \<Longrightarrow> A \<le> us div 1000000 div 86400"
    unfolding e by linarith
  show "us < A * 86400 * 1000000 \<Longrightarrow> us div 1000000 div 86400 < A"
    unfolding e by linarith
qed

text \<open>Seconds of the day, split the way they are printed.\<close>

lemma sod_split:
  fixes sod :: int
  assumes "0 \<le> sod" "sod < 86400"
  shows "sod div 3600 * 3600 + sod div 60 mod 60 * 60 + sod mod 60 = sod"
    "0 \<le> sod div 3600" "sod div 3600 < 24"
proof -
  have "sod div 3600 = sod div 60 div 60" by (simp add: zdiv_zmult2_eq [symmetric])
  then show "sod div 3600 * 3600 + sod div 60 mod 60 * 60 + sod mod 60 = sod"
    using div_mult_mod_eq [of "sod div 60" 60] div_mult_mod_eq [of sod 60] by linarith
  show "0 \<le> sod div 3600" "sod div 3600 < 24" using assms by linarith+
qed

lemma strftime_ms_shape:
  assumes "four_digit_year us"
  obtains y m d where "ord2ymd (us div 1000000 div 86400 + epoch_ord) = (y, m, d)"
    "1000 \<le> y" "valid_date y m d" "ymd2ord y m d = us div 1000000 div 86400 + epoch_ord"
proof -
  let ?n = "us div 1000000 div 86400 + epoch_ord"
  have a: "usec_of 1000 1 1 0 0 0 0 = (days_before_year 1000 + 1 - epoch_ord) * 86400 * 1000000"
    and b: "usec_of 10000 1 1 0 0 0 0 = (days_before_year 10000 + 1 - epoch_ord) * 86400 * 1000000"
    by (simp_all add: usec_of_def ymd2ord_def days_before_month_def)
  have "days_before_year 1000 < ?n" "?n \<le> days_before_year 10000"
    using assms usec_day_bounds [of "days_before_year 1000 + 1 - epoch_ord" us]
      usec_day_bounds(2) [of us "days_before_year 10000 + 1 - epoch_ord"]
    unfolding four_digit_year_def a b by linarith+
  then have y: "1000 \<le> ord_year ?n" "ord_year ?n < 10000"
    using ord_year_range [of 1000 ?n 10000] by (simp_all add: ymd2ord_def days_before_month_def)
  obtain y m d where o: "ord2ymd ?n = (y, m, d)" by (cases "ord2ymd ?n") auto
  from o y ord2ymd_spec [OF o] show ?thesis by (intro that [of y m d]) (auto simp: valid_date_def)
qed

lemma usec_sum:
  fixes c :: int
  assumes "h + mi + s = sod" "D + sod = q" "r = m - t" "t = u" "q * c + m = us"
  shows "(D + h + mi + s) * c + r = us - u"
  using assms by (simp add: algebra_simps flip: assms(1,2))

lemma usec_split:
  fixes us :: int
  defines "sod \<equiv> us div 1000000 mod 86400"
  shows "((us div 1000000 div 86400) * 86400 + sod div 3600 * 3600 + sod div 60 mod 60 * 60 + sod mod 60)
      * 1000000 + us mod 1000000 div 1000 * 1000 = trunc_ms us"
proof -
  have "sod div 3600 * 3600 + sod div 60 mod 60 * 60 + sod mod 60 = sod"
    by (rule sod_split) (simp_all add: sod_def)
  moreover have "us div 1000000 div 86400 * 86400 + sod = us div 1000000"
    unfolding sod_def by (rule div_mult_mod_eq)
  moreover have "us mod 1000000 div 1000 * 1000 = us mod 1000000 - us mod 1000000 mod 1000"
    by (simp add: minus_mod_eq_div_mult)
  moreover have "us mod 1000000 mod 1000 = us mod 1000" by (simp add: mod_mod_cancel)
  moreover have "us div 1000000 * 1000000 + us mod 1000000 = us" by (rule div_mult_mod_eq)
  ultimately show ?thesis unfolding trunc_ms_def by (rule usec_sum)
qed

lemma fromisoformat_strftime:
  assumes "four_digit_year us"
  shows "fromisoformat (butlast (strftime_ms us) @ ''+00:00'') = Some (DT True (trunc_ms us))"
proof -
  obtain y m d where o: "ord2ymd (us div 1000000 div 86400 + epoch_ord) = (y, m, d)" "1000 \<le> y"
    and v: "valid_date y m d" and n: "ymd2ord y m d = us div 1000000 div 86400 + epoch_ord"
    using strftime_ms_shape [OF assms] .
  define sod where "sod = us div 1000000 mod 86400"
  define ms where "ms = us mod 1000000 div 1000"
  have sod: "0 \<le> sod" "sod < 86400" by (simp_all add: sod_def)
  have "0 \<le> us mod 1000000" "us mod 1000000 < 1000000" by simp_all
  then have ms: "0 \<le> ms" "ms < 1000" unfolding ms_def by linarith+
  have yb: "1000 \<le> y" "y < 10000" and mb: "0 \<le> m" "m < 100" and db: "0 \<le> d" "d < 100"
    using v o(2) by (auto simp: valid_date_def days_in_month_def split: if_splits)
  define h where "h = sod div 3600"
  define mi where "mi = sod div 60 mod 60"
  define s where "s = sod mod 60"
  have h: "0 \<le> h" "h < 24" using sod_split [OF sod] by (auto simp: h_def)
  have mi: "0 \<le> mi" "mi < 60" and s: "0 \<le> s" "s < 60" by (simp_all add: mi_def s_def)
  have h100: "h < 100" and m100: "mi < 100" and s100: "s < 100" using h mi s by linarith+
  have pads: "pad 2 m = [digit_char (m div 10), digit_char (m mod 10)]"
    "pad 2 d = [digit_char (d div 10), digit_char (d mod 10)]"
    "pad 2 h = [digit_char (h div 10), digit_char (h mod 10)]"
    "pad 2 mi = [digit_char (mi div 10), digit_char (mi mod 10)]"
    "pad 2 s = [digit_char (s div 10), digit_char (s mod 10)]"
    using mb db h mi s by (intro pad2; linarith)+
  have vals: "digits_val [digit_char (m div 10), digit_char (m mod 10)] = m"
    "digits_val [digit_char (d div 10), digit_char (d mod 10)] = d"
    "digits_val [digit_char (h div 10), digit_char (h mod 10)] = h"
    "digits_val [digit_char (mi div 10), digit_char (mi mod 10)] = mi"
    "digits_val [digit_char (s div 10), digit_char (s mod 10)] = s"
    using mb db h mi s by (intro digits2; linarith)+
  have digs: "is_digit (digit_char (n div 10))" "is_digit (digit_char (n mod 10))" if "0 \<le> n" "n < 100" for n
    using that digit_char_digits [of "n div 10"] digit_char_digits [of "n mod 10"] by auto
  have "strftime_ms us = show_int y @ ''-'' @ pad 2 m @ ''-'' @ pad 2 d @ ''T'' @ pad 2 h @ '':''
        @ pad 2 mi @ '':'' @ pad 2 s @ ''.'' @ pad 3 ms @ ''Z''"
    by (simp add: strftime_ms_def Let_def o(1) h_def mi_def s_def sod_def ms_def)
  note str = this [unfolded pads show_int4 [OF yb] pad3 [OF ms]]
  have dy: "is_digit (digit_char (y div 1000))" "is_digit (digit_char (y div 100 mod 10))"
     "is_digit (digit_char (y div 10 mod 10))" "is_digit (digit_char (y mod 10))"
    using yb digit_char_digits by auto
  have dms: "is_digit (digit_char (ms div 100))" "is_digit (digit_char (ms div 10 mod 10))" "is_digit (digit_char (ms mod 10))"
    using ms digit_char_digits by auto
  have "fromisoformat (butlast (strftime_ms us) @ ''+00:00'') =
     fromisoformat ([digit_char (y div 1000), digit_char (y div 100 mod 10), digit_char (y div 10 mod 10),
         digit_char (y mod 10), CHR ''-'', digit_char (m div 10), digit_char (m mod 10), CHR ''-'',
         digit_char (d div 10), digit_char (d mod 10), CHR ''T'']
       @ [digit_char (h div 10), digit_char (h mod 10), CHR '':'', digit_char (mi div 10), digit_char (mi mod 10),
          CHR '':'', digit_char (s div 10), digit_char (s mod 10), CHR ''.'',
          digit_char (ms div 100), digit_char (ms div 10 mod 10), digit_char (ms mod 10)] @ ''+00:00'')"
    unfolding str by (simp only: append.simps butlast.simps list.distinct if_False if_True simp_thms)
  also have "\<dots> = Some (DT True (usec_of y m d h mi s (ms * 1000)))"
    by (subst fromisoformat_full)
       (simp_all only: vals digits3 [OF ms] digits4 [OF yb] list.pred_inject dy dms v h mi s
         digs [OF mb] digs [OF db] digs [OF mi(1) m100] digs [OF s(1) s100] digs [OF h(1) h100] simp_thms)
  also have "usec_of y m d h mi s (ms * 1000) = trunc_ms us"
    using usec_split [of us] unfolding usec_of_def n h_def mi_def s_def sod_def ms_def by simp
  finally show ?thesis .
qed

lemma strftime_ms_last: "last (strftime_ms us) = CHR ''Z''" "strftime_ms us \<noteq> []"
  by (simp_all add: strftime_ms_def Let_def split: prod.splits)

lemma strftime_ms_strip:
  assumes "four_digit_year us"
  shows "strip (strftime_ms us) = strftime_ms us"
proof -
  obtain y m d where o: "ord2ymd (us div 1000000 div 86400 + epoch_ord) = (y, m, d)" "1000 \<le> y"
    and v: "valid_date y m d" using strftime_ms_shape [OF assms] by metis
  then have "show_int y = [digit_char (y div 1000), digit_char (y div 100 mod 10), digit_char (y div 10 mod 10),
     digit_char (y mod 10)]" by (intro show_int4) (auto simp: valid_date_def)
  moreover have "is_digit (digit_char (y div 1000))"
    using o(2) v digit_char_digits [of "y div 1000"] by (auto simp: valid_date_def)
  ultimately have "strftime_ms us \<noteq> []" "\<not> is_space (hd (strftime_ms us))"
    by (simp_all add: strftime_ms_def Let_def o(1) digit_not_space)
  moreover have "\<not> is_space (last (strftime_ms us))"
    by (simp add: strftime_ms_last is_space_def)
  ultimately show ?thesis by (intro strip_id) auto
qed

end
