(* ===== verification/PyValue.thy ===== *)
theory PyValue
  imports PyTime
begin

text \<open>
  The values a cell of a log table holds at run time: a float, a text or a datetime. The annotation
  of the code, \<^verbatim>\<open>IndexValue = float | datetime\<close>, is not enforced on the cells of a row, and an
  unreadable index cell of a depth log stays a text, so that every operation on indices is
  defined on the three kinds. Comparing two kinds, or a naive and an aware datetime, raises
  TypeError. Sorting raises it exactly when two keys are not comparable, since a comparison sort
  that never compares elements of two classes cannot order them; where a key is not a number the
  order Python's sort produces depends on its implementation and the model puts those keys last.
\<close>

datatype pyval = VFloat pyfloat | VStr string | VDt datetime

type_synonym cell = "pyval option"

fun val_kind :: "pyval \<Rightarrow> nat" where
  "val_kind (VFloat x) = 0"
| "val_kind (VStr s) = 1"
| "val_kind (VDt d) = (if dt_aware d then 2 else 3)"

text \<open>The comparison \<^verbatim>\<open>a < b\<close>; \<^verbatim>\<open>a > b\<close> is \<^verbatim>\<open>b < a\<close> on all three kinds.\<close>

fun val_lt :: "pyval \<Rightarrow> pyval \<Rightarrow> bool res" where
  "val_lt (VFloat a) (VFloat b) = Inr (fl_lt a b)"
| "val_lt (VStr a) (VStr b) = Inr (a < b)"
| "val_lt (VDt a) (VDt b) = (if dt_aware a = dt_aware b then Inr (dt_us a < dt_us b) else Inl TypeError)"
| "val_lt _ _ = Inl TypeError"

text \<open>The test \<^verbatim>\<open>a == b\<close>, which never raises.\<close>

fun val_eq :: "pyval \<Rightarrow> pyval \<Rightarrow> bool" where
  "val_eq (VFloat a) (VFloat b) = fl_eq a b"
| "val_eq a b = (a = b)"

definition is_nan :: "pyval \<Rightarrow> bool" where
  "is_nan v = (v = VFloat NaN)"

section \<open>A linear order that agrees with the comparison\<close>

fun val_float :: "pyval \<Rightarrow> pyfloat" where
  "val_float (VFloat x) = x"
| "val_float _ = NaN"

fun val_str :: "pyval \<Rightarrow> string" where
  "val_str (VStr s) = s"
| "val_str _ = []"

fun val_dt :: "pyval \<Rightarrow> datetime" where
  "val_dt (VDt d) = d"
| "val_dt _ = DT False 0"

instantiation pyval :: linorder
begin

definition less_eq_pyval :: "pyval \<Rightarrow> pyval \<Rightarrow> bool" where
  "less_eq_pyval a b = (val_kind a < val_kind b \<or> (val_kind a = val_kind b \<and>
     val_float a \<le> val_float b \<and> val_str a \<le> val_str b \<and> val_dt a \<le> val_dt b))"

definition less_pyval :: "pyval \<Rightarrow> pyval \<Rightarrow> bool" where
  "less_pyval a b = (a \<le> b \<and> \<not> b \<le> (a :: pyval))"

instance
proof
  fix x y z :: pyval
  show "(x < y) = (x \<le> y \<and> \<not> y \<le> x)" by (simp add: less_pyval_def)
  show "x \<le> x" by (simp add: less_eq_pyval_def)
  show "x \<le> y \<Longrightarrow> y \<le> z \<Longrightarrow> x \<le> z"
    by (auto simp: less_eq_pyval_def)
  show "x \<le> y \<Longrightarrow> y \<le> x \<Longrightarrow> x = y"
    by (cases x; cases y) (auto simp: less_eq_pyval_def split: if_splits)
  show "x \<le> y \<or> y \<le> x"
    by (cases x; cases y) (auto simp: less_eq_pyval_def)
qed

end

lemma val_lt_less:
  "val_kind a = val_kind b \<Longrightarrow> \<not> is_nan a \<Longrightarrow> \<not> is_nan b \<Longrightarrow> val_lt a b = Inr (a < b)"
  by (cases a; cases b)
     (auto simp: less_pyval_def less_eq_pyval_def is_nan_def fl_lt_less less_eq_datetime_def split: if_splits)

lemma val_lt_TypeError: "val_kind a \<noteq> val_kind b \<longleftrightarrow> val_lt a b = Inl TypeError"
  by (cases a; cases b) (auto split: if_splits)

lemma val_lt_Inr_kind: "val_lt a b = Inr r \<Longrightarrow> val_kind a = val_kind b"
  by (metis val_lt_TypeError Inl_Inr_False)

lemma val_lt_Inl: "val_lt a b = Inl e \<Longrightarrow> e = TypeError"
  by (cases a; cases b) (auto split: if_splits)

lemma val_eq_iff: "\<not> is_nan a \<Longrightarrow> val_eq a b = (a = b)"
  by (cases a; cases b) (auto simp: is_nan_def fl_eq_def)

lemma val_eq_iff2: "\<not> is_nan b \<Longrightarrow> val_eq a b = (a = b)"
  by (cases a; cases b) (auto simp: is_nan_def fl_eq_def)

lemma val_eq_sym: "val_eq a b = val_eq b a"
  by (cases a; cases b) (auto simp: fl_eq_def)

section \<open>sorted, max and min\<close>

definition comparable :: "pyval list \<Rightarrow> bool" where
  "comparable vs = list_all (\<lambda>v. val_kind v = val_kind (hd vs)) vs"

text \<open>\<^verbatim>\<open>sorted(xs, key=f)\<close>.\<close>

definition val_sort :: "('a \<Rightarrow> pyval) \<Rightarrow> 'a list \<Rightarrow> 'a list res" where
  "val_sort f xs = (if comparable (map f xs) then Inr (sort_key f xs) else Inl TypeError)"

text \<open>\<^verbatim>\<open>max(vs)\<close> and \<^verbatim>\<open>min(vs)\<close> from the first element on.\<close>

fun val_max :: "pyval \<Rightarrow> pyval list \<Rightarrow> pyval res" where
  "val_max m [] = Inr m"
| "val_max m (v # vs) = rbind (val_lt m v) (\<lambda>b. val_max (if b then v else m) vs)"

fun val_min :: "pyval \<Rightarrow> pyval list \<Rightarrow> pyval res" where
  "val_min m [] = Inr m"
| "val_min m (v # vs) = rbind (val_lt v m) (\<lambda>b. val_min (if b then v else m) vs)"

lemma comparable_Nil [simp]: "comparable []"
  by (simp add: comparable_def)

lemma comparable_iff: "comparable vs \<longleftrightarrow> (\<forall>v \<in> set vs. \<forall>w \<in> set vs. val_kind v = val_kind w)"
  by (cases vs) (auto simp: comparable_def list_all_iff)

lemma val_max_spec:
  assumes "\<forall>v \<in> set (m # vs). val_kind v = k \<and> \<not> is_nan v"
  shows "val_max m vs = Inr (Max (set (m # vs)))"
  using assms
proof (induction vs arbitrary: m)
  case (Cons v vs)
  then have "val_lt m v = Inr (m < v)" by (intro val_lt_less) simp_all
  then have "val_max m (v # vs) = val_max (max m v) vs"
    by (cases "m < v") (simp_all add: max_absorb1 max_absorb2)
  also have "\<dots> = Inr (Max (set (max m v # vs)))"
    by (rule Cons.IH) (use Cons.prems in \<open>simp add: max_def\<close>)
  also have "Max (set (max m v # vs)) = Max (set (m # v # vs))"
    by (cases "vs = []") (simp_all add: max.assoc)
  finally show ?case .
qed simp

lemma val_min_spec:
  assumes "\<forall>v \<in> set (m # vs). val_kind v = k \<and> \<not> is_nan v"
  shows "val_min m vs = Inr (Min (set (m # vs)))"
  using assms
proof (induction vs arbitrary: m)
  case (Cons v vs)
  then have "val_lt v m = Inr (v < m)" by (intro val_lt_less) simp_all
  then have "val_min m (v # vs) = val_min (min m v) vs"
    by (cases "v < m") (simp_all add: min_absorb1 min_absorb2)
  also have "\<dots> = Inr (Min (set (min m v # vs)))"
    by (rule Cons.IH) (use Cons.prems in \<open>simp add: min_def\<close>)
  also have "Min (set (min m v # vs)) = Min (set (m # v # vs))"
    by (cases "vs = []") (simp_all add: min.assoc)
  finally show ?case .
qed simp

section \<open>Dictionaries keyed by index values\<close>

text \<open>
  \<^verbatim>\<open>d[k] = v\<close>: the value of an equal key is replaced and the old key kept; a key that is not
  equal to itself (not a number) is always new.
\<close>

fun dput :: "pyval \<Rightarrow> 'v \<Rightarrow> (pyval \<times> 'v) list \<Rightarrow> (pyval \<times> 'v) list" where
  "dput k v [] = [(k, v)]"
| "dput k v (p # ps) = (if val_eq (fst p) k then (fst p, v) # ps else p # dput k v ps)"

fun dget :: "pyval \<Rightarrow> (pyval \<times> 'v) list \<Rightarrow> 'v option" where
  "dget k [] = None"
| "dget k (p # ps) = (if val_eq (fst p) k then Some (snd p) else dget k ps)"

lemma dput_update: "\<not> is_nan k \<Longrightarrow> dput k v d = AList.update k v d"
  by (induction d) (auto simp: val_eq_iff2)

lemma dget_map_of: "\<not> is_nan k \<Longrightarrow> dget k d = map_of d k"
  by (induction d) (auto simp: val_eq_iff2)

lemma set_keys_dput: "fst ` set (dput k v d) \<subseteq> insert k (fst ` set d)"
  by (induction d) auto

end
