(* ===== verification/Constants.thy ===== *)
theory Constants
  imports PyValue
begin

text \<open>
  \<^verbatim>\<open>backend/app/witsml/constants.py\<close>: the protocol constants, the enumerations, the OptionsIn
  builder and the classification of return codes.
\<close>

definition WITSML_VERSION :: string where "WITSML_VERSION = ''1.4.1.1''"
definition NS_DATA :: string where "NS_DATA = ''http://www.witsml.org/schemas/1series''"
definition NS_API :: string where "NS_API = ''http://www.witsml.org/api/141''"

section \<open>Enumerations\<close>

datatype ReturnElements = RE_ALL | ID_ONLY | HEADER_ONLY | DATA_ONLY | STATION_LOCATION_ONLY
  | LATEST_CHANGE_ONLY | REQUESTED

fun re_value :: "ReturnElements \<Rightarrow> string" where
  "re_value RE_ALL = ''all''"
| "re_value ID_ONLY = ''id-only''"
| "re_value HEADER_ONLY = ''header-only''"
| "re_value DATA_ONLY = ''data-only''"
| "re_value STATION_LOCATION_ONLY = ''station-location-only''"
| "re_value LATEST_CHANGE_ONLY = ''latest-change-only''"
| "re_value REQUESTED = ''requested''"

datatype IntervalRangeInclusion = MINIMUM_POINT | WHOLE_INTERVAL | ANY_PART

fun iri_value :: "IntervalRangeInclusion \<Rightarrow> string" where
  "iri_value MINIMUM_POINT = ''minimum-point''"
| "iri_value WHOLE_INTERVAL = ''whole-interval''"
| "iri_value ANY_PART = ''any-part''"

datatype IndexType = DATE_TIME | ELAPSED_TIME | MEASURED_DEPTH | VERTICAL_DEPTH | OTHER

fun it_value :: "IndexType \<Rightarrow> string" where
  "it_value DATE_TIME = ''date time''"
| "it_value ELAPSED_TIME = ''elapsed time''"
| "it_value MEASURED_DEPTH = ''measured depth''"
| "it_value VERTICAL_DEPTH = ''vertical depth''"
| "it_value OTHER = ''other''"

definition index_types :: "IndexType list" where
  "index_types = [DATE_TIME, ELAPSED_TIME, MEASURED_DEPTH, VERTICAL_DEPTH, OTHER]"

fun is_time :: "IndexType \<Rightarrow> bool" where
  "is_time t = (t = DATE_TIME \<or> t = ELAPSED_TIME)"

fun is_depth :: "IndexType \<Rightarrow> bool" where
  "is_depth t = (t = MEASURED_DEPTH \<or> t = VERTICAL_DEPTH)"

datatype Direction = INCREASING | DECREASING

fun dir_value :: "Direction \<Rightarrow> string" where
  "dir_value INCREASING = ''increasing''"
| "dir_value DECREASING = ''decreasing''"

section \<open>OptionsIn\<close>

text \<open>What the callers pass as an option value; an enumeration is passed by its value.\<close>

datatype opt_value = OvNone | OvStr string | OvInt int | OvBool bool

definition OPT_RETURN_ELEMENTS :: string where "OPT_RETURN_ELEMENTS = ''returnElements''"
definition OPT_MAX_RETURN_NODES :: string where "OPT_MAX_RETURN_NODES = ''maxReturnNodes''"
definition OPT_REQUEST_LATEST_VALUES :: string where "OPT_REQUEST_LATEST_VALUES = ''requestLatestValues''"
definition OPT_INTERVAL_RANGE_INCLUSION :: string where
  "OPT_INTERVAL_RANGE_INCLUSION = ''intervalRangeInclusion''"
definition OPT_DATA_VERSION :: string where "OPT_DATA_VERSION = ''dataVersion''"

lemmas opt_names = OPT_RETURN_ELEMENTS_def OPT_MAX_RETURN_NODES_def OPT_REQUEST_LATEST_VALUES_def
  OPT_INTERVAL_RANGE_INCLUSION_def OPT_DATA_VERSION_def

fun opt_text :: "opt_value \<Rightarrow> string option" where
  "opt_text OvNone = None"
| "opt_text (OvStr s) = Some s"
| "opt_text (OvInt i) = Some (show_int i)"
| "opt_text (OvBool b) = Some (if b then ''true'' else ''false'')"

definition options_in :: "(string \<times> opt_value) list \<Rightarrow> string" where
  "options_in kwargs = join '';'' (concat (map (\<lambda>(k, v).
     case opt_text v of None \<Rightarrow> [] | Some t \<Rightarrow> [k @ ''='' @ t]) kwargs))"

section \<open>Return codes\<close>

definition RC_PARTIAL_SUCCESS :: int where "RC_PARTIAL_SUCCESS = 2"

definition is_success :: "int option \<Rightarrow> bool" where
  "is_success r = (case r of None \<Rightarrow> False | Some n \<Rightarrow> 0 < n)"

definition is_truncated :: "int option \<Rightarrow> bool" where
  "is_truncated r = (r = Some RC_PARTIAL_SUCCESS)"

definition is_error :: "int option \<Rightarrow> bool" where
  "is_error r = (case r of None \<Rightarrow> True | Some n \<Rightarrow> n \<le> 0)"

lemma is_error_iff: "is_error r \<longleftrightarrow> \<not> is_success r"
  by (auto simp: is_error_def is_success_def split: option.splits)

section \<open>Null sentinels\<close>

definition DEFAULT_NULL_VALUE :: string where "DEFAULT_NULL_VALUE = ''-999.25''"

definition COMMON_NULL_SENTINELS :: "string list" where
  "COMMON_NULL_SENTINELS = [''-999.25'', ''-9999'', ''-999'', ''NaN'', ''null'', '''']"

end
