(* ===== verification/Domain.thy ===== *)
theory Domain
  imports Constants
begin

text \<open>
  \<^verbatim>\<open>backend/app/domain/models.py\<close>: the shapes that flow between the layers, one record per model
  class, and the flattening of a block of rows into per-curve samples. Field names carry a prefix
  because record selectors share one name space.
\<close>

record wellbore =
  wb_uid :: string
  wb_uid_well :: string
  wb_name :: "string option"
  wb_name_well :: "string option"
  wb_status :: "string option"
  wb_parent_uid :: "string option"

record well =
  w_uid :: string
  w_name :: "string option"
  w_region :: "string option"
  w_field :: "string option"
  w_country :: "string option"
  w_operator :: "string option"
  w_status :: "string option"
  w_time_zone :: "string option"
  w_wellbores :: "wellbore list"

record log_curve_info =
  lci_uid :: "string option"
  lci_mnemonic :: string
  lci_unit :: "string option"
  lci_curve_description :: "string option"
  lci_null_value :: "string option"
  lci_type_log_data :: "string option"
  lci_min_index :: "pyfloat option"
  lci_max_index :: "pyfloat option"
  lci_min_datetime_index :: "datetime option"
  lci_max_datetime_index :: "datetime option"

record log_header =
  lh_uid :: string
  lh_uid_well :: string
  lh_uid_wellbore :: string
  lh_name :: "string option"
  lh_name_well :: "string option"
  lh_name_wellbore :: "string option"
  lh_index_type :: IndexType
  lh_index_curve :: "string option"
  lh_direction :: Direction
  lh_object_growing :: "bool option"
  lh_null_value :: "string option"
  lh_index_uom :: "string option"
  lh_start_index :: "pyfloat option"
  lh_end_index :: "pyfloat option"
  lh_start_datetime_index :: "datetime option"
  lh_end_datetime_index :: "datetime option"
  lh_curves :: "log_curve_info list"

definition lh_mnemonics :: "log_header \<Rightarrow> string list" where
  "lh_mnemonics h = map lci_mnemonic (lh_curves h)"

definition lh_curve :: "log_header \<Rightarrow> string \<Rightarrow> log_curve_info option" where
  "lh_curve h m = find_first (\<lambda>c. lci_mnemonic c = m) (lh_curves h)"

record lithology =
  lith_uid :: "string option"
  lith_type :: "string option"
  lith_code_lith :: "string option"
  lith_lith_pc :: "pyfloat option"
  lith_description :: "string option"
  lith_color :: "string option"

record geology_interval =
  gi_uid :: "string option"
  gi_type_lithology :: "string option"
  gi_md_top :: "pyfloat option"
  gi_md_bottom :: "pyfloat option"
  gi_md_uom :: "string option"
  gi_lithologies :: "lithology list"
  gi_description :: "string option"

record mud_log =
  ml_uid :: string
  ml_uid_well :: string
  ml_uid_wellbore :: string
  ml_name :: "string option"
  ml_name_well :: "string option"
  ml_name_wellbore :: "string option"
  ml_object_growing :: "bool option"
  ml_geology_intervals :: "geology_interval list"

section \<open>Log data\<close>

type_synonym row = "cell list"

record curve_sample =
  cs_mnemonic :: string
  cs_index :: pyval
  cs_value :: "pyfloat option"
  cs_text :: "string option"
  cs_uom :: "string option"

record log_data_block =
  b_mnemonics :: "string list"
  b_units :: "string option list"
  b_index_type :: IndexType
  b_rows :: "row list"

text \<open>\<^verbatim>\<open>row[0]\<close>, and \<^verbatim>\<open>self.mnemonics[0]\<close>.\<close>

fun row_index :: "row \<Rightarrow> cell res" where
  "row_index [] = Inl IndexError"
| "row_index (c # cs) = Inr c"

fun index_mnemonic :: "log_data_block \<Rightarrow> string res" where
  "index_mnemonic b = (case b_mnemonics b of [] \<Rightarrow> Inl IndexError | m # ms \<Rightarrow> Inr m)"

text \<open>
  Building a \<^verbatim>\<open>CurveSample\<close>. Pydantic validates \<^verbatim>\<open>index\<close> against \<^verbatim>\<open>float | datetime\<close>: a float or a
  datetime is kept; a text goes through pydantic's own coercion, the parameter \<open>pyd\<close>, and raises
  ValidationError where that fails. The value is \<^verbatim>\<open>float(val)\<close>, which raises on a datetime.
\<close>

definition validate_index :: "(string \<Rightarrow> pyval option) \<Rightarrow> pyval \<Rightarrow> pyval res" where
  "validate_index pyd v = (case v of
      VStr s \<Rightarrow> (case pyd s of None \<Rightarrow> Inl ValidationError | Some w \<Rightarrow> Inr w)
    | _ \<Rightarrow> Inr v)"

definition make_sample :: "(string \<Rightarrow> pyval option) \<Rightarrow> string \<Rightarrow> pyval \<Rightarrow> string option \<Rightarrow> pyval \<Rightarrow> curve_sample res" where
  "make_sample pyd mnem idx uom val =
     rbind (validate_index pyd idx) (\<lambda>i.
       (case val of
          VStr t \<Rightarrow> Inr \<lparr>cs_mnemonic = mnem, cs_index = i, cs_value = None, cs_text = Some t, cs_uom = uom\<rparr>
        | VFloat x \<Rightarrow> Inr \<lparr>cs_mnemonic = mnem, cs_index = i, cs_value = Some x, cs_text = None, cs_uom = uom\<rparr>
        | VDt d \<Rightarrow> Inl TypeError))"

text \<open>The inner loop of \<^verbatim>\<open>samples()\<close> over the columns from \<open>col\<close> on.\<close>

fun row_samples :: "(string \<Rightarrow> pyval option) \<Rightarrow> string option list \<Rightarrow> row \<Rightarrow> pyval \<Rightarrow> nat \<Rightarrow> string list
    \<Rightarrow> curve_sample list res" where
  "row_samples pyd us row idx col [] = Inr []"
| "row_samples pyd us row idx col (mnem # mnems) =
     (case (if col < length row then row ! col else None) of
        None \<Rightarrow> row_samples pyd us row idx (col + 1) mnems
      | Some val \<Rightarrow>
          rbind (make_sample pyd mnem idx (if col < length us then us ! col else None) val) (\<lambda>s.
          rbind (row_samples pyd us row idx (col + 1) mnems) (\<lambda>ss. Inr (s # ss))))"

fun samples_rows :: "(string \<Rightarrow> pyval option) \<Rightarrow> string list \<Rightarrow> string option list \<Rightarrow> row list \<Rightarrow> curve_sample list res" where
  "samples_rows pyd ms us [] = Inr []"
| "samples_rows pyd ms us (row # rows) =
     rbind (row_index row) (\<lambda>i. case i of
        None \<Rightarrow> samples_rows pyd ms us rows
      | Some idx \<Rightarrow>
          rbind (row_samples pyd us row idx 1 (drop 1 ms)) (\<lambda>ss.
          rbind (samples_rows pyd ms us rows) (\<lambda>ts. Inr (ss @ ts))))"

definition samples :: "(string \<Rightarrow> pyval option) \<Rightarrow> log_data_block \<Rightarrow> curve_sample list res" where
  "samples pyd b = samples_rows pyd (b_mnemonics b) (b_units b) (b_rows b)"

section \<open>What a sample carries\<close>

text \<open>A row is numeric when it has an index that is a float or an aware datetime, and no datetime cell.\<close>

definition plain_index :: "pyval \<Rightarrow> bool" where
  "plain_index v = (case v of VStr s \<Rightarrow> False | _ \<Rightarrow> True)"

definition plain_row :: "row \<Rightarrow> bool" where
  "plain_row r = (case r of [] \<Rightarrow> False
     | c # cs \<Rightarrow> (case c of None \<Rightarrow> True | Some v \<Rightarrow> plain_index v) \<and>
        list_all (\<lambda>c. case c of Some (VDt d) \<Rightarrow> False | _ \<Rightarrow> True) cs)"

text \<open>The cell at a column, \<^const>\<open>None\<close> beyond the end of a short row.\<close>

definition cell_at :: "row \<Rightarrow> nat \<Rightarrow> cell" where
  "cell_at r i = (if i < length r then r ! i else None)"

definition unit_at :: "string option list \<Rightarrow> nat \<Rightarrow> string option" where
  "unit_at us i = (if i < length us then us ! i else None)"

definition sample_of :: "string \<Rightarrow> pyval \<Rightarrow> string option \<Rightarrow> pyval \<Rightarrow> curve_sample" where
  "sample_of mnem idx uom val = \<lparr>cs_mnemonic = mnem, cs_index = idx,
     cs_value = (case val of VFloat x \<Rightarrow> Some x | _ \<Rightarrow> None),
     cs_text = (case val of VStr t \<Rightarrow> Some t | _ \<Rightarrow> None), cs_uom = uom\<rparr>"

text \<open>The reference: one sample per row with an index and per curve with a value, in table order.\<close>

definition spec_samples :: "log_data_block \<Rightarrow> curve_sample list" where
  "spec_samples b = [sample_of (b_mnemonics b ! c) i (unit_at (b_units b) c) v.
     r \<leftarrow> b_rows b, i \<leftarrow> (case cell_at r 0 of None \<Rightarrow> [] | Some i \<Rightarrow> [i]),
     c \<leftarrow> [1..<length (b_mnemonics b)], v \<leftarrow> (case cell_at r c of None \<Rightarrow> [] | Some v \<Rightarrow> [v])]"

lemma make_sample_plain:
  "plain_index idx \<Longrightarrow> (\<forall>d. val \<noteq> VDt d) \<Longrightarrow> make_sample pyd m idx u val = Inr (sample_of m idx u val)"
  by (cases idx; cases val) (simp_all add: make_sample_def validate_index_def plain_index_def sample_of_def)

lemma row_samples_plain:
  assumes "plain_index idx" "list_all (\<lambda>c. case c of Some (VDt d) \<Rightarrow> False | _ \<Rightarrow> True) (drop 1 row)" "0 < col"
  shows "row_samples pyd us row idx col ms =
     Inr (concat (map (\<lambda>k. case cell_at row (col + k) of None \<Rightarrow> []
        | Some v \<Rightarrow> [sample_of (ms ! k) idx (unit_at us (col + k)) v])
        [0..<length ms]))"
  using assms(3)
proof (induction ms arbitrary: col)
  case (Cons m ms)
  have shift: "concat (map f [0..<Suc n]) = f 0 @ concat (map (\<lambda>k. f (Suc k)) [0..<n])"
    for f :: "nat \<Rightarrow> 'b list" and n
    by (simp add: upt_conv_Cons map_Suc_upt [symmetric] comp_def del: upt_Suc)
  have nd: "\<forall>d. v \<noteq> VDt d" if "cell_at row col = Some v" for v
  proof -
    from that Cons.prems have "Some v \<in> set (drop 1 row)"
      by (cases row; cases col) (auto simp: cell_at_def in_set_conv_nth split: if_splits)
    with assms(2) show ?thesis by (auto simp: list_all_iff)
  qed
  have ih: "row_samples pyd us row idx (col + 1) ms = Inr (concat (map (\<lambda>k. case cell_at row (col + 1 + k) of None \<Rightarrow> []
        | Some v \<Rightarrow> [sample_of (ms ! k) idx (unit_at us (col + 1 + k)) v])
        [0..<length ms]))"
    by (rule Cons.IH) simp
  show ?case
  proof (cases "cell_at row col")
    case None
    then show ?thesis using ih unfolding length_Cons shift by (auto simp: cell_at_def unit_at_def cong: option.case_cong split: if_splits)
  next
    case (Some v)
    then show ?thesis
      using ih nd [OF Some] make_sample_plain [OF assms(1)]
      unfolding length_Cons shift by (auto simp: cell_at_def unit_at_def cong: option.case_cong split: if_splits)
  qed
qed simp

lemma samples_plain:
  assumes "list_all plain_row (b_rows b)"
  shows "samples pyd b = Inr (spec_samples b)"
proof -
  let ?ms = "b_mnemonics b" and ?us = "b_units b"
  have cols: "[1..<length ?ms] = map (\<lambda>k. 1 + k) [0..<length (drop 1 ?ms)]"
    by (cases "length ?ms") (simp_all add: map_Suc_upt)
  have "samples_rows pyd ?ms ?us rs = Inr (concat (map (\<lambda>r. concat (map (\<lambda>i. concat (map (\<lambda>c.
      map (\<lambda>v. sample_of (?ms ! c) i (unit_at ?us (c)) v)
        (case cell_at r c of None \<Rightarrow> [] | Some v \<Rightarrow> [v])) [1..<length ?ms]))
      (case cell_at r 0 of None \<Rightarrow> [] | Some i \<Rightarrow> [i]))) rs))" if "list_all plain_row rs" for rs
    using that
  proof (induction rs)
    case (Cons r rs)
    then obtain c cs where r: "r = c # cs" by (cases r) (auto simp: plain_row_def)
    show ?case
    proof (cases c)
      case None
      with Cons r show ?thesis by (simp add: cell_at_def)
    next
      case (Some i)
      with Cons.prems r have "plain_index i" "list_all (\<lambda>c. case c of Some (VDt d) \<Rightarrow> False | _ \<Rightarrow> True) (drop 1 r)"
        by (auto simp: plain_row_def)
      from row_samples_plain [OF this, of 1 pyd ?us "drop 1 ?ms"]
      have "row_samples pyd ?us r i 1 (drop 1 ?ms) = Inr (concat (map (\<lambda>c.
          map (\<lambda>v. sample_of (?ms ! c) i (unit_at ?us (c)) v)
            (case cell_at r c of None \<Rightarrow> [] | Some v \<Rightarrow> [v])) [1..<length ?ms]))"
        unfolding cols by (auto intro!: arg_cong [where f = concat] split: option.splits)
      then show ?thesis using Cons r Some by (simp add: cell_at_def)
    qed
  qed simp
  with assms show ?thesis by (simp add: samples_def spec_samples_def)
qed

end
