(* ===== verification/Xml.thy ===== *)
theory Xml
  imports Domain
begin

text \<open>
  The element trees of lxml, the reading helpers the parser and the mock store share
  (\<^verbatim>\<open>backend/app/witsml/parse.py\<close> and \<^verbatim>\<open>mockstore/store.py\<close> define the same functions) and the
  builders. A node is an element with its namespace, local name, attributes in order, text before
  the first child, and children; comments and processing instructions are \<open>Misc\<close>. The text after
  an element (its tail) is never read by the code and is not kept.

  lxml itself is a parameter: its recovering and its strict parser, its serialiser, and the text of
  an exception. What the code relies on is \<open>xml_codec\<close>: a legal tree that is serialised and parsed
  again comes back, with empty text read as no text. lxml refuses text and attribute values with
  control characters when they are set; the model refuses them when the finished tree is serialised,
  which is the same since a tree under construction is not visible elsewhere.
\<close>

datatype node =
    Elem (el_ns: string) (el_local: string) (el_attrs: "(string \<times> string) list") (el_text: "string option")
      (el_kids: "node list")
  | Misc

fun kids :: "node \<Rightarrow> node list" where
  "kids (Elem ns l a t ks) = ks"
| "kids Misc = []"

fun has_local :: "string \<Rightarrow> node \<Rightarrow> bool" where
  "has_local name (Elem ns l a t ks) = (l = name)"
| "has_local name Misc = False"

fun node_text :: "node \<Rightarrow> string option" where
  "node_text (Elem ns l a t ks) = t"
| "node_text Misc = None"

text \<open>\<^verbatim>\<open>el.get(name)\<close>.\<close>

fun attr_get :: "node \<Rightarrow> string \<Rightarrow> string option" where
  "attr_get (Elem ns l a t ks) name = map_of a name"
| "attr_get Misc name = None"

section \<open>Reading helpers\<close>

definition xml_children :: "node \<Rightarrow> string \<Rightarrow> node list" where
  "xml_children parent name = filter (has_local name) (kids parent)"

definition xml_first :: "node \<Rightarrow> string \<Rightarrow> node option" where
  "xml_first parent name = find_first (has_local name) (kids parent)"

definition xml_text :: "node \<Rightarrow> string \<Rightarrow> string option" where
  "xml_text parent name = (case xml_first parent name of
      None \<Rightarrow> None
    | Some el \<Rightarrow> (case node_text el of None \<Rightarrow> None | Some t \<Rightarrow> or_none (Some (strip t))))"

definition attr_uom :: "node \<Rightarrow> string \<Rightarrow> string option" where
  "attr_uom parent name = (case xml_first parent name of
      None \<Rightarrow> None
    | Some el \<Rightarrow> (case attr_get el ''uom'' of
        None \<Rightarrow> None | Some u \<Rightarrow> if u = [] then None else Some (strip u)))"

text \<open>\<^verbatim>\<open>root.iter()\<close>: the node and everything below it in document order.\<close>

fun xml_iter :: "node \<Rightarrow> node list" where
  "xml_iter (Elem ns l a t ks) = Elem ns l a t ks # concat (map xml_iter ks)"
| "xml_iter Misc = [Misc]"

definition xml_descendants :: "node \<Rightarrow> string \<Rightarrow> node list" where
  "xml_descendants rt name = filter (has_local name) (xml_iter rt)"

definition root_or_first :: "node \<Rightarrow> string \<Rightarrow> node option" where
  "root_or_first rt name = (case xml_first rt name of
      Some el \<Rightarrow> Some el
    | None \<Rightarrow> if has_local name rt then Some rt else None)"

section \<open>Builders\<close>

definition el :: "string \<Rightarrow> (string \<times> string) list \<Rightarrow> string option \<Rightarrow> node list \<Rightarrow> node" where
  "el tag attrs txt ks = Elem NS_DATA tag attrs txt ks"

definition new_root :: "string \<Rightarrow> node list \<Rightarrow> node" where
  "new_root plural ks = el plural [(''version'', WITSML_VERSION)] None ks"

section \<open>lxml\<close>

record lxml =
  lx_recover :: "string \<Rightarrow> node option res"
  lx_strict :: "string \<Rightarrow> node option res"
  lx_tostring :: "node \<Rightarrow> string"
  lx_message :: "exn \<Rightarrow> string"

definition legal_char :: "char \<Rightarrow> bool" where
  "legal_char c = (let n = code_of c in 32 \<le> n \<or> n = 9 \<or> n = 10 \<or> n = 13)"

fun xml_legal :: "node \<Rightarrow> bool" where
  "xml_legal (Elem ns l a t ks) =
     (list_all (\<lambda>p. list_all legal_char (snd p)) a \<and>
      (case t of None \<Rightarrow> True | Some s \<Rightarrow> list_all legal_char s) \<and> list_all xml_legal ks)"
| "xml_legal Misc = True"

fun xml_norm :: "node \<Rightarrow> node" where
  "xml_norm (Elem ns l a t ks) = Elem ns l a (or_none t) (map xml_norm ks)"
| "xml_norm Misc = Misc"

definition serialize :: "lxml \<Rightarrow> node \<Rightarrow> string res" where
  "serialize lx n = (if xml_legal n then Inr (lx_tostring lx n) else Inl ValueError)"

definition xml_codec :: "lxml \<Rightarrow> bool" where
  "xml_codec lx = (\<forall>n. xml_legal n \<longrightarrow> lx_recover lx (lx_tostring lx n) = Inr (Some (xml_norm n)) \<and>
     lx_strict lx (lx_tostring lx n) = Inr (Some (xml_norm n)))"

section \<open>Reading a built tree\<close>

lemma kids_el [simp, xml_simps]: "kids (el tag a t ks) = ks"
  and has_local_el [simp, xml_simps]: "has_local name (el tag a t ks) = (tag = name)"
  and node_text_el [simp, xml_simps]: "node_text (el tag a t ks) = t"
  and attr_get_el [simp, xml_simps]: "attr_get (el tag a t ks) x = map_of a x"
  and xml_legal_el [simp, xml_simps]: "xml_legal (el tag a t ks) =
     (list_all (\<lambda>p. list_all legal_char (snd p)) a \<and>
      (case t of None \<Rightarrow> True | Some s \<Rightarrow> list_all legal_char s) \<and> list_all xml_legal ks)"
  and xml_norm_el [simp, xml_simps]: "xml_norm (el tag a t ks) = el tag a (or_none t) (map xml_norm ks)"
  and xml_iter_el [simp, xml_simps]: "xml_iter (el tag a t ks) = el tag a t ks # concat (map xml_iter ks)"
  by (simp_all add: el_def)

lemma el_inject [simp]: "el tag a t ks = el tag' a' t' ks' \<longleftrightarrow> tag = tag' \<and> a = a' \<and> t = t' \<and> ks = ks'"
  by (simp add: el_def)

lemma has_local_norm [simp]: "has_local name (xml_norm n) = has_local name n"
  by (cases n) simp_all

lemma attr_get_norm [simp]: "attr_get (xml_norm n) x = attr_get n x"
  by (cases n) simp_all

lemma kids_norm [simp]: "kids (xml_norm n) = map xml_norm (kids n)"
  by (cases n) simp_all

lemma node_text_norm [simp]: "node_text (xml_norm n) = or_none (node_text n)"
  by (cases n) (simp_all add: or_none_def)

lemma find_first_map: "find_first p (map f xs) = map_option f (find_first (\<lambda>x. p (f x)) xs)"
  by (induction xs) auto

lemma xml_first_norm [simp]: "xml_first (xml_norm n) name = map_option xml_norm (xml_first n name)"
  by (simp add: xml_first_def find_first_map)

lemma xml_children_norm [simp]: "xml_children (xml_norm n) name = map xml_norm (xml_children n name)"
  by (simp add: xml_children_def filter_map o_def)

text \<open>Normalising does not change what is read: an empty text and no text read the same.\<close>

lemma xml_text_norm [simp]: "xml_text (xml_norm n) name = xml_text n name"
  by (auto simp: xml_text_def or_none_def split: option.splits)

lemma attr_uom_norm [simp]: "attr_uom (xml_norm n) name = attr_uom n name"
  by (simp add: attr_uom_def split: option.splits)

lemma xml_iter_norm: "xml_iter (xml_norm n) = map xml_norm (xml_iter n)"
proof (induction n)
  case (Elem ns l a t ks)
  then have "concat (map xml_iter (map xml_norm ks)) = map xml_norm (concat (map xml_iter ks))"
    by (induction ks) auto
  then show ?case by simp
qed simp

lemma xml_descendants_norm: "xml_descendants (xml_norm n) name = map xml_norm (xml_descendants n name)"
  by (simp add: xml_descendants_def xml_iter_norm filter_map o_def)

lemma xml_legal_norm [simp]: "xml_legal (xml_norm n) = xml_legal n"
proof (induction n)
  case (Elem ns l a t ks)
  then have "list_all xml_legal (map xml_norm ks) = list_all xml_legal ks" by (auto simp: list_all_iff)
  then show ?case by (auto simp: or_none_def split: option.splits)
qed simp

lemma xml_norm_idem [simp]: "xml_norm (xml_norm n) = xml_norm n"
proof (induction n)
  case (Elem ns l a t ks)
  then show ?case by (auto simp: or_none_def split: option.splits)
qed simp

text \<open>Searching the children of a built element.\<close>

lemma xml_first_el [xml_simps]: "xml_first (el tag a t ks) name = find_first (has_local name) ks"
  by (simp add: xml_first_def)

lemma xml_children_el [xml_simps]: "xml_children (el tag a t ks) name = filter (has_local name) ks"
  by (simp add: xml_children_def)

lemma xml_text_el [xml_simps]: "xml_text (el tag a t ks) name = (case find_first (has_local name) ks of
      None \<Rightarrow> None
    | Some e \<Rightarrow> (case node_text e of None \<Rightarrow> None | Some t \<Rightarrow> or_none (Some (strip t))))"
  by (simp add: xml_text_def xml_first_el)

lemma find_first_append: "find_first p (xs @ ys) = (case find_first p xs of None \<Rightarrow> find_first p ys | Some x \<Rightarrow> Some x)"
  by (induction xs) auto

lemma serialize_parse:
  "xml_codec lx \<Longrightarrow> serialize lx n = Inr s \<Longrightarrow>
     lx_recover lx s = Inr (Some (xml_norm n)) \<and> lx_strict lx s = Inr (Some (xml_norm n))"
  by (auto simp: xml_codec_def serialize_def split: if_splits)

end
