(* ===== verification/Queries.thy ===== *)
theory Queries
  imports Xml
begin

text \<open>
  \<^verbatim>\<open>backend/app/witsml/queries.py\<close>: the query-by-example builders. A builder returns the element
  tree it would serialise together with the WML type and the OptionsIn string; \<open>qbe\<close> serialises it,
  which is where an illegal character raises. The index range of a data query is written by the
  index type: a UTC timestamp with milliseconds or a number.
\<close>

record QbeQuery =
  qq_wml_type :: string
  qq_query_xml :: string
  qq_options_in :: string

definition qbe :: "lxml \<Rightarrow> string \<Rightarrow> node \<Rightarrow> string \<Rightarrow> QbeQuery res" where
  "qbe lx ty rt opts = rbind (serialize lx rt) (\<lambda>s.
     Inr \<lparr>qq_wml_type = ty, qq_query_xml = s, qq_options_in = opts\<rparr>)"

definition marker :: "string \<Rightarrow> node" where
  "marker tag = el tag [] None []"

definition leaf :: "string \<Rightarrow> string \<Rightarrow> node" where
  "leaf tag t = el tag [] (Some t) []"

text \<open>\<^verbatim>\<open>_iso_utc\<close>: a text passes through, a float has no \<^verbatim>\<open>tzinfo\<close> and raises AttributeError.\<close>

fun iso_utc :: "pyval \<Rightarrow> string res" where
  "iso_utc (VStr s) = Inr s"
| "iso_utc (VDt d) = Inr (strftime_ms (dt_us d))"
| "iso_utc (VFloat x) = Inl AttributeError"

text \<open>\<^verbatim>\<open>_fmt_num\<close>.\<close>

fun fmt_num :: "pyval \<Rightarrow> string res" where
  "fmt_num (VStr s) = Inr s"
| "fmt_num (VDt d) = iso_utc (VDt d)"
| "fmt_num (VFloat x) = (if is_integer x then rbind (int_of_float x) (\<lambda>i. Inr (show_int i)) else Inr (repr_float x))"

section \<open>Discovery and headers\<close>

definition well_query :: "lxml \<Rightarrow> string option \<Rightarrow> ReturnElements \<Rightarrow> QbeQuery res" where
  "well_query lx uid return_elements =
     qbe lx ''well''
       (new_root ''wells'' [el ''well'' (case or_none uid of None \<Rightarrow> [] | Some u \<Rightarrow> [(''uid'', u)]) None
          (map marker [''name'', ''field'', ''region'', ''country'', ''operator'', ''statusWell'', ''timeZone''])])
       (options_in [(OPT_RETURN_ELEMENTS, OvStr (re_value return_elements))])"

definition wellbore_query :: "lxml \<Rightarrow> string \<Rightarrow> string option \<Rightarrow> ReturnElements \<Rightarrow> QbeQuery res" where
  "wellbore_query lx uid_well uid return_elements =
     qbe lx ''wellbore''
       (new_root ''wellbores'' [el ''wellbore''
          ((''uidWell'', uid_well) # (case or_none uid of None \<Rightarrow> [] | Some u \<Rightarrow> [(''uid'', u)])) None
          (map marker [''nameWell'', ''name'', ''statusWellbore''])])
       (options_in [(OPT_RETURN_ELEMENTS, OvStr (re_value return_elements))])"

definition log_header_query :: "lxml \<Rightarrow> string \<Rightarrow> string \<Rightarrow> string option \<Rightarrow> QbeQuery res" where
  "log_header_query lx uid_well uid_wellbore uid =
     qbe lx ''log''
       (new_root ''logs'' [el ''log''
          [(''uidWell'', uid_well), (''uidWellbore'', uid_wellbore), (''uid'', or_str uid '''')] None
          (map marker [''nameWell'', ''nameWellbore'', ''name'', ''indexType'', ''indexCurve'', ''direction'',
             ''objectGrowing'', ''nullValue'']
           @ [el ''startIndex'' [(''uom'', '''')] None [], el ''endIndex'' [(''uom'', '''')] None [],
              marker ''startDateTimeIndex'', marker ''endDateTimeIndex'',
              el ''logCurveInfo'' [(''uid'', '''')] None
                [marker ''mnemonic'', marker ''unit'', marker ''curveDescription'', marker ''typeLogData'',
                 el ''minIndex'' [(''uom'', '''')] None [], el ''maxIndex'' [(''uom'', '''')] None [],
                 marker ''minDateTimeIndex'', marker ''maxDateTimeIndex'']])])
       (options_in [(OPT_RETURN_ELEMENTS, OvStr (re_value HEADER_ONLY))])"

section \<open>Log data\<close>

text \<open>The elements of the requested range.\<close>

definition range_elem :: "IndexType \<Rightarrow> string option \<Rightarrow> string \<Rightarrow> string \<Rightarrow> pyval option \<Rightarrow> node list res" where
  "range_elem it index_uom time_tag depth_tag v = (case v of
      None \<Rightarrow> Inr []
    | Some x \<Rightarrow>
        if is_time it then rbind (iso_utc x) (\<lambda>t. Inr [leaf time_tag t])
        else rbind (fmt_num x) (\<lambda>t. Inr [el depth_tag [(''uom'', or_str index_uom '''')] (Some t) []]))"

definition curve_elem :: "string \<Rightarrow> node" where
  "curve_elem mnem = el ''logCurveInfo'' [(''uid'', '''')] None [leaf ''mnemonic'' mnem]"

definition log_data_tree :: "string \<Rightarrow> string \<Rightarrow> string \<Rightarrow> string list \<Rightarrow> node list \<Rightarrow> node" where
  "log_data_tree uid_well uid_wellbore uid mnemonics bounds =
     new_root ''logs'' [el ''log''
       [(''uidWell'', uid_well), (''uidWellbore'', uid_wellbore), (''uid'', uid)] None
       (bounds @ map curve_elem mnemonics @ [el ''logData'' [] None [marker ''data'']])]"

definition data_options :: "int option \<Rightarrow> string" where
  "data_options max_return_nodes = options_in [(OPT_RETURN_ELEMENTS, OvStr (re_value DATA_ONLY)),
     (OPT_MAX_RETURN_NODES, (case max_return_nodes of None \<Rightarrow> OvNone | Some n \<Rightarrow> OvInt n))]"

definition log_data_query :: "lxml \<Rightarrow> string \<Rightarrow> string \<Rightarrow> string \<Rightarrow> string list \<Rightarrow> IndexType \<Rightarrow> pyval option
    \<Rightarrow> pyval option \<Rightarrow> string option \<Rightarrow> int option \<Rightarrow> QbeQuery res" where
  "log_data_query lx uid_well uid_wellbore uid mnemonics index_type start stop index_uom max_return_nodes =
     (if mnemonics = [] then Inl ValueError
      else
        rbind (range_elem index_type index_uom ''startDateTimeIndex'' ''startIndex'' start) (\<lambda>s.
        rbind (range_elem index_type index_uom ''endDateTimeIndex'' ''endIndex'' stop) (\<lambda>e.
        qbe lx ''log'' (log_data_tree uid_well uid_wellbore uid mnemonics (s @ e))
          (data_options max_return_nodes))))"

definition latest_values_query :: "lxml \<Rightarrow> string \<Rightarrow> string \<Rightarrow> string \<Rightarrow> string list \<Rightarrow> int \<Rightarrow> QbeQuery res" where
  "latest_values_query lx uid_well uid_wellbore uid mnemonics n =
     (if mnemonics = [] then Inl ValueError
      else qbe lx ''log'' (log_data_tree uid_well uid_wellbore uid mnemonics [])
        (options_in [(OPT_RETURN_ELEMENTS, OvStr (re_value DATA_ONLY)), (OPT_REQUEST_LATEST_VALUES, OvInt n)]))"

section \<open>mudLog and capabilities\<close>

definition bound_elem :: "string \<Rightarrow> string \<Rightarrow> pyfloat option \<Rightarrow> node res" where
  "bound_elem tag md_uom v = (case v of
      Some x \<Rightarrow> rbind (fmt_num (VFloat x)) (\<lambda>t. Inr (el tag [(''uom'', md_uom)] (Some t) []))
    | None \<Rightarrow> Inr (el tag [(''uom'', '''')] None []))"

definition mudlog_query :: "lxml \<Rightarrow> string \<Rightarrow> string \<Rightarrow> string option \<Rightarrow> pyfloat option \<Rightarrow> pyfloat option
    \<Rightarrow> string \<Rightarrow> IntervalRangeInclusion \<Rightarrow> QbeQuery res" where
  "mudlog_query lx uid_well uid_wellbore uid md_top md_bottom md_uom inclusion =
     rbind (bound_elem ''mdTop'' md_uom md_top) (\<lambda>mdt.
     rbind (bound_elem ''mdBottom'' md_uom md_bottom) (\<lambda>bottom.
     qbe lx ''mudLog''
       (new_root ''mudLogs'' [el ''mudLog''
          [(''uidWell'', uid_well), (''uidWellbore'', uid_wellbore), (''uid'', or_str uid '''')] None
          (map marker [''nameWell'', ''nameWellbore'', ''name'', ''objectGrowing'']
           @ [el ''geologyInterval'' [(''uid'', '''')] None
                [marker ''typeLithology'', mdt, bottom, marker ''description'',
                 el ''lithology'' [(''uid'', '''')] None
                   [marker ''type'', marker ''codeLith'', el ''lithPc'' [(''uom'', '''')] None [],
                    marker ''description'']]])])
       (options_in [(OPT_INTERVAL_RANGE_INCLUSION, OvStr (iri_value inclusion))])))"

definition get_cap_options :: string where
  "get_cap_options = options_in [(OPT_DATA_VERSION, OvStr WITSML_VERSION)]"

section \<open>Lemmas\<close>

lemma marker_simps [simp, xml_simps]:
  "has_local name (marker tag) = (tag = name)" "node_text (marker tag) = None" "xml_legal (marker tag)"
  "xml_norm (marker tag) = marker tag" "kids (marker tag) = []"
  by (simp_all add: marker_def or_none_def)

lemma leaf_simps [simp, xml_simps]:
  "has_local name (leaf tag t) = (tag = name)" "node_text (leaf tag t) = Some t"
  "xml_legal (leaf tag t) = list_all legal_char t" "kids (leaf tag t) = []"
  by (simp_all add: leaf_def)

lemma iso_utc_ends: "\<lbrakk>iso_utc (VDt d) = Inr s\<rbrakk> \<Longrightarrow> s \<noteq> []"
  by (auto simp: strftime_ms_last)

lemma fmt_num_integer: "is_integer (Fin q) \<Longrightarrow> fmt_num (VFloat (Fin q)) = Inr (show_int \<lfloor>q\<rfloor>)"
proof -
  assume a: "is_integer (Fin q)"
  then obtain n where "q = of_int n" by (auto simp: is_integer_def)
  with a show ?thesis by (simp add: int_of_float_def)
qed

text \<open>A printed depth reads back as the same float.\<close>

lemma float_fmt_num:
  assumes "is_float q" "fmt_num (VFloat (Fin q)) = Inr t"
  shows "float_of_string t = Some (Fin q)"
proof (cases "is_integer (Fin q)")
  case True
  then have q: "of_int \<lfloor>q\<rfloor> = q" by (simp add: is_integer_def)
  have "float_of_string (show_int \<lfloor>q\<rfloor>) = Some (Fin (of_int \<lfloor>q\<rfloor>))"
    by (rule float_int_roundtrip) (simp only: q assms(1))
  with q assms(2) fmt_num_integer [OF True] show ?thesis by (simp only: sum.inject)
next
  case False
  with assms(2) float_repr_roundtrip [OF assms(1)] show ?thesis by simp
qed

end
