(* ===== verification/Polling.thy ===== *)
theory Polling
  imports Domain
begin

text \<open>
  \<^verbatim>\<open>backend/app/witsml/polling.py\<close>: the resume index of a batch, the removal of the rows already
  seen, and the merge of the batches of a truncated answer. The strict order of a growing log, in
  the direction it grows, is the interface \<open>growth_order\<close>, interpreted on \<^verbatim>\<open>is_beyond\<close> for both
  directions.
\<close>

fun aware :: "pyval \<Rightarrow> pyval" where
  "aware (VDt d) = (if dt_aware d then VDt d else VDt (DT True (dt_us d)))"
| "aware v = v"

fun row_indices :: "row list \<Rightarrow> pyval list res" where
  "row_indices [] = Inr []"
| "row_indices (r # rs) = rbind (row_index r) (\<lambda>c. rbind (row_indices rs) (\<lambda>is.
     Inr (case c of None \<Rightarrow> is | Some v \<Rightarrow> aware v # is)))"

definition continuation_index :: "log_data_block \<Rightarrow> Direction \<Rightarrow> pyval option res" where
  "continuation_index block direction = rbind (row_indices (b_rows block)) (\<lambda>idxs.
     (case idxs of
        [] \<Rightarrow> Inr None
      | v # vs \<Rightarrow> rbind (if direction = INCREASING then val_max v vs else val_min v vs) (\<lambda>m. Inr (Some m))))"

definition is_beyond :: "pyval \<Rightarrow> pyval \<Rightarrow> Direction \<Rightarrow> bool res" where
  "is_beyond i l direction =
     (if direction = INCREASING then val_lt (aware l) (aware i) else val_lt (aware i) (aware l))"

definition dedupe_boundary :: "log_data_block \<Rightarrow> pyval option \<Rightarrow> Direction \<Rightarrow> log_data_block res" where
  "dedupe_boundary block last_index direction = (case last_index of
      None \<Rightarrow> Inr block
    | Some l \<Rightarrow>
        rbind (rfilter (\<lambda>r. rbind (row_index r) (\<lambda>c.
            case c of None \<Rightarrow> Inr False | Some i \<Rightarrow> is_beyond i l direction)) (b_rows block)) (\<lambda>kept.
        Inr \<lparr>b_mnemonics = b_mnemonics block, b_units = b_units block,
             b_index_type = b_index_type block, b_rows = kept\<rparr>))"

text \<open>The loop over the blocks: the header check, then the rows in order.\<close>

definition merge_row :: "row \<Rightarrow> (pyval \<times> row) list \<Rightarrow> (pyval \<times> row) list res" where
  "merge_row r by_index = rbind (row_index r) (\<lambda>c.
     case c of None \<Rightarrow> Inr by_index | Some k \<Rightarrow> Inr (dput k r by_index))"

definition merge_block :: "string list \<Rightarrow> log_data_block \<Rightarrow> (pyval \<times> row) list \<Rightarrow> (pyval \<times> row) list res" where
  "merge_block head_mnemonics b by_index =
     (if b_mnemonics b \<noteq> [] \<and> b_mnemonics b \<noteq> head_mnemonics then Inl ValueError
      else rfold merge_row (b_rows b) by_index)"

definition merge_head :: "log_data_block list \<Rightarrow> log_data_block" where
  "merge_head blocks = (case find_first (\<lambda>b. b_mnemonics b \<noteq> []) blocks of Some b \<Rightarrow> b | None \<Rightarrow> hd blocks)"

definition merge_blocks :: "log_data_block list \<Rightarrow> log_data_block res" where
  "merge_blocks blocks =
     (if blocks = [] then Inl ValueError
      else let head = merge_head blocks in
        rbind (rfold (merge_block (b_mnemonics head)) blocks []) (\<lambda>by_index.
        rbind (val_sort fst by_index) (\<lambda>ordered.
        Inr \<lparr>b_mnemonics = b_mnemonics head, b_units = b_units head,
             b_index_type = b_index_type head, b_rows = map snd ordered\<rparr>)))"

section \<open>The growth order\<close>

text \<open>
  What the polling code needs of the comparison: it is a strict order on the indices of one log.
  The carrier is the set of indices that can be compared with each other.
\<close>

locale growth_order =
  fixes beyond :: "pyval \<Rightarrow> pyval \<Rightarrow> bool res"
    and ok :: "pyval \<Rightarrow> bool"
    and newer :: "pyval \<Rightarrow> pyval \<Rightarrow> bool"
  assumes beyond_newer: "ok i \<Longrightarrow> ok l \<Longrightarrow> beyond i l = Inr (newer i l)"
    and newer_irrefl: "\<not> newer i i"
    and newer_trans: "newer i j \<Longrightarrow> newer j k \<Longrightarrow> newer i k"
    and newer_total: "ok i \<Longrightarrow> ok j \<Longrightarrow> i \<noteq> j \<Longrightarrow> newer i j \<or> newer j i"
begin

text \<open>Filtering against a cursor, then against a later one, is filtering against the later one.\<close>

lemma filter_filter_newer:
  "newer m l \<Longrightarrow> filter (\<lambda>i. newer i m) (filter (\<lambda>i. newer i l) xs) = filter (\<lambda>i. newer i m) xs"
  using newer_trans by (auto simp: filter_filter intro: filter_cong)

lemma rfilter_beyond:
  assumes "\<forall>x \<in> set xs. ok (f x)" "ok l"
  shows "rfilter (\<lambda>x. beyond (f x) l) xs = Inr (filter (\<lambda>x. newer (f x) l) xs)"
  using assms by (intro rfilter_Inr) (simp add: beyond_newer)

lemma not_newer_both: "newer i j \<Longrightarrow> \<not> newer j i"
  using newer_irrefl newer_trans by blast

end

text \<open>
  The indices of one log that compare: of one kind once naive datetimes are read as UTC, and
  numbers. Canonical indices are the ones \<open>aware\<close> leaves alone.
\<close>

definition good_index :: "nat \<Rightarrow> pyval \<Rightarrow> bool" where
  "good_index k v = (val_kind v = k \<and> aware v = v \<and> \<not> is_nan v)"

interpretation inc: growth_order "\<lambda>i l. is_beyond i l INCREASING" "good_index k" "\<lambda>i l. l < i" for k
  by unfold_locales (auto simp: is_beyond_def good_index_def val_lt_less)

interpretation dec: growth_order "\<lambda>i l. is_beyond i l DECREASING" "good_index k" "\<lambda>i l. i < l" for k
  by unfold_locales (auto simp: is_beyond_def good_index_def val_lt_less)

definition newer_than :: "Direction \<Rightarrow> pyval \<Rightarrow> pyval \<Rightarrow> bool" where
  "newer_than d i l = (if d = INCREASING then l < i else i < l)"

lemma is_beyond_newer: "good_index k i \<Longrightarrow> good_index k l \<Longrightarrow> is_beyond i l d = Inr (newer_than d i l)"
  by (cases d) (auto simp: newer_than_def inc.beyond_newer dec.beyond_newer)

lemma newer_than_irrefl [simp]: "\<not> newer_than d i i"
  and newer_than_trans: "newer_than d i j \<Longrightarrow> newer_than d j l \<Longrightarrow> newer_than d i l"
  by (auto simp: newer_than_def split: if_splits)

lemma aware_idem [simp]: "aware (aware v) = aware v"
  by (cases v) auto

lemma is_beyond_aware [simp]: "is_beyond (aware i) (aware l) d = is_beyond i l d"
  by (simp add: is_beyond_def)

section \<open>Indexed rows\<close>

text \<open>The rows of a block that have an index, with it.\<close>

definition indexed :: "row list \<Rightarrow> (pyval \<times> row) list" where
  "indexed rs = concat (map (\<lambda>r. case r of Some k # _ \<Rightarrow> [(k, r)] | _ \<Rightarrow> []) rs)"

definition keys_of :: "row list \<Rightarrow> pyval list" where
  "keys_of rs = map fst (indexed rs)"

definition all_indexed :: "row list \<Rightarrow> bool" where
  "all_indexed rs = list_all (\<lambda>r. r \<noteq> [] \<and> hd r \<noteq> None) rs"

lemma indexed_simps [simp]:
  "indexed [] = []"
  "indexed (r # rs) = (case r of Some k # cs \<Rightarrow> (k, r) # indexed rs | _ \<Rightarrow> indexed rs)"
  "indexed (rs @ rs') = indexed rs @ indexed rs'"
  by (auto simp: indexed_def split: list.splits option.splits)

lemma keys_of_simps [simp]:
  "keys_of [] = []" "keys_of (rs @ rs') = keys_of rs @ keys_of rs'"
  "keys_of (r # rs) = (case r of Some k # cs \<Rightarrow> k # keys_of rs | _ \<Rightarrow> keys_of rs)"
  by (auto simp: keys_of_def split: list.splits option.splits)

lemma in_indexed: "(k, r) \<in> set (indexed rs) \<longleftrightarrow> r \<in> set rs \<and> (\<exists>cs. r = Some k # cs)"
  by (induction rs) (auto split: list.splits option.splits)

lemma indexed_snd: "set ps \<subseteq> set (indexed rs) \<Longrightarrow> indexed (map snd ps) = ps"
  by (induction ps) (auto simp: in_indexed)

lemma keys_of_set: "k \<in> set (keys_of rs) \<longleftrightarrow> (\<exists>cs. Some k # cs \<in> set rs)"
  by (induction rs) (auto split: list.splits option.splits)

lemma row_indices_keys: "\<forall>r \<in> set rs. r \<noteq> [] \<Longrightarrow> row_indices rs = Inr (map aware (keys_of rs))"
proof (induction rs)
  case (Cons r rs)
  then show ?case by (cases r) (auto split: option.splits)
qed simp

section \<open>continuation_index and dedupe_boundary\<close>

definition growth_end :: "Direction \<Rightarrow> pyval set \<Rightarrow> pyval" where
  "growth_end d S = (if d = INCREASING then Max S else Min S)"

lemma continuation_index_spec:
  assumes "\<forall>r \<in> set (b_rows b). r \<noteq> []" "\<forall>v \<in> set (keys_of (b_rows b)). good_index k v"
  shows "continuation_index b d =
    Inr (if keys_of (b_rows b) = [] then None else Some (growth_end d (set (keys_of (b_rows b)))))"
proof -
  have "map aware (keys_of (b_rows b)) = keys_of (b_rows b)"
    using assms(2) by (induction "keys_of (b_rows b)") (auto intro!: map_idI simp: good_index_def)
  then have idx: "row_indices (b_rows b) = Inr (keys_of (b_rows b))"
    using row_indices_keys [OF assms(1)] by simp
  show ?thesis
  proof (cases "keys_of (b_rows b)")
    case (Cons v vs)
    then have "\<forall>x \<in> set (v # vs). val_kind x = k \<and> \<not> is_nan x" using assms(2) by (auto simp: good_index_def)
    from val_max_spec [OF this] val_min_spec [OF this] idx Cons show ?thesis
      by (simp add: continuation_index_def growth_end_def)
  qed (simp add: continuation_index_def idx)
qed

lemma growth_end_in: "finite S \<Longrightarrow> S \<noteq> {} \<Longrightarrow> growth_end d S \<in> S"
  by (auto simp: growth_end_def)

lemma growth_end_newest: "finite S \<Longrightarrow> x \<in> S \<Longrightarrow> \<not> newer_than d x (growth_end d S)"
  by (auto simp: growth_end_def newer_than_def not_less)

definition beyond_rows :: "Direction \<Rightarrow> pyval \<Rightarrow> row list \<Rightarrow> row list" where
  "beyond_rows d l rs = filter (\<lambda>r. case r of Some i # _ \<Rightarrow> newer_than d i l | _ \<Rightarrow> False) rs"

lemma dedupe_boundary_rows:
  assumes "\<forall>r \<in> set (b_rows b). r \<noteq> []" "\<forall>v \<in> set (keys_of (b_rows b)). good_index k v" "good_index k l"
  shows "dedupe_boundary b (Some l) d = Inr (b\<lparr>b_rows := beyond_rows d l (b_rows b)\<rparr>)"
proof -
  have "rbind (row_index r) (\<lambda>c. case c of None \<Rightarrow> Inr False | Some i \<Rightarrow> is_beyond i l d) =
      Inr (case r of Some i # _ \<Rightarrow> newer_than d i l | _ \<Rightarrow> False)" if "r \<in> set (b_rows b)" for r
  proof (cases r)
    case Nil
    with assms(1) that show ?thesis by auto
  next
    case (Cons c cs)
    show ?thesis
    proof (cases c)
      case (Some i)
      with that Cons assms(2) have "good_index k i" by (auto simp: keys_of_set)
      with Cons Some assms(3) show ?thesis by (simp add: is_beyond_newer)
    qed (simp add: Cons)
  qed
  then show ?thesis
    by (cases b) (simp add: dedupe_boundary_def beyond_rows_def rfilter_Inr
      [where q = "\<lambda>r. case r of Some i # _ \<Rightarrow> newer_than d i l | _ \<Rightarrow> False"])
qed

lemma dedupe_boundary_idem:
  assumes "dedupe_boundary b l d = Inr b'"
  shows "dedupe_boundary b' l d = Inr b'"
proof (cases l)
  case (Some i)
  with assms obtain kept where k: "rfilter (\<lambda>r. rbind (row_index r) (\<lambda>c.
            case c of None \<Rightarrow> Inr False | Some j \<Rightarrow> is_beyond j i d)) (b_rows b) = Inr kept"
     and b': "b' = \<lparr>b_mnemonics = b_mnemonics b, b_units = b_units b, b_index_type = b_index_type b, b_rows = kept\<rparr>"
    by (auto simp: dedupe_boundary_def rbind_eq_Inr)
  from rfilter_eq_InrD [OF k] show ?thesis
    by (auto simp: Some dedupe_boundary_def b' rfilter_all_True)
qed (use assms in \<open>simp add: dedupe_boundary_def\<close>)


section \<open>merge_blocks\<close>

lemma rfold_merge_row:
  assumes "\<forall>r \<in> set rs. r \<noteq> []" "\<forall>k \<in> set (keys_of rs). \<not> is_nan k"
  shows "rfold merge_row rs d = Inr (fold (\<lambda>(k, r). AList.update k r) (indexed rs) d)"
  using assms
proof (induction rs arbitrary: d)
  case (Cons r rs)
  then obtain c cs where "r = c # cs" by (cases r) auto
  with Cons show ?case by (cases c) (auto simp: merge_row_def dput_update)
qed simp

lemma rfold_merge_block:
  assumes "\<forall>b \<in> set bs. b_mnemonics b = [] \<or> b_mnemonics b = ms"
    "\<forall>r \<in> set (concat (map b_rows bs)). r \<noteq> []"
    "\<forall>k \<in> set (keys_of (concat (map b_rows bs))). \<not> is_nan k"
  shows "rfold (merge_block ms) bs d = Inr (fold (\<lambda>(k, r). AList.update k r) (indexed (concat (map b_rows bs))) d)"
  using assms
proof (induction bs arbitrary: d)
  case (Cons b bs)
  then have "merge_block ms b d = Inr (fold (\<lambda>(k, r). AList.update k r) (indexed (b_rows b)) d)"
    by (auto simp: merge_block_def intro!: rfold_merge_row)
  with Cons show ?case by simp
qed simp

lemma rfold_merge_block_header:
  "b \<in> set bs \<Longrightarrow> b_mnemonics b \<noteq> [] \<Longrightarrow> b_mnemonics b \<noteq> ms \<Longrightarrow> \<forall>b \<in> set bs. \<forall>r \<in> set (b_rows b). r \<noteq> [] \<Longrightarrow>
    rfold (merge_block ms) bs d = Inl ValueError"
proof (induction bs arbitrary: d)
  case (Cons a bs)
  have "\<exists>e. rfold merge_row rs d = Inr e" if "\<forall>r \<in> set rs. r \<noteq> []" for rs d
    using that
  proof (induction rs arbitrary: d)
    case (Cons r rs)
    then show ?case by (cases r) (auto simp: merge_row_def split: option.splits)
  qed simp
  then obtain e where e: "rfold merge_row (b_rows a) d = Inr e" using Cons.prems(4) by fastforce
  show ?case
  proof (cases "b_mnemonics a \<noteq> [] \<and> b_mnemonics a \<noteq> ms")
    case False
    with Cons.prems have "b \<in> set bs" by auto
    with Cons e False show ?thesis by (simp add: merge_block_def)
  qed (simp add: merge_block_def)
qed simp

lemma fold_update_map_of:
  "map_of (fold (\<lambda>(k, r). AList.update k r) ps d) k = (case map_of (rev ps) k of None \<Rightarrow> map_of d k | Some r \<Rightarrow> Some r)"
proof (induction ps arbitrary: d)
  case (Cons p ps)
  then show ?case by (cases p) (auto simp: map_add_def split: option.splits)
qed simp

lemma fold_update_distinct:
  "distinct (map fst d) \<Longrightarrow> distinct (map fst (fold (\<lambda>(k, r). AList.update k r) ps d))"
  by (induction ps arbitrary: d) (auto simp: distinct_update)

text \<open>The rows a merge keeps: per index the last one written.\<close>

definition last_write :: "row list \<Rightarrow> pyval \<rightharpoonup> row" where
  "last_write rs = map_of (rev (indexed rs))"

lemma last_write_in: "last_write rs k = Some r \<Longrightarrow> r \<in> set rs \<and> (\<exists>cs. r = Some k # cs)"
  by (auto simp: last_write_def dest!: map_of_SomeD simp: in_indexed)

lemma dom_last_write: "dom (last_write rs) = set (keys_of rs)"
  by (simp add: last_write_def dom_map_of_conv_image_fst keys_of_def)

lemma merge_blocks_rows:
  assumes ne: "bs \<noteq> []"
    and hdr: "\<forall>b \<in> set bs. b_mnemonics b = [] \<or> b_mnemonics b = b_mnemonics (merge_head bs)"
    and rows: "\<forall>r \<in> set (concat (map b_rows bs)). r \<noteq> []"
    and good: "\<forall>v \<in> set (keys_of (concat (map b_rows bs))). val_kind v = k \<and> \<not> is_nan v"
  obtains m where "merge_blocks bs = Inr m"
    "b_mnemonics m = b_mnemonics (merge_head bs)" "b_units m = b_units (merge_head bs)"
    "sorted_wrt (<) (keys_of (b_rows m))" "all_indexed (b_rows m)"
    "last_write (b_rows m) = last_write (concat (map b_rows bs))"
    "set (indexed (b_rows m)) = {(k, r). last_write (concat (map b_rows bs)) k = Some r}"
proof -
  let ?rs = "concat (map b_rows bs)"
  define d where "d = fold (\<lambda>(k, r). AList.update k r) (indexed ?rs) []"
  have loop: "rfold (merge_block (b_mnemonics (merge_head bs))) bs [] = Inr d"
    unfolding d_def using hdr rows good by (intro rfold_merge_block) auto
  have dm: "map_of d = last_write ?rs"
    by (rule ext) (simp add: d_def fold_update_map_of last_write_def split: option.splits)
  have dd: "distinct (map fst d)" by (simp add: d_def fold_update_distinct)
  then have dset: "set d = {(k, r). last_write ?rs k = Some r}" by (auto simp flip: dm)
  have "fst ` set d = set (keys_of ?rs)" using dm dom_last_write [of ?rs] by (metis dom_map_of_conv_image_fst)
  then have cmp: "comparable (map fst d)" using good by (auto simp: comparable_iff)
  define srt where "srt = sort_key fst d"
  have oset: "set srt = set d" by (simp add: srt_def)
  have "set srt \<subseteq> set (indexed ?rs)"
    unfolding oset dset by (auto simp: last_write_def dest: map_of_SomeD)
  then have ix: "indexed (map snd srt) = srt" by (rule indexed_snd)
  have "distinct (map fst srt)" using dd unfolding srt_def by (metis distinct_map distinct_sort inj_on_def set_sort)
  moreover have "sorted (map fst srt)" by (simp add: srt_def)
  ultimately have so: "sorted_wrt (<) (map fst srt)" by (simp add: strict_sorted_iff)
  have mo: "map_of (rev srt) = map_of d"
    using \<open>distinct (map fst srt)\<close> oset dd by (subst map_of_inject_set) (simp_all flip: rev_map)
  let ?m = "\<lparr>b_mnemonics = b_mnemonics (merge_head bs), b_units = b_units (merge_head bs),
             b_index_type = b_index_type (merge_head bs), b_rows = map snd srt\<rparr>"
  have "\<exists>cs. r = Some i # cs" if "(i, r) \<in> set srt" for i r
    using \<open>set srt \<subseteq> set (indexed ?rs)\<close> that by (auto simp: in_indexed)
  then have "all_indexed (map snd srt)" by (fastforce simp: all_indexed_def list_all_iff)
  with ne loop cmp so ix mo dm oset dset show ?thesis
    by (intro that [of ?m]) (simp_all add: merge_blocks_def Let_def val_sort_def srt_def keys_of_def last_write_def)
qed


lemma merge_blocks_header:
  assumes "b \<in> set bs" "b_mnemonics b \<noteq> []" "b_mnemonics b \<noteq> b_mnemonics (merge_head bs)"
    "\<forall>b \<in> set bs. \<forall>r \<in> set (b_rows b). r \<noteq> []"
  shows "merge_blocks bs = Inl ValueError"
  using rfold_merge_block_header [OF assms] assms(1) by (auto simp: merge_blocks_def Let_def)

section \<open>Properties\<close>

definition ex_block :: "pyfloat list \<Rightarrow> string \<Rightarrow> log_data_block" where
  "ex_block xs t = \<lparr>b_mnemonics = [''DEPT'', ''LITH''], b_units = [Some ''m'', None],
     b_index_type = MEASURED_DEPTH, b_rows = map (\<lambda>x. [Some (VFloat x), Some (VStr t)]) xs\<rparr>"

text \<open>
  Removing the boundary against a stored index keeps exactly the rows whose index is strictly
  beyond it in the growth direction of the log, in their order, and changes nothing else of the
  block; rows without an index go. The indices are numbers or UTC instants of one kind.
\<close>

theorem dedupe_boundary_exact:
  assumes "\<forall>r \<in> set (b_rows b). r \<noteq> []" "\<forall>v \<in> set (keys_of (b_rows b)). good_index k v" "good_index k l"
  shows "dedupe_boundary b (Some l) d = Inr (b\<lparr>b_rows := beyond_rows d l (b_rows b)\<rparr>)"
  using assms by (rule dedupe_boundary_rows)

theorem dedupe_boundary_exact_witness:
  "dedupe_boundary (ex_block [Fin 3, Fin 4, Fin 5] ''sand'') (Some (VFloat (Fin 3))) INCREASING
     = Inr (ex_block [Fin 4, Fin 5] ''sand'')"
proof -
  let ?b = "ex_block [Fin 3, Fin 4, Fin 5] ''sand''"
  have "dedupe_boundary ?b (Some (VFloat (Fin 3))) INCREASING =
      Inr (?b\<lparr>b_rows := beyond_rows INCREASING (VFloat (Fin 3)) (b_rows ?b)\<rparr>)"
    by (rule dedupe_boundary_exact [where k = 0]) (auto simp: ex_block_def good_index_def is_nan_def)
  then show ?thesis
    by (simp add: ex_block_def beyond_rows_def newer_than_def less_pyval_def less_eq_pyval_def less_eq_pyfloat_def)
qed

text \<open>
  Removing the boundary is idempotent, whatever the rows hold: a block that went through it
  comes back unchanged, so that delivering a batch twice stores nothing twice.
\<close>

theorem dedupe_boundary_idempotent:
  assumes "dedupe_boundary b l d = Inr b'"
  shows "dedupe_boundary b' l d = Inr b'"
  using assms by (rule dedupe_boundary_idem)

theorem dedupe_boundary_idempotent_witness:
  "dedupe_boundary (ex_block [Fin 4, Fin 5] ''sand'') (Some (VFloat (Fin 3))) INCREASING
     = Inr (ex_block [Fin 4, Fin 5] ''sand'')"
  by (rule dedupe_boundary_idempotent [of "ex_block [Fin 3, Fin 4, Fin 5] ''sand''"])
     (simp add: dedupe_boundary_def ex_block_def is_beyond_def fl_lt_def)

text \<open>
  The continuation index of a batch is an index of the batch that no row is beyond, for
  either direction; a batch without indices has none, which ends the loop.
\<close>

theorem continuation_index_end:
  assumes "\<forall>r \<in> set (b_rows b). r \<noteq> []" "\<forall>v \<in> set (keys_of (b_rows b)). good_index k v"
  shows "(keys_of (b_rows b) = [] \<and> continuation_index b d = Inr None) \<or>
    (\<exists>c \<in> set (keys_of (b_rows b)). continuation_index b d = Inr (Some c) \<and>
       (\<forall>v \<in> set (keys_of (b_rows b)). \<not> newer_than d v c))"
proof (cases "keys_of (b_rows b) = []")
  case False
  then show ?thesis
    using continuation_index_spec [OF assms, of d] growth_end_in [of "set (keys_of (b_rows b))" d]
      growth_end_newest [of "set (keys_of (b_rows b))" _ d] by auto
qed (simp add: continuation_index_spec [OF assms])

theorem continuation_index_end_witness:
  "\<exists>c \<in> {VFloat (Fin 3), VFloat (Fin 4)}.
     continuation_index (ex_block [Fin 3, Fin 4] ''sand'') DECREASING = Inr (Some c) \<and> \<not> VFloat (Fin 3) < c \<and> \<not> VFloat (Fin 4) < c"
  using continuation_index_end [of "ex_block [Fin 3, Fin 4] ''sand''" 0 DECREASING]
  by (auto simp: ex_block_def good_index_def is_nan_def newer_than_def)

text \<open>
  C16. Merging the batches of a truncated answer succeeds when their headers agree and their
  indices compare, and gives a block with strictly ascending indices, without null indices, in
  which every index of the input occurs with the row written last.
\<close>

theorem merge_blocks_correct:
  assumes "bs \<noteq> []" "\<forall>b \<in> set bs. b_mnemonics b = [] \<or> b_mnemonics b = b_mnemonics (merge_head bs)"
    and "\<forall>r \<in> set (concat (map b_rows bs)). r \<noteq> []"
    and "\<forall>v \<in> set (keys_of (concat (map b_rows bs))). val_kind v = k \<and> \<not> is_nan v"
  shows "\<exists>m. merge_blocks bs = Inr m \<and> b_mnemonics m = b_mnemonics (merge_head bs) \<and>
     sorted_wrt (<) (keys_of (b_rows m)) \<and> all_indexed (b_rows m) \<and>
     set (indexed (b_rows m)) = {(i, r). last_write (concat (map b_rows bs)) i = Some r}"
  using merge_blocks_rows [OF assms] by metis

theorem merge_blocks_correct_witness:
  "\<exists>m. merge_blocks [ex_block [Fin 3, Fin 4] ''sand'', ex_block [Fin 4, Fin 5] ''shale''] = Inr m \<and>
     sorted_wrt (<) (keys_of (b_rows m)) \<and>
     (VFloat (Fin 4), [Some (VFloat (Fin 4)), Some (VStr ''shale'')]) \<in> set (indexed (b_rows m))"
  using merge_blocks_correct [of "[ex_block [Fin 3, Fin 4] ''sand'', ex_block [Fin 4, Fin 5] ''shale'']" 0]
  by (auto simp: ex_block_def is_nan_def merge_head_def last_write_def)

text \<open>
  Batches whose column headers disagree are never merged: the call raises ValueError.
\<close>

theorem merge_blocks_header_error:
  assumes "b \<in> set bs" "b_mnemonics b \<noteq> []" "b_mnemonics b \<noteq> b_mnemonics (merge_head bs)"
    "\<forall>b \<in> set bs. \<forall>r \<in> set (b_rows b). r \<noteq> []"
  shows "merge_blocks bs = Inl ValueError"
  using assms by (rule merge_blocks_header)

theorem merge_blocks_header_error_witness:
  "merge_blocks [ex_block [Fin 3] ''sand'', (ex_block [Fin 4] ''sand'')\<lparr>b_mnemonics := [''DEPT'']\<rparr>] = Inl ValueError"
  by (rule merge_blocks_header_error [of "(ex_block [Fin 4] ''sand'')\<lparr>b_mnemonics := [''DEPT'']\<rparr>"])
     (auto simp: ex_block_def merge_head_def)

end
