(* ===== verification/Parse.thy ===== *)
theory Parse
  imports Queries Polling
begin

text \<open>
  \<^verbatim>\<open>backend/app/witsml/parse.py\<close>: scalar coercion, the object parsers, the decoding of log data and
  the merge of sparse rows. Every object parser is the map of an element reader over the elements
  of its name, in document order.
\<close>

section \<open>Scalar coercion\<close>

definition to_tree :: "lxml \<Rightarrow> string \<Rightarrow> node res" where
  "to_tree lx xml = rbind (lx_recover lx xml) (\<lambda>r. case r of None \<Rightarrow> Inl AttributeError | Some n \<Rightarrow> Inr n)"

definition parse_bool :: "string option \<Rightarrow> bool option" where
  "parse_bool v = (case v of None \<Rightarrow> None | Some s \<Rightarrow> Some (lower (strip s) \<in> {''true'', ''1'', ''yes''}))"

definition parse_float :: "string option \<Rightarrow> pyfloat option" where
  "parse_float v = (case v of None \<Rightarrow> None | Some s \<Rightarrow> float_of_string (strip s))"

text \<open>Reading a timestamp; a trailing Z is UTC and a naive timestamp is read as UTC.\<close>

definition parse_dt :: "string \<Rightarrow> datetime option" where
  "parse_dt v = (let s = strip v in
     if s = [] then None
     else (case fromisoformat (if ends_with ''Z'' s then butlast s @ ''+00:00'' else s) of
             None \<Rightarrow> None | Some d \<Rightarrow> Some (DT True (dt_us d))))"

definition parse_datetime :: "string option \<Rightarrow> datetime option" where
  "parse_datetime v = (case v of None \<Rightarrow> None | Some s \<Rightarrow> parse_dt s)"

definition index_type_of :: "string option \<Rightarrow> IndexType" where
  "index_type_of v = (case or_none v of None \<Rightarrow> MEASURED_DEPTH | Some s \<Rightarrow>
     (let nrm = lower (strip s) in
      case find_first (\<lambda>it. it_value it = nrm) index_types of
        Some it \<Rightarrow> it
      | None \<Rightarrow> if contains ''time'' nrm then DATE_TIME
                else if contains ''depth'' nrm then MEASURED_DEPTH else OTHER))"

definition direction_of :: "string option \<Rightarrow> Direction" where
  "direction_of v = (case or_none v of None \<Rightarrow> INCREASING
     | Some s \<Rightarrow> if lower (strip s) = ''decreasing'' then DECREASING else INCREASING)"

definition parse_int :: "string option \<Rightarrow> int option res" where
  "parse_int v = (case v of None \<Rightarrow> Inr None
     | Some s \<Rightarrow> (case float_of_string (strip s) of
          None \<Rightarrow> Inr None
        | Some x \<Rightarrow> (case int_of_float x of
             Inr i \<Rightarrow> Inr (Some i)
           | Inl e \<Rightarrow> if e = ValueError then Inr None else Inl e)))"

abbreviation get_attr :: "node \<Rightarrow> string \<Rightarrow> string \<Rightarrow> string" where
  "get_attr n k d \<equiv> (case attr_get n k of None \<Rightarrow> d | Some v \<Rightarrow> v)"

section \<open>Objects\<close>

definition read_well :: "node \<Rightarrow> well" where
  "read_well n = \<lparr>w_uid = get_attr n ''uid'' '''', w_name = xml_text n ''name'', w_region = xml_text n ''region'',
     w_field = xml_text n ''field'', w_country = xml_text n ''country'', w_operator = xml_text n ''operator'',
     w_status = xml_text n ''statusWell'', w_time_zone = xml_text n ''timeZone'', w_wellbores = []\<rparr>"

definition parse_wells :: "lxml \<Rightarrow> string \<Rightarrow> well list res" where
  "parse_wells lx xml = rbind (to_tree lx xml) (\<lambda>rt. Inr (map read_well (xml_descendants rt ''well'')))"

definition read_wellbore :: "node \<Rightarrow> wellbore" where
  "read_wellbore n = \<lparr>wb_uid = get_attr n ''uid'' '''', wb_uid_well = get_attr n ''uidWell'' '''',
     wb_name = xml_text n ''name'', wb_name_well = xml_text n ''nameWell'', wb_status = xml_text n ''statusWellbore'',
     wb_parent_uid = None\<rparr>"

definition parse_wellbores :: "lxml \<Rightarrow> string \<Rightarrow> wellbore list res" where
  "parse_wellbores lx xml = rbind (to_tree lx xml) (\<lambda>rt. Inr (map read_wellbore (xml_descendants rt ''wellbore'')))"

definition read_curve_info :: "node \<Rightarrow> log_curve_info" where
  "read_curve_info n = \<lparr>lci_uid = or_none (attr_get n ''uid''), lci_mnemonic = or_str (xml_text n ''mnemonic'') '''',
     lci_unit = xml_text n ''unit'', lci_curve_description = xml_text n ''curveDescription'',
     lci_null_value = xml_text n ''nullValue'', lci_type_log_data = xml_text n ''typeLogData'',
     lci_min_index = parse_float (xml_text n ''minIndex''), lci_max_index = parse_float (xml_text n ''maxIndex''),
     lci_min_datetime_index = parse_datetime (xml_text n ''minDateTimeIndex''),
     lci_max_datetime_index = parse_datetime (xml_text n ''maxDateTimeIndex'')\<rparr>"

definition read_log_header :: "node \<Rightarrow> log_header" where
  "read_log_header n = \<lparr>lh_uid = get_attr n ''uid'' '''', lh_uid_well = get_attr n ''uidWell'' '''',
     lh_uid_wellbore = get_attr n ''uidWellbore'' '''', lh_name = xml_text n ''name'',
     lh_name_well = xml_text n ''nameWell'', lh_name_wellbore = xml_text n ''nameWellbore'',
     lh_index_type = index_type_of (xml_text n ''indexType''), lh_index_curve = xml_text n ''indexCurve'',
     lh_direction = direction_of (xml_text n ''direction''),
     lh_object_growing = parse_bool (xml_text n ''objectGrowing''), lh_null_value = xml_text n ''nullValue'',
     lh_index_uom = attr_uom n ''startIndex'',
     lh_start_index = parse_float (xml_text n ''startIndex''), lh_end_index = parse_float (xml_text n ''endIndex''),
     lh_start_datetime_index = parse_datetime (xml_text n ''startDateTimeIndex''),
     lh_end_datetime_index = parse_datetime (xml_text n ''endDateTimeIndex''),
     lh_curves = map read_curve_info (xml_children n ''logCurveInfo'')\<rparr>"

definition parse_log_headers :: "lxml \<Rightarrow> string \<Rightarrow> log_header list res" where
  "parse_log_headers lx xml = rbind (to_tree lx xml) (\<lambda>rt. Inr (map read_log_header (xml_descendants rt ''log'')))"

section \<open>Log data\<close>

record LogDataResult =
  ldr_uid :: string
  ldr_uid_well :: string
  ldr_uid_wellbore :: string
  ldr_index_type :: IndexType
  ldr_block :: log_data_block

definition null_tokens :: "node \<Rightarrow> string option \<Rightarrow> string list" where
  "null_tokens log_el header_null = COMMON_NULL_SENTINELS @
     (case or_none (case xml_text log_el ''nullValue'' of None \<Rightarrow> header_null | Some t \<Rightarrow> Some t) of
        None \<Rightarrow> [] | Some t \<Rightarrow> [strip t])"

definition decode_cell :: "string \<Rightarrow> bool \<Rightarrow> IndexType \<Rightarrow> string list \<Rightarrow> cell" where
  "decode_cell raw is_index index_type nulls = (let val = strip raw in
     if val \<in> set nulls \<or> val = [] then None
     else if is_index \<and> is_time index_type then map_option VDt (parse_datetime (Some val))
     else (case parse_float (Some val) of Some x \<Rightarrow> Some (VFloat x) | None \<Rightarrow> Some (VStr val)))"

definition decode_row :: "IndexType \<Rightarrow> string list \<Rightarrow> string \<Rightarrow> row" where
  "decode_row itype nulls t = map (\<lambda>(col, raw). decode_cell raw (col = 0) itype nulls)
     (enumerate 0 (split_on (CHR '','') t))"

text \<open>One log element; \<^const>\<open>None\<close> where the loop continues without a result.\<close>

definition read_log_data :: "IndexType option \<Rightarrow> string option \<Rightarrow> node \<Rightarrow> LogDataResult option" where
  "read_log_data index_type header_null log_el = (case xml_first log_el ''logData'' of
      None \<Rightarrow> None
    | Some ld \<Rightarrow> (case or_none (xml_text ld ''mnemonicList'') of
        None \<Rightarrow> None
      | Some mnem_list \<Rightarrow>
          (let mnemonics = map strip (split_on (CHR '','') mnem_list);
               us = (case or_none (xml_text ld ''unitList'') of
                       Some unit_list \<Rightarrow> map (\<lambda>u. or_none (Some (strip u))) (split_on (CHR '','') unit_list)
                     | None \<Rightarrow> replicate (length mnemonics) None);
               units = us @ replicate (length mnemonics - length us) None;
               itype = (case index_type of Some t \<Rightarrow> t | None \<Rightarrow> index_type_of (xml_text log_el ''indexType''));
               nulls = null_tokens log_el header_null;
               rows = concat (map (\<lambda>d. case node_text d of None \<Rightarrow> [] | Some t \<Rightarrow> [decode_row itype nulls t])
                        (xml_children ld ''data''))
           in Some \<lparr>ldr_uid = get_attr log_el ''uid'' '''', ldr_uid_well = get_attr log_el ''uidWell'' '''',
                ldr_uid_wellbore = get_attr log_el ''uidWellbore'' '''', ldr_index_type = itype,
                ldr_block = \<lparr>b_mnemonics = mnemonics, b_units = units, b_index_type = itype, b_rows = rows\<rparr>\<rparr>)))"

definition parse_log_data :: "lxml \<Rightarrow> string \<Rightarrow> IndexType option \<Rightarrow> string option \<Rightarrow> LogDataResult list res" where
  "parse_log_data lx xml index_type header_null = rbind (to_tree lx xml) (\<lambda>rt.
     Inr (List.map_filter (read_log_data index_type header_null) (xml_descendants rt ''log'')))"

section \<open>Sparse rows\<close>

text \<open>
  \<^verbatim>\<open>dense[col] = row[col]\<close> for the columns from 1 on. The row of an index has \<^verbatim>\<open>[idx] + [None] * (width - 1)\<close>
  cells, the index alone when the block has no columns.
\<close>

definition fill_dense :: "nat \<Rightarrow> row \<Rightarrow> row \<Rightarrow> row" where
  "fill_dense width row dense = fold (\<lambda>col d. case cell_at row col of None \<Rightarrow> d | Some v \<Rightarrow> d[col := Some v])
     [1..<width] dense"

definition sparse_step :: "nat \<Rightarrow> row \<Rightarrow> (pyval \<times> row) list \<Rightarrow> (pyval \<times> row) list res" where
  "sparse_step width row by_index = rbind (row_index row) (\<lambda>c. case c of
      None \<Rightarrow> Inr by_index
    | Some idx \<Rightarrow>
        (let dense = (case dget idx by_index of Some d \<Rightarrow> d | None \<Rightarrow> Some idx # replicate (width - 1) None)
         in Inr (dput idx (fill_dense width row dense) by_index)))"

definition merge_sparse_rows :: "log_data_block \<Rightarrow> log_data_block res" where
  "merge_sparse_rows block =
     rbind (rfold (sparse_step (length (b_mnemonics block))) (b_rows block) []) (\<lambda>by_index.
     rbind (val_sort fst by_index) (\<lambda>srt.
     Inr \<lparr>b_mnemonics = b_mnemonics block, b_units = b_units block, b_index_type = b_index_type block,
          b_rows = map snd srt\<rparr>))"

section \<open>mudLogs\<close>

definition read_lithology :: "node \<Rightarrow> lithology" where
  "read_lithology n = \<lparr>lith_uid = or_none (attr_get n ''uid''), lith_type = xml_text n ''type'',
     lith_code_lith = xml_text n ''codeLith'', lith_lith_pc = parse_float (xml_text n ''lithPc''),
     lith_description = xml_text n ''description'', lith_color = xml_text n ''color''\<rparr>"

definition read_interval :: "node \<Rightarrow> geology_interval" where
  "read_interval n = \<lparr>gi_uid = or_none (attr_get n ''uid''), gi_type_lithology = xml_text n ''typeLithology'',
     gi_md_top = parse_float (xml_text n ''mdTop''), gi_md_bottom = parse_float (xml_text n ''mdBottom''),
     gi_md_uom = (case or_none (attr_uom n ''mdTop'') of Some u \<Rightarrow> Some u | None \<Rightarrow> attr_uom n ''mdBottom''),
     gi_lithologies = map read_lithology (xml_children n ''lithology''), gi_description = xml_text n ''description''\<rparr>"

definition read_mudlog :: "node \<Rightarrow> mud_log" where
  "read_mudlog n = \<lparr>ml_uid = get_attr n ''uid'' '''', ml_uid_well = get_attr n ''uidWell'' '''',
     ml_uid_wellbore = get_attr n ''uidWellbore'' '''', ml_name = xml_text n ''name'',
     ml_name_well = xml_text n ''nameWell'', ml_name_wellbore = xml_text n ''nameWellbore'',
     ml_object_growing = parse_bool (xml_text n ''objectGrowing''),
     ml_geology_intervals = map read_interval (xml_children n ''geologyInterval'')\<rparr>"

definition parse_mudlogs :: "lxml \<Rightarrow> string \<Rightarrow> mud_log list res" where
  "parse_mudlogs lx xml = rbind (to_tree lx xml) (\<lambda>rt. Inr (map read_mudlog (xml_descendants rt ''mudLog'')))"

section \<open>Capabilities\<close>

record ServerCap =
  cap_name :: "string option"
  cap_version :: "string option"
  cap_growing_timeout_period :: "int option"
  cap_change_detection_period :: "int option"
  cap_max_request_latest_values :: "int option"
  cap_supported_objects :: "(string \<times> string set) list"
  cap_raw :: "string option"

definition function_objects :: "node \<Rightarrow> string set" where
  "function_objects fn =
     ((\<lambda>o'. or_str (xml_text o' ''dataObject'') (or_str (node_text o') '''')) ` set (xml_children fn ''dataObject'')
      \<union> (\<lambda>o'. strip (or_str (node_text o') '''')) ` set (xml_descendants fn ''dataObject'')) - {''''}"

definition parse_cap :: "lxml \<Rightarrow> string \<Rightarrow> ServerCap res" where
  "parse_cap lx xml = rbind (to_tree lx xml) (\<lambda>rt.
     case xml_descendants rt ''capServer'' of
       [] \<Rightarrow> Inr \<lparr>cap_name = None, cap_version = None, cap_growing_timeout_period = None,
           cap_change_detection_period = None, cap_max_request_latest_values = None,
           cap_supported_objects = [], cap_raw = Some (lx_tostring lx rt)\<rparr>
     | server # _ \<Rightarrow>
         rbind (parse_int (xml_text server ''growingTimeoutPeriod'')) (\<lambda>gt.
         rbind (parse_int (xml_text server ''changeDetectionPeriod'')) (\<lambda>cd.
         rbind (parse_int (xml_text server ''maxRequestLatestValues'')) (\<lambda>ml.
         Inr \<lparr>cap_name = xml_text server ''name'',
           cap_version = (case or_none (attr_get server ''apiVers'') of Some v \<Rightarrow> Some v | None \<Rightarrow> xml_text server ''apiVers''),
           cap_growing_timeout_period = gt, cap_change_detection_period = cd, cap_max_request_latest_values = ml,
           cap_supported_objects = fold (\<lambda>fn d. AList.update (or_str (attr_get fn ''name'') '''') (function_objects fn) d)
              (xml_descendants server ''function'') [],
           cap_raw = Some (lx_tostring lx rt)\<rparr>))))"


section \<open>Lemmas on the scalars\<close>

lemma parse_dt_strftime:
  assumes "four_digit_year us"
  shows "parse_dt (strftime_ms us) = Some (DT True (trunc_ms us))"
proof -
  have "ends_with ''Z'' (strftime_ms us)"
    using strftime_ms_last [of us] by (cases "strftime_ms us" rule: rev_cases) (auto simp: ends_with_def)
  then show ?thesis
    using fromisoformat_strftime [OF assms] strftime_ms_strip [OF assms] strftime_ms_last(2) [of us]
    by (simp add: parse_dt_def)
qed

lemma index_type_of_value [simp]: "index_type_of (Some (it_value it)) = it"
  by (cases it; simp only:; code_simp)

lemma direction_of_value [simp]: "direction_of (Some (dir_value d)) = d"
  by (cases d; simp only:; code_simp)

lemma float_of_string_Nil [simp]: "float_of_string [] = None"
  by code_simp

lemma float_of_string_strip [simp]: "float_of_string (strip s) = float_of_string s"
  by (simp add: float_of_string_def)

section \<open>merge_sparse_rows\<close>

text \<open>The reference: the last value a column has at an index, over the rows in order.\<close>

definition column_value :: "row list \<Rightarrow> pyval \<Rightarrow> nat \<Rightarrow> cell" where
  "column_value rs k c = fold (\<lambda>r acc. if cell_at r 0 = Some k \<and> cell_at r c \<noteq> None then cell_at r c else acc) rs None"

definition dense_row :: "nat \<Rightarrow> row list \<Rightarrow> pyval \<Rightarrow> row" where
  "dense_row width rs k = Some k # map (column_value rs k) [1..<width]"

lemma column_value_snoc:
  "column_value (rs @ [r]) k c =
     (if cell_at r 0 = Some k \<and> cell_at r c \<noteq> None then cell_at r c else column_value rs k c)"
  by (simp add: column_value_def del: not_None_eq)

lemma column_value_None: "k \<notin> set (keys_of rs) \<Longrightarrow> column_value rs k c = None"
proof (induction rs rule: rev_induct)
  case (snoc r rs)
  have "cell_at r 0 \<noteq> Some k" using snoc.prems by (cases r) (auto simp: cell_at_def)
  moreover have "k \<notin> set (keys_of rs)" using snoc.prems by simp
  ultimately show ?case using snoc.IH by (simp add: column_value_snoc)
qed (simp add: column_value_def)

lemma length_fill: "length (fill_dense w row d) = length d"
proof -
  have "length (fold (\<lambda>col d. case cell_at row col of None \<Rightarrow> d | Some v \<Rightarrow> d[col := Some v]) cs d) = length d" for cs
    by (induction cs arbitrary: d) (auto split: option.splits)
  then show ?thesis by (simp add: fill_dense_def)
qed

lemma nth_fill:
  assumes "j < length d"
  shows "fill_dense w row d ! j = (if 1 \<le> j \<and> j < w \<and> cell_at row j \<noteq> None then cell_at row j else d ! j)"
proof -
  have "fold (\<lambda>col d. case cell_at row col of None \<Rightarrow> d | Some v \<Rightarrow> d[col := Some v]) cs d ! j =
      (if j \<in> set cs \<and> cell_at row j \<noteq> None then cell_at row j else d ! j)" if "j < length d" for cs d
    using that
  proof (induction cs arbitrary: d)
    case (Cons c cs)
    then show ?case by (cases "cell_at row c"; cases "c = j") auto
  qed simp
  from this [OF assms, of "[1..<w]"] show ?thesis by (simp add: fill_dense_def)
qed

lemma fill_dense_row:
  assumes "cell_at row 0 = Some k"
  shows "fill_dense w row (dense_row w rs k) = dense_row w (rs @ [row]) k"
proof (rule nth_equalityI)
  show "length (fill_dense w row (dense_row w rs k)) = length (dense_row w (rs @ [row]) k)"
    by (simp add: length_fill dense_row_def)
  fix j assume "j < length (fill_dense w row (dense_row w rs k))"
  then have j: "j < length (dense_row w rs k)" by (simp add: length_fill)
  show "fill_dense w row (dense_row w rs k) ! j = dense_row w (rs @ [row]) k ! j"
    unfolding nth_fill [OF j] using j assms
    by (cases j) (auto simp: dense_row_def column_value_snoc)
qed

lemma dense_row_other: "cell_at r 0 \<noteq> Some k \<Longrightarrow> dense_row w (rs @ [r]) k = dense_row w rs k"
  by (simp add: dense_row_def column_value_snoc)

lemma dense_row_fresh: "k \<notin> set (keys_of rs) \<Longrightarrow> dense_row w rs k = Some k # replicate (w - 1) None"
proof -
  assume "k \<notin> set (keys_of rs)"
  then have "column_value rs k = (\<lambda>c. None)" by (intro ext) (rule column_value_None)
  then show ?thesis by (simp add: dense_row_def map_replicate_const)
qed

lemma sparse_loop:
  assumes "\<forall>r \<in> set rs. r \<noteq> []" "\<forall>k \<in> set (keys_of rs). \<not> is_nan k"
  shows "\<exists>d. rfold (sparse_step w) rs [] = Inr d \<and> distinct (map fst d) \<and>
    map_of d = (\<lambda>k. if k \<in> set (keys_of rs) then Some (dense_row w rs k) else None)"
  using assms
proof (induction rs rule: rev_induct)
  case (snoc r rs)
  then obtain d where d: "rfold (sparse_step w) rs [] = Inr d" "distinct (map fst d)"
    "map_of d = (\<lambda>k. if k \<in> set (keys_of rs) then Some (dense_row w rs k) else None)" by auto
  from snoc.prems obtain c cs where r: "r = c # cs" by (cases r) auto
  show ?case
  proof (cases c)
    case None
    then have "sparse_step w r d = Inr d" "cell_at r 0 = None" by (simp_all add: sparse_step_def r cell_at_def)
    moreover from this have "dense_row w (rs @ [r]) = dense_row w rs" by (intro ext) (simp add: dense_row_other)
    ultimately show ?thesis using d r None by (simp add: rfold_append cong: if_cong)
  next
    case (Some k)
    then have k: "\<not> is_nan k" and c0: "cell_at r 0 = Some k" using snoc.prems r by (auto simp: cell_at_def)
    let ?dense = "case dget k d of Some x \<Rightarrow> x | None \<Rightarrow> Some k # replicate (w - 1) None"
    have "?dense = dense_row w rs k" using d(3) dense_row_fresh by (simp add: dget_map_of [OF k])
    then have "sparse_step w r d = Inr (AList.update k (dense_row w (rs @ [r]) k) d)"
      by (simp add: sparse_step_def r Some dput_update [OF k] fill_dense_row [OF c0, unfolded r Some])
    moreover have "dense_row w (rs @ [r]) j = dense_row w rs j" if "j \<noteq> k" for j
      using that c0 by (simp add: dense_row_other)
    ultimately show ?thesis
      using d by (auto simp: rfold_append distinct_update r Some fun_eq_iff)
  qed
qed (simp add: fun_eq_iff)

lemma merge_sparse_dense:
  assumes rows: "\<forall>r \<in> set (b_rows b). r \<noteq> []"
    and good: "\<forall>v \<in> set (keys_of (b_rows b)). val_kind v = k \<and> \<not> is_nan v"
  shows "merge_sparse_rows b = Inr (b\<lparr>b_rows :=
     map (dense_row (length (b_mnemonics b)) (b_rows b)) (sorted_list_of_set (set (keys_of (b_rows b))))\<rparr>)"
proof -
  let ?w = "length (b_mnemonics b)" and ?rs = "b_rows b"
  obtain d where d: "rfold (sparse_step ?w) ?rs [] = Inr d" "distinct (map fst d)"
    "map_of d = (\<lambda>k. if k \<in> set (keys_of ?rs) then Some (dense_row ?w ?rs k) else None)"
    using sparse_loop [of ?rs ?w] rows good by auto
  have keys: "fst ` set d = set (keys_of ?rs)"
    using d(3) by (simp flip: dom_map_of_conv_image_fst) (auto simp: dom_def)
  have cmp: "comparable (map fst d)" using good keys by (auto simp: comparable_iff)
  let ?o = "sort_key fst d"
  have fs: "map fst ?o = sorted_list_of_set (set (keys_of ?rs))"
    using d(2) keys by (intro sorted_distinct_set_unique) (simp_all add: distinct_map)
  have "snd p = dense_row ?w ?rs (fst p)" if "p \<in> set ?o" for p
  proof -
    from that d(2) have "map_of d (fst p) = Some (snd p)" by simp
    then show ?thesis unfolding d(3) by (simp split: if_splits)
  qed
  then have "map snd ?o = map (dense_row ?w ?rs) (map fst ?o)" by simp
  with fs d(1) cmp show ?thesis
    by (cases b) (simp add: merge_sparse_rows_def val_sort_def)
qed

section \<open>Properties\<close>

text \<open>
  C15. Merging sparse rows: the result has one row per index, in ascending order; its first cell is
  the index and every other column holds the last value that column had at that index in the input,
  or nothing if it never had one. Everything else of the block is kept.
\<close>

theorem merge_sparse_rows_correct:
  assumes "\<forall>r \<in> set (b_rows b). r \<noteq> []" "\<forall>v \<in> set (keys_of (b_rows b)). val_kind v = k \<and> \<not> is_nan v"
  shows "merge_sparse_rows b = Inr (b\<lparr>b_rows :=
     map (dense_row (length (b_mnemonics b)) (b_rows b)) (sorted_list_of_set (set (keys_of (b_rows b))))\<rparr>)"
  using assms by (rule merge_sparse_dense)

definition ex_sparse :: log_data_block where
  "ex_sparse = \<lparr>b_mnemonics = [''DEPT'', ''ROP'', ''WOB''], b_units = [None, None, None], b_index_type = MEASURED_DEPTH,
     b_rows = [[Some (VFloat (Fin 2)), Some (VFloat (Fin 7)), None], [Some (VFloat (Fin 1)), None, Some (VFloat (Fin 5))],
       [Some (VFloat (Fin 2)), None, Some (VFloat (Fin 9))]]\<rparr>"

theorem merge_sparse_rows_correct_witness:
  "merge_sparse_rows ex_sparse = Inr (ex_sparse\<lparr>b_rows := [[Some (VFloat (Fin 1)), None, Some (VFloat (Fin 5))],
     [Some (VFloat (Fin 2)), Some (VFloat (Fin 7)), Some (VFloat (Fin 9))]]\<rparr>)"
proof -
  have "merge_sparse_rows ex_sparse = Inr (ex_sparse\<lparr>b_rows :=
     map (dense_row (length (b_mnemonics ex_sparse)) (b_rows ex_sparse)) (sorted_list_of_set (set (keys_of (b_rows ex_sparse))))\<rparr>)"
    by (rule merge_sparse_rows_correct [where k = 0]) (auto simp: ex_sparse_def is_nan_def)
  moreover have "sorted_list_of_set (set (keys_of (b_rows ex_sparse))) = [VFloat (Fin 1), VFloat (Fin 2)]" by code_simp
  moreover have "map (dense_row (length (b_mnemonics ex_sparse)) (b_rows ex_sparse)) [VFloat (Fin 1), VFloat (Fin 2)] =
     [[Some (VFloat (Fin 1)), None, Some (VFloat (Fin 5))], [Some (VFloat (Fin 2)), Some (VFloat (Fin 7)), Some (VFloat (Fin 9))]]"
    by code_simp
  ultimately show ?thesis by simp
qed

text \<open>
  C31. A timestamp the query builder writes is read back by the parser as the same UTC instant, cut
  to whole milliseconds, for every instant whose year has four digits; naive instants are UTC.
\<close>

theorem timestamp_roundtrip:
  assumes "four_digit_year (dt_us d)" "iso_utc (VDt d) = Inr t"
  shows "parse_datetime (Some t) = Some (DT True (trunc_ms (dt_us d)))"
  using assms parse_dt_strftime by (auto simp: parse_datetime_def)

theorem timestamp_roundtrip_witness:
  "parse_datetime (Some ''2024-02-29T12:30:45.678Z'') = Some (DT True 1709209845678000)"
proof -
  have "iso_utc (VDt (DT True 1709209845678999)) = Inr ''2024-02-29T12:30:45.678Z''" by code_simp
  from timestamp_roundtrip [OF _ this] show ?thesis
    by (simp add: four_digit_year_def trunc_ms_def usec_of_def ymd2ord_def days_before_month_def days_before_year_def epoch_ord_def)
qed

end
