(* ===== verification/Client.thy ===== *)
theory Client
  imports Parse
begin

text \<open>
  \<^verbatim>\<open>backend/app/witsml/client.py\<close>: the gateway over the SOAP service. zeep and the transport are the
  parameter \<open>service\<close>: each WMLS operation takes the state of the other side and returns a response or
  an exception with the new state. A response is a plain text, a sequence or an object with named
  parts, as the code allows for; \<^verbatim>\<open>str()\<close> of an object is part of the parameter. The connection
  objects, which the class creates lazily and drops on close, carry no other state.
\<close>

section \<open>Responses\<close>

datatype pyobj = ONone | OInt int | OStr string

datatype response = RStr string | RSeq "pyobj list" | RObj "(string \<times> pyobj) list"

record 's service =
  svc_get_version :: "'s \<Rightarrow> response res \<times> 's"
  svc_get_cap :: "string \<Rightarrow> 's \<Rightarrow> response res \<times> 's"
  svc_get_from_store :: "string \<Rightarrow> string \<Rightarrow> string \<Rightarrow> string \<Rightarrow> 's \<Rightarrow> response res \<times> 's"
  svc_add_to_store :: "string \<Rightarrow> string \<Rightarrow> string \<Rightarrow> 's \<Rightarrow> response res \<times> 's"
  svc_update_in_store :: "string \<Rightarrow> string \<Rightarrow> string \<Rightarrow> 's \<Rightarrow> response res \<times> 's"
  svc_delete_from_store :: "string \<Rightarrow> string \<Rightarrow> string \<Rightarrow> 's \<Rightarrow> response res \<times> 's"
  svc_get_base_msg :: "int \<Rightarrow> 's \<Rightarrow> response res \<times> 's"
  svc_str :: "response \<Rightarrow> string"

text \<open>A step that can fail and changes the state of the other side; after an exception the steps stop.\<close>

type_synonym ('a, 's) act = "'s \<Rightarrow> 'a res \<times> 's"

definition sbind :: "('a, 's) act \<Rightarrow> ('a \<Rightarrow> ('b, 's) act) \<Rightarrow> ('b, 's) act" where
  "sbind m f s = (case m s of (Inl e, s') \<Rightarrow> (Inl e, s') | (Inr v, s') \<Rightarrow> f v s')"

definition lift_res :: "'a res \<Rightarrow> ('a, 's) act" where
  "lift_res r s = (r, s)"

definition part :: "response \<Rightarrow> string \<Rightarrow> pyobj" where
  "part r name = (case r of RObj ps \<Rightarrow> (case map_of ps name of None \<Rightarrow> ONone | Some v \<Rightarrow> v) | _ \<Rightarrow> ONone)"

definition item :: "pyobj list \<Rightarrow> nat \<Rightarrow> pyobj" where
  "item xs i = (if i < length xs then xs ! i else ONone)"

fun as_int :: "pyobj \<Rightarrow> int option" where
  "as_int ONone = None"
| "as_int (OInt i) = Some i"
| "as_int (OStr s) = int_of_string s"

fun as_str :: "pyobj \<Rightarrow> string option" where
  "as_str ONone = None"
| "as_str (OInt i) = Some (show_int i)"
| "as_str (OStr s) = Some s"

text \<open>The first of several names whose part is not None.\<close>

fun first_part :: "response \<Rightarrow> string list \<Rightarrow> pyobj" where
  "first_part r [] = ONone"
| "first_part r (n # ns) = (if part r n = ONone then first_part r ns else part r n)"

definition result_triple :: "response \<Rightarrow> int option \<times> string option \<times> string option" where
  "result_triple r = (case r of
      RSeq xs \<Rightarrow> (as_int (item xs 0), as_str (item xs 1), as_str (item xs 2))
    | _ \<Rightarrow> (as_int (first_part r [''Result'', ''result'']),
            as_str (first_part r [''XMLout'', ''xmlOut'', ''CapabilitiesOut'', ''capabilitiesOut'']),
            as_str (first_part r [''SuppMsgOut'', ''suppMsgOut''])))"

text \<open>Here the lower-case name is only the default for a missing attribute.\<close>

definition part_or :: "response \<Rightarrow> string \<Rightarrow> string \<Rightarrow> pyobj" where
  "part_or r n n' = (case r of
      RObj ps \<Rightarrow> (case map_of ps n of Some v \<Rightarrow> v | None \<Rightarrow> part r n') | _ \<Rightarrow> ONone)"

definition result_pair :: "response \<Rightarrow> int option \<times> string option" where
  "result_pair r = (case r of
      RSeq xs \<Rightarrow> (as_int (item xs 0), as_str (item xs 1))
    | _ \<Rightarrow> (as_int (part_or r ''Result'' ''result''), as_str (part_or r ''SuppMsgOut'' ''suppMsgOut'')))"

section \<open>Operations\<close>

definition get_version :: "'s service \<Rightarrow> (string, 's) act" where
  "get_version svc = sbind (svc_get_version svc) (\<lambda>r. lift_res (Inr (case r of
      RStr s \<Rightarrow> s
    | _ \<Rightarrow> or_str (or_none (as_str (part r ''Result''))) (svc_str svc r))))"

definition get_base_msg :: "'s service \<Rightarrow> int \<Rightarrow> 's \<Rightarrow> string option \<times> 's" where
  "get_base_msg svc code s = (case svc_get_base_msg svc code s of
      (Inl e, s') \<Rightarrow> (None, s')
    | (Inr (RStr t), s') \<Rightarrow> (or_none (Some t), s')
    | (Inr r, s') \<Rightarrow> (Some (or_str (as_str (part r ''Result'')) (svc_str svc r)), s'))"

definition witsml_error :: "'s service \<Rightarrow> int option \<Rightarrow> string option \<Rightarrow> 's \<Rightarrow> exn \<times> 's" where
  "witsml_error svc code supp s =
     (let (base, s') = (case code of None \<Rightarrow> (None, s) | Some c \<Rightarrow> get_base_msg svc c s);
          parts = concat (map (\<lambda>p. case or_none p of None \<Rightarrow> [] | Some t \<Rightarrow> [t]) [base, supp])
      in (WitsmlError code (join '' | '' parts), s'))"

definition get_cap :: "lxml \<Rightarrow> 's service \<Rightarrow> (ServerCap, 's) act" where
  "get_cap lx svc = sbind (svc_get_cap svc get_cap_options) (\<lambda>r s.
     let (result, xml_out, supp) = result_triple r in
     if is_error result then (let (e, s') = witsml_error svc result supp s in (Inl e, s'))
     else (parse_cap lx (or_str xml_out ''''), s))"

abbreviation or_zero :: "int option \<Rightarrow> int" where
  "or_zero r \<equiv> (case r of None \<Rightarrow> 0 | Some n \<Rightarrow> n)"

definition get_from_store :: "'s service \<Rightarrow> string \<Rightarrow> string \<Rightarrow> string \<Rightarrow> (int \<times> string option \<times> string option, 's) act" where
  "get_from_store svc wml_type query_xml opts = sbind (svc_get_from_store svc wml_type query_xml opts '''') (\<lambda>r.
     let (result, xml_out, supp) = result_triple r in lift_res (Inr (or_zero result, xml_out, supp)))"

definition add_to_store :: "'s service \<Rightarrow> string \<Rightarrow> string \<Rightarrow> string \<Rightarrow> (int \<times> string option, 's) act" where
  "add_to_store svc wml_type xml_in opts = sbind (svc_add_to_store svc wml_type xml_in opts) (\<lambda>r.
     let (result, supp) = result_pair r in lift_res (Inr (or_zero result, supp)))"

definition update_in_store :: "'s service \<Rightarrow> string \<Rightarrow> string \<Rightarrow> string \<Rightarrow> (int \<times> string option, 's) act" where
  "update_in_store svc wml_type xml_in opts = sbind (svc_update_in_store svc wml_type xml_in opts) (\<lambda>r.
     let (result, supp) = result_pair r in lift_res (Inr (or_zero result, supp)))"

definition delete_from_store :: "'s service \<Rightarrow> string \<Rightarrow> string \<Rightarrow> string \<Rightarrow> (int \<times> string option, 's) act" where
  "delete_from_store svc wml_type query_xml opts = sbind (svc_delete_from_store svc wml_type query_xml opts) (\<lambda>r.
     let (result, supp) = result_pair r in lift_res (Inr (or_zero result, supp)))"

section \<open>The +2 loop\<close>

record loop_state =
  ls_blocks :: "log_data_block list"
  ls_cursor :: "pyval option"
  ls_last_index :: "pyval option"
  ls_index_type :: IndexType
  ls_uid :: string
  ls_uid_well :: string
  ls_uid_wellbore :: string

record log_request =
  lr_uid_well :: string
  lr_uid_wellbore :: string
  lr_uid :: string
  lr_mnemonics :: "string list"
  lr_index_type :: IndexType
  lr_direction :: Direction
  lr_start :: "pyval option"
  lr_end :: "pyval option"
  lr_index_uom :: "string option"
  lr_max_return_nodes :: "int option"

definition MAX_TRUNCATION_ITERATIONS :: nat where "MAX_TRUNCATION_ITERATIONS = 1000"

text \<open>Taking over a batch: the block, the identity the server reported and the resume index.\<close>

definition take_batch :: "Direction \<Rightarrow> LogDataResult list \<Rightarrow> loop_state \<Rightarrow> (loop_state \<times> pyval option) res" where
  "take_batch d batch st = (case batch of
      [] \<Rightarrow> Inr (st, None)
    | first # _ \<Rightarrow> rbind (continuation_index (ldr_block first) d) (\<lambda>nxt.
        Inr (st\<lparr>ls_blocks := ls_blocks st @ [ldr_block first], ls_index_type := ldr_index_type first,
                ls_uid := or_str (Some (ldr_uid first)) (ls_uid st),
                ls_uid_well := or_str (Some (ldr_uid_well first)) (ls_uid_well st),
                ls_uid_wellbore := or_str (Some (ldr_uid_wellbore first)) (ls_uid_wellbore st)\<rparr>, nxt)))"

definition same_index :: "pyval \<Rightarrow> pyval option \<Rightarrow> bool" where
  "same_index v l = (case l of None \<Rightarrow> False | Some w \<Rightarrow> val_eq v w)"

text \<open>
  One iteration: a query from the cursor, the error check, the batch. The flag of the result tells
  whether the loop goes on.
\<close>

definition fetch_batch :: "lxml \<Rightarrow> 's service \<Rightarrow> log_request \<Rightarrow> pyval option \<Rightarrow> (int \<times> LogDataResult list, 's) act" where
  "fetch_batch lx svc rq cursor = sbind (lift_res (log_data_query lx (lr_uid_well rq) (lr_uid_wellbore rq) (lr_uid rq)
       (lr_mnemonics rq) (lr_index_type rq) cursor (lr_end rq) (lr_index_uom rq) (lr_max_return_nodes rq))) (\<lambda>q.
     sbind (get_from_store svc (qq_wml_type q) (qq_query_xml q) (qq_options_in q)) (\<lambda>(result, xml_out, supp) s.
       if is_error (Some result) then (let (e, s') = witsml_error svc (Some result) supp s in (Inl e, s'))
       else (rbind (parse_log_data lx (or_str xml_out '''') (Some (lr_index_type rq)) None) (\<lambda>b. Inr (result, b)), s)))"

definition after_batch :: "log_request \<Rightarrow> int \<Rightarrow> LogDataResult list \<Rightarrow> loop_state \<Rightarrow> (loop_state \<times> bool) res" where
  "after_batch rq result batch st = rbind (take_batch (lr_direction rq) batch st) (\<lambda>(st', nxt).
     if \<not> is_truncated (Some result) then Inr (st', False)
     else (case nxt of
        None \<Rightarrow> Inr (st', False)
      | Some v \<Rightarrow> if same_index v (ls_last_index st') then Inr (st', False)
          else Inr (st'\<lparr>ls_last_index := Some v, ls_cursor := Some v\<rparr>, True)))"

fun fetch_loop :: "nat \<Rightarrow> lxml \<Rightarrow> 's service \<Rightarrow> log_request \<Rightarrow> loop_state \<Rightarrow> (loop_state, 's) act" where
  "fetch_loop 0 lx svc rq st = lift_res (Inr st)"
| "fetch_loop (Suc n) lx svc rq st =
     sbind (fetch_batch lx svc rq (ls_cursor st)) (\<lambda>(result, batch).
     sbind (lift_res (after_batch rq result batch st)) (\<lambda>(st', go_on).
       if go_on then fetch_loop n lx svc rq st' else lift_res (Inr st')))"

definition init_loop :: "log_request \<Rightarrow> loop_state" where
  "init_loop rq = \<lparr>ls_blocks = [], ls_cursor = lr_start rq, ls_last_index = None, ls_index_type = lr_index_type rq,
     ls_uid = lr_uid rq, ls_uid_well = lr_uid_well rq, ls_uid_wellbore = lr_uid_wellbore rq\<rparr>"

definition finish_loop :: "log_request \<Rightarrow> loop_state \<Rightarrow> LogDataResult res" where
  "finish_loop rq st = rbind
     (if ls_blocks st \<noteq> [] then merge_blocks (ls_blocks st)
      else Inr \<lparr>b_mnemonics = lr_mnemonics rq, b_units = replicate (length (lr_mnemonics rq)) None,
                b_index_type = ls_index_type st, b_rows = []\<rparr>) (\<lambda>merged.
     Inr \<lparr>ldr_uid = ls_uid st, ldr_uid_well = ls_uid_well st, ldr_uid_wellbore = ls_uid_wellbore st,
          ldr_index_type = ls_index_type st, ldr_block = merged\<rparr>)"

definition get_log_data :: "lxml \<Rightarrow> 's service \<Rightarrow> log_request \<Rightarrow> (LogDataResult, 's) act" where
  "get_log_data lx svc rq = sbind (fetch_loop MAX_TRUNCATION_ITERATIONS lx svc rq (init_loop rq))
     (\<lambda>st. lift_res (finish_loop rq st))"

section \<open>Lemmas\<close>

lemma sbind_simps [simp, res_simps]:
  "m s = (Inr v, s') \<Longrightarrow> sbind m f s = f v s'" "m s = (Inl e, s') \<Longrightarrow> sbind m f s = (Inl e, s')"
  "sbind (lift_res (Inr v)) f s = f v s" "sbind (lift_res (Inl e)) f s = (Inl e, s)" "lift_res r s = (r, s)"
  by (simp_all add: sbind_def lift_res_def)

lemma as_int_show_int [simp]: "as_int (OStr (show_int i)) = Some i"
  by simp

text \<open>An error code ends the call with the error the server reported, whatever was fetched before.\<close>

lemma fetch_loop_error:
  assumes "fetch_batch lx svc rq (ls_cursor st) s = (Inl e, s')"
  shows "fetch_loop (Suc n) lx svc rq st s = (Inl e, s')"
  using assms by simp

lemma fetch_batch_error:
  assumes "log_data_query lx (lr_uid_well rq) (lr_uid_wellbore rq) (lr_uid rq) (lr_mnemonics rq) (lr_index_type rq)
      c (lr_end rq) (lr_index_uom rq) (lr_max_return_nodes rq) = Inr q"
    and "svc_get_from_store svc (qq_wml_type q) (qq_query_xml q) (qq_options_in q) '''' s = (Inr r, s')"
    and "is_error (fst (result_triple r))"
  shows "\<exists>m s''. fetch_batch lx svc rq c s = (Inl (WitsmlError (Some (or_zero (fst (result_triple r)))) m), s'')"
proof -
  obtain rc x sp where t: "result_triple r = (rc, x, sp)" by (cases "result_triple r") auto
  have z: "is_error (Some (or_zero rc))" using assms(3) t by (cases rc) (simp_all add: is_error_def)
  have g: "get_from_store svc (qq_wml_type q) (qq_query_xml q) (qq_options_in q) s = (Inr (or_zero rc, x, sp), s')"
    using assms(2) t by (simp add: get_from_store_def)
  obtain e s'' where e: "witsml_error svc (Some (or_zero rc)) sp s' = (e, s'')" by (cases "witsml_error svc (Some (or_zero rc)) sp s'")
  then obtain m where "e = WitsmlError (Some (or_zero rc)) m" by (auto simp: witsml_error_def Let_def split: prod.splits)
  with assms(1) g z e t show ?thesis by (simp add: fetch_batch_def)
qed

end
