(* ===== verification/MockStore.thy ===== *)
theory MockStore
  imports Parse
begin

text \<open>
  \<^verbatim>\<open>mockstore/store.py\<close>: the in-memory WITSML store. The state is the four dictionaries of the class
  in insertion order and its settings; the lock makes every operation one step. A stored row is kept
  with its index; the index dictionaries of the code are keyed by the parsed index. The reading
  helpers and coercions the module repeats from the parser are the ones of \<^verbatim>\<open>Parse\<close>.
\<close>

section \<open>State\<close>

record CurveMeta =
  cm_mnemonic :: string
  cm_unit :: "string option"
  cm_description :: "string option"
  cm_type_log_data :: "string option"
  cm_null_value :: "string option"

type_synonym store_row = "pyval \<times> string list"

record StoredLog =
  sl_uid :: string
  sl_uid_well :: string
  sl_uid_wellbore :: string
  sl_name :: "string option"
  sl_name_well :: "string option"
  sl_name_wellbore :: "string option"
  sl_index_type :: IndexType
  sl_index_curve :: "string option"
  sl_direction :: Direction
  sl_null_value :: string
  sl_index_uom :: "string option"
  sl_object_growing :: bool
  sl_curves :: "CurveMeta list"
  sl_rows :: "store_row list"

record StoredMudLog =
  sm_uid :: string
  sm_uid_well :: string
  sm_uid_wellbore :: string
  sm_name :: "string option"
  sm_name_well :: "string option"
  sm_name_wellbore :: "string option"
  sm_object_growing :: bool
  sm_intervals :: "node list"

record StoredWell =
  sw_uid :: string
  sw_element :: node

record StoredWellbore =
  swb_uid :: string
  swb_uid_well :: string
  swb_element :: node

type_synonym log_key = "string \<times> string \<times> string"

record MockStore =
  ms_wells :: "(string \<times> StoredWell) list"
  ms_wellbores :: "(string \<times> StoredWellbore) list"
  ms_logs :: "(log_key \<times> StoredLog) list"
  ms_mudlogs :: "(log_key \<times> StoredMudLog) list"
  ms_server_name :: string
  ms_max_data_nodes :: int
  ms_max_data_points :: int
  ms_max_request_latest_values :: int
  ms_growing_timeout_period :: int
  ms_change_detection_period :: int

definition new_store :: MockStore where
  "new_store = \<lparr>ms_wells = [], ms_wellbores = [], ms_logs = [], ms_mudlogs = [],
     ms_server_name = ''WITSML Mock Store'', ms_max_data_nodes = 100000, ms_max_data_points = 1000000,
     ms_max_request_latest_values = 10000, ms_growing_timeout_period = 300, ms_change_detection_period = 5\<rparr>"

definition RC_SUCCESS :: int where "RC_SUCCESS = 1"
definition RC_ERROR_DUPLICATE :: int where "RC_ERROR_DUPLICATE = - 405"
definition RC_ERROR_NOT_FOUND :: int where "RC_ERROR_NOT_FOUND = - 411"
definition RC_ERROR_BAD_INPUT :: int where "RC_ERROR_BAD_INPUT = - 407"

type_synonym answer = "int \<times> string option"

definition sl_mnemonics :: "StoredLog \<Rightarrow> string list" where
  "sl_mnemonics lg = map cm_mnemonic (sl_curves lg)"

definition sl_units :: "StoredLog \<Rightarrow> string option list" where
  "sl_units lg = map cm_unit (sl_curves lg)"

section \<open>Options and indices\<close>

fun parse_parts :: "string list \<Rightarrow> (string \<times> string) list \<Rightarrow> (string \<times> string) list" where
  "parse_parts [] out = out"
| "parse_parts (p # ps) out = (let part = strip p in
     if part = [] \<or> CHR ''='' \<notin> set part then parse_parts ps out
     else (let (key, val) = partition_on (CHR ''='') part
           in parse_parts ps (AList.update (lower (strip key)) (strip val) out)))"

definition parse_options :: "string option \<Rightarrow> (string \<times> string) list" where
  "parse_options options = (case or_none options of None \<Rightarrow> [] | Some s \<Rightarrow> parse_parts (split_on (CHR '';'') s) [])"

definition parse_index :: "string option \<Rightarrow> IndexType \<Rightarrow> pyval option" where
  "parse_index token index_type = (case token of None \<Rightarrow> None | Some t \<Rightarrow>
     (let s = strip t in
      if s = [] then None
      else if is_time index_type then map_option VDt (parse_dt s)
      else map_option VFloat (float_of_string s)))"

section \<open>Adding rows\<close>

text \<open>\<^verbatim>\<open>{incoming[i]: cells[i] for i in ...}\<close>: later columns of one name win.\<close>

definition value_by_mnem :: "string list \<Rightarrow> string list \<Rightarrow> (string \<times> string) list" where
  "value_by_mnem incoming cells = fold (\<lambda>(m, c) d. AList.update m c d) (zip incoming cells) []"

definition stored_cells :: "string list \<Rightarrow> string list \<Rightarrow> string \<Rightarrow> string list \<Rightarrow> string list" where
  "stored_cells store_cols incoming null cells =
     (map (\<lambda>m. case map_of (value_by_mnem incoming cells) m of Some c \<Rightarrow> c | None \<Rightarrow> null) store_cols)[0 := hd cells]"

fun ingest_data :: "IndexType \<Rightarrow> string \<Rightarrow> string list \<Rightarrow> string list \<Rightarrow> node list \<Rightarrow> store_row list \<times> nat \<Rightarrow> store_row list \<times> nat" where
  "ingest_data it null store_cols incoming [] st = st"
| "ingest_data it null store_cols incoming (d # ds) st = (case node_text d of
      None \<Rightarrow> ingest_data it null store_cols incoming ds st
    | Some t \<Rightarrow>
        (let cells = map strip (split_on (CHR '','') t) in
         case parse_index (Some (hd cells)) it of
           None \<Rightarrow> ingest_data it null store_cols incoming ds st
         | Some idx \<Rightarrow> ingest_data it null store_cols incoming ds
             (dput idx (stored_cells store_cols incoming null cells) (fst st), snd st + 1)))"

definition incoming_mnemonics :: "StoredLog \<Rightarrow> node \<Rightarrow> string list" where
  "incoming_mnemonics lg ld = (case or_none (xml_text ld ''mnemonicList'') of
      Some l \<Rightarrow> map strip (split_on (CHR '','') l) | None \<Rightarrow> sl_mnemonics lg)"

definition ingest_logdata :: "StoredLog \<Rightarrow> node \<Rightarrow> StoredLog \<times> nat" where
  "ingest_logdata lg log_el = (case xml_first log_el ''logData'' of
      None \<Rightarrow> (lg, 0)
    | Some ld \<Rightarrow>
        (let incoming = incoming_mnemonics lg ld in
         if incoming = [] then (lg, 0)
         else let store_cols = (if sl_mnemonics lg = [] then incoming else sl_mnemonics lg);
                  (rows, added) = ingest_data (sl_index_type lg) (sl_null_value lg) store_cols incoming
                     (xml_children ld ''data'') (sl_rows lg, 0)
              in (lg\<lparr>sl_rows := rows\<rparr>, added)))"

section \<open>AddToStore\<close>

abbreviation attr_or_empty :: "node \<Rightarrow> string \<Rightarrow> string" where
  "attr_or_empty n k \<equiv> or_str (attr_get n k) ''''"

definition log_key_of :: "node \<Rightarrow> log_key" where
  "log_key_of n = (attr_or_empty n ''uidWell'', attr_or_empty n ''uidWellbore'', attr_or_empty n ''uid'')"

definition add_well :: "node \<Rightarrow> MockStore \<Rightarrow> answer \<times> MockStore" where
  "add_well rt s = (case root_or_first rt ''well'' of
      None \<Rightarrow> ((RC_ERROR_BAD_INPUT, Some ''no <well> element in XMLin''), s)
    | Some n \<Rightarrow> (let uid = attr_or_empty n ''uid'' in
        if uid = [] then ((RC_ERROR_BAD_INPUT, Some ''<well> missing uid''), s)
        else if map_of (ms_wells s) uid \<noteq> None then
          ((RC_ERROR_DUPLICATE, Some (''well uid '' @ [CHR 0x27] @ uid @ [CHR 0x27] @ '' already exists'')), s)
        else ((RC_SUCCESS, None), s\<lparr>ms_wells := AList.update uid \<lparr>sw_uid = uid, sw_element = n\<rparr> (ms_wells s)\<rparr>)))"

definition wellbore_key :: "string \<Rightarrow> string \<Rightarrow> string" where
  "wellbore_key uid_well uid = uid_well @ ''/'' @ uid"

definition add_wellbore :: "node \<Rightarrow> MockStore \<Rightarrow> answer \<times> MockStore" where
  "add_wellbore rt s = (case root_or_first rt ''wellbore'' of
      None \<Rightarrow> ((RC_ERROR_BAD_INPUT, Some ''no <wellbore> element in XMLin''), s)
    | Some n \<Rightarrow> (let uid = attr_or_empty n ''uid''; uid_well = attr_or_empty n ''uidWell''; key = wellbore_key uid_well uid in
        if uid = [] then ((RC_ERROR_BAD_INPUT, Some ''<wellbore> missing uid''), s)
        else if map_of (ms_wellbores s) key \<noteq> None then
          ((RC_ERROR_DUPLICATE, Some (''wellbore uid '' @ [CHR 0x27] @ uid @ [CHR 0x27] @ '' already exists'')), s)
        else ((RC_SUCCESS, None), s\<lparr>ms_wellbores := AList.update key
           \<lparr>swb_uid = uid, swb_uid_well = uid_well, swb_element = n\<rparr> (ms_wellbores s)\<rparr>)))"

definition read_curve_meta :: "node \<Rightarrow> CurveMeta" where
  "read_curve_meta n = \<lparr>cm_mnemonic = or_str (xml_text n ''mnemonic'') '''', cm_unit = xml_text n ''unit'',
     cm_description = xml_text n ''curveDescription'', cm_type_log_data = xml_text n ''typeLogData'',
     cm_null_value = xml_text n ''nullValue''\<rparr>"

text \<open>The header part of \<^verbatim>\<open>_add_log\<close>: the stored lg before its rows are read.\<close>

definition read_stored_log :: "node \<Rightarrow> StoredLog" where
  "read_stored_log n =
     (let curves = map read_curve_meta (xml_children n ''logCurveInfo'');
          index_uom = (case xml_first n ''startIndex'' of None \<Rightarrow> None | Some si \<Rightarrow> or_none (attr_get si ''uom''))
      in \<lparr>sl_uid = attr_or_empty n ''uid'', sl_uid_well = attr_or_empty n ''uidWell'',
          sl_uid_wellbore = attr_or_empty n ''uidWellbore'', sl_name = xml_text n ''name'',
          sl_name_well = xml_text n ''nameWell'', sl_name_wellbore = xml_text n ''nameWellbore'',
          sl_index_type = index_type_of (xml_text n ''indexType''),
          sl_index_curve = (case or_none (xml_text n ''indexCurve'') of Some c \<Rightarrow> Some c
             | None \<Rightarrow> (case curves of [] \<Rightarrow> xml_text n ''indexCurve'' | c # _ \<Rightarrow> Some (cm_mnemonic c))),
          sl_direction = direction_of (xml_text n ''direction''),
          sl_null_value = or_str (xml_text n ''nullValue'') DEFAULT_NULL_VALUE,
          sl_index_uom = (case index_uom of Some u \<Rightarrow> Some u
             | None \<Rightarrow> (case curves of [] \<Rightarrow> None | c # _ \<Rightarrow> cm_unit c)),
          sl_object_growing = False, sl_curves = curves, sl_rows = []\<rparr>)"

definition add_log :: "node \<Rightarrow> MockStore \<Rightarrow> answer \<times> MockStore" where
  "add_log rt s = (case root_or_first rt ''log'' of
      None \<Rightarrow> ((RC_ERROR_BAD_INPUT, Some ''no <log> element in XMLin''), s)
    | Some n \<Rightarrow> (let uid = attr_or_empty n ''uid''; key = log_key_of n in
        if uid = [] then ((RC_ERROR_BAD_INPUT, Some ''<log> missing uid''), s)
        else if map_of (ms_logs s) key \<noteq> None then
          ((RC_ERROR_DUPLICATE, Some (''log uid '' @ [CHR 0x27] @ uid @ [CHR 0x27] @ '' already exists'')), s)
        else ((RC_SUCCESS, None), s\<lparr>ms_logs := AList.update key (fst (ingest_logdata (read_stored_log n) n)) (ms_logs s)\<rparr>)))"

definition add_mudlog :: "node \<Rightarrow> MockStore \<Rightarrow> answer \<times> MockStore" where
  "add_mudlog rt s = (case root_or_first rt ''mudLog'' of
      None \<Rightarrow> ((RC_ERROR_BAD_INPUT, Some ''no <mudLog> element in XMLin''), s)
    | Some n \<Rightarrow> (let uid = attr_or_empty n ''uid''; key = log_key_of n in
        if uid = [] then ((RC_ERROR_BAD_INPUT, Some ''<mudLog> missing uid''), s)
        else if map_of (ms_mudlogs s) key \<noteq> None then
          ((RC_ERROR_DUPLICATE, Some (''mudLog uid '' @ [CHR 0x27] @ uid @ [CHR 0x27] @ '' already exists'')), s)
        else ((RC_SUCCESS, None), s\<lparr>ms_mudlogs := AList.update key
          \<lparr>sm_uid = uid, sm_uid_well = attr_or_empty n ''uidWell'', sm_uid_wellbore = attr_or_empty n ''uidWellbore'',
           sm_name = xml_text n ''name'', sm_name_well = xml_text n ''nameWell'', sm_name_wellbore = xml_text n ''nameWellbore'',
           sm_object_growing = False, sm_intervals = xml_children n ''geologyInterval''\<rparr> (ms_mudlogs s)\<rparr>)))"

definition unsupported :: "string \<Rightarrow> string" where
  "unsupported ty = ''unsupported WMLtypeIn '' @ [CHR 0x27] @ ty @ [CHR 0x27]"

definition add_object :: "lxml \<Rightarrow> string \<Rightarrow> string \<Rightarrow> MockStore \<Rightarrow> answer \<times> MockStore" where
  "add_object lx wml_type xml s = (let ty = lower (strip wml_type) in
     case lx_recover lx xml of
       Inl e \<Rightarrow> ((RC_ERROR_BAD_INPUT, Some (''malformed XMLin: '' @ lx_message lx e)), s)
     | Inr None \<Rightarrow> ((RC_ERROR_BAD_INPUT, Some ''empty XMLin''), s)
     | Inr (Some rt) \<Rightarrow>
         if ty = ''well'' then add_well rt s
         else if ty = ''wellbore'' then add_wellbore rt s
         else if ty = ''log'' then add_log rt s
         else if ty = ''mudlog'' then add_mudlog rt s
         else ((RC_ERROR_BAD_INPUT, Some (unsupported ty)), s))"

section \<open>UpdateInStore\<close>

definition not_found :: "string \<Rightarrow> string \<Rightarrow> string" where
  "not_found what uid = what @ '' uid '' @ [CHR 0x27] @ uid @ [CHR 0x27] @ '' not found for update''"

definition update_log :: "node \<Rightarrow> MockStore \<Rightarrow> answer \<times> MockStore" where
  "update_log rt s = (case root_or_first rt ''log'' of
      None \<Rightarrow> ((RC_ERROR_BAD_INPUT, Some ''no <log> element in XMLin''), s)
    | Some n \<Rightarrow> (let key = log_key_of n in
        case map_of (ms_logs s) key of
          None \<Rightarrow> ((RC_ERROR_NOT_FOUND, Some (not_found ''log'' (attr_or_empty n ''uid''))), s)
        | Some lg \<Rightarrow> (let (lg', added) = ingest_logdata lg n;
               lg2 = (if added \<noteq> 0 then lg'\<lparr>sl_object_growing := True\<rparr> else lg')
            in ((RC_SUCCESS, None), s\<lparr>ms_logs := AList.update key lg2 (ms_logs s)\<rparr>))))"

definition update_mudlog :: "node \<Rightarrow> MockStore \<Rightarrow> answer \<times> MockStore" where
  "update_mudlog rt s = (case root_or_first rt ''mudLog'' of
      None \<Rightarrow> ((RC_ERROR_BAD_INPUT, Some ''no <mudLog> element in XMLin''), s)
    | Some n \<Rightarrow> (let key = log_key_of n in
        case map_of (ms_mudlogs s) key of
          None \<Rightarrow> ((RC_ERROR_NOT_FOUND, Some (not_found ''mudLog'' (attr_or_empty n ''uid''))), s)
        | Some ml \<Rightarrow> (let new = xml_children n ''geologyInterval'' in
            ((RC_SUCCESS, None), if new = [] then s
               else s\<lparr>ms_mudlogs := AList.update key
                 (ml\<lparr>sm_intervals := sm_intervals ml @ new, sm_object_growing := True\<rparr>) (ms_mudlogs s)\<rparr>))))"

definition update_object :: "lxml \<Rightarrow> string \<Rightarrow> string \<Rightarrow> MockStore \<Rightarrow> answer \<times> MockStore" where
  "update_object lx wml_type xml s = (let ty = lower (strip wml_type) in
     case lx_recover lx xml of
       Inl e \<Rightarrow> ((RC_ERROR_BAD_INPUT, Some (''malformed XMLin: '' @ lx_message lx e)), s)
     | Inr None \<Rightarrow> ((RC_ERROR_BAD_INPUT, Some ''empty XMLin''), s)
     | Inr (Some rt) \<Rightarrow>
         if ty = ''log'' then update_log rt s
         else if ty = ''mudlog'' then update_mudlog rt s
         else if ty = ''well'' \<or> ty = ''wellbore'' then ((RC_SUCCESS, None), s)
         else ((RC_ERROR_BAD_INPUT, Some (unsupported ty)), s))"

section \<open>DeleteFromStore\<close>

text \<open>A document without a root element is None in the code, and searching it raises TypeError.\<close>

definition nothing_matched :: answer where
  "nothing_matched = (RC_ERROR_NOT_FOUND, Some ''nothing matched the delete query'')"

definition delete_well :: "node \<Rightarrow> MockStore \<Rightarrow> answer \<times> MockStore" where
  "delete_well rt s = (case (case xml_first rt ''well'' of None \<Rightarrow> None | Some n \<Rightarrow> or_none (attr_get n ''uid'')) of
      None \<Rightarrow> (nothing_matched, s)
    | Some uid \<Rightarrow> if map_of (ms_wells s) uid \<noteq> None
        then ((RC_SUCCESS, None), s\<lparr>ms_wells := AList.delete uid (ms_wells s)\<rparr>) else (nothing_matched, s))"

definition delete_wellbore :: "node \<Rightarrow> MockStore \<Rightarrow> answer \<times> MockStore" where
  "delete_wellbore rt s = (case xml_first rt ''wellbore'' of
      None \<Rightarrow> (nothing_matched, s)
    | Some n \<Rightarrow> (let key = wellbore_key (attr_or_empty n ''uidWell'') (attr_or_empty n ''uid'') in
        if map_of (ms_wellbores s) key \<noteq> None
        then ((RC_SUCCESS, None), s\<lparr>ms_wellbores := AList.delete key (ms_wellbores s)\<rparr>) else (nothing_matched, s)))"

definition delete_log :: "node \<Rightarrow> MockStore \<Rightarrow> answer \<times> MockStore" where
  "delete_log rt s = (case xml_first rt ''log'' of
      None \<Rightarrow> (nothing_matched, s)
    | Some n \<Rightarrow> if map_of (ms_logs s) (log_key_of n) \<noteq> None
        then ((RC_SUCCESS, None), s\<lparr>ms_logs := AList.delete (log_key_of n) (ms_logs s)\<rparr>) else (nothing_matched, s))"

definition delete_mudlog :: "node \<Rightarrow> MockStore \<Rightarrow> answer \<times> MockStore" where
  "delete_mudlog rt s = (case xml_first rt ''mudLog'' of
      None \<Rightarrow> (nothing_matched, s)
    | Some n \<Rightarrow> if map_of (ms_mudlogs s) (log_key_of n) \<noteq> None
        then ((RC_SUCCESS, None), s\<lparr>ms_mudlogs := AList.delete (log_key_of n) (ms_mudlogs s)\<rparr>) else (nothing_matched, s))"

definition delete_object :: "lxml \<Rightarrow> string \<Rightarrow> string \<Rightarrow> MockStore \<Rightarrow> (answer \<times> MockStore) res" where
  "delete_object lx wml_type query_xml s = (let ty = lower (strip wml_type) in
     case lx_recover lx query_xml of
       Inl e \<Rightarrow> Inr ((RC_ERROR_BAD_INPUT, Some (''malformed QueryIn: '' @ lx_message lx e)), s)
     | Inr None \<Rightarrow> if ty \<in> {''well'', ''wellbore'', ''log'', ''mudlog''} then Inl TypeError else Inr (nothing_matched, s)
     | Inr (Some rt) \<Rightarrow> Inr (
         if ty = ''well'' then delete_well rt s
         else if ty = ''wellbore'' then delete_wellbore rt s
         else if ty = ''log'' then delete_log rt s
         else if ty = ''mudlog'' then delete_mudlog rt s
         else (nothing_matched, s)))"

end
