(* ===== verification/MockQuery.thy ===== *)
theory MockQuery
  imports MockStore
begin

text \<open>
  \<^verbatim>\<open>mockstore/store.py\<close>, GetFromStore and GetCap: row selection (range, direction, the cap that
  truncates, the latest values per curve), the rendering of a log, and the queries of the four
  object types.
\<close>

section \<open>Rows in order\<close>

definition sorted_rows :: "StoredLog \<Rightarrow> Direction \<Rightarrow> store_row list res" where
  "sorted_rows lg d = rbind (val_sort fst (sl_rows lg)) (\<lambda>rs. Inr (if d = DECREASING then rev rs else rs))"

definition before_start :: "pyval \<Rightarrow> pyval \<Rightarrow> Direction \<Rightarrow> bool res" where
  "before_start idx start d = (if d = INCREASING then val_lt idx start else val_lt start idx)"

definition after_end :: "pyval \<Rightarrow> pyval \<Rightarrow> Direction \<Rightarrow> bool res" where
  "after_end idx stop d = (if d = INCREASING then val_lt stop idx else val_lt idx stop)"

definition in_bounds :: "pyval option \<Rightarrow> pyval option \<Rightarrow> Direction \<Rightarrow> pyval \<Rightarrow> bool res" where
  "in_bounds start stop d idx =
     rbind (case start of None \<Rightarrow> Inr False | Some v \<Rightarrow> before_start idx v d) (\<lambda>b.
     if b then Inr False
     else rbind (case stop of None \<Rightarrow> Inr False | Some v \<Rightarrow> after_end idx v d) (\<lambda>a. Inr (\<not> a)))"

section \<open>Latest values\<close>

definition null_set :: "StoredLog \<Rightarrow> string list" where
  "null_set lg = [sl_null_value lg, DEFAULT_NULL_VALUE, ''''] @
     concat (map (\<lambda>c. case or_none (cm_null_value c) of None \<Rightarrow> [] | Some v \<Rightarrow> [v]) (sl_curves lg))"

text \<open>The rows one curve keeps, newest first: it stops after the n-th value that is not null.\<close>

fun latest_for :: "int \<Rightarrow> nat \<Rightarrow> string list \<Rightarrow> int \<Rightarrow> store_row list \<Rightarrow> pyval list" where
  "latest_for n col nulls cnt [] = []"
| "latest_for n col nulls cnt ((idx, row) # rs) =
     (if length row \<le> col then latest_for n col nulls cnt rs
      else let c = strip (row ! col) in
        if c = [] \<or> c \<in> set nulls then latest_for n col nulls cnt rs
        else idx # (if n \<le> cnt + 1 then [] else latest_for n col nulls (cnt + 1) rs))"

definition sparse_cells :: "StoredLog \<Rightarrow> string list \<Rightarrow> string list" where
  "sparse_cells lg row = hd row # map (\<lambda>col. let c = (if col < length row then row ! col else []) in
     if strip c \<in> set (null_set lg) then sl_null_value lg else c) [1..<length (sl_mnemonics lg)]"

definition latest_value_rows :: "int \<Rightarrow> StoredLog \<Rightarrow> int \<Rightarrow> string list list res" where
  "latest_value_rows max_latest lg n =
     rbind (sorted_rows lg (sl_direction lg)) (\<lambda>ordered.
     rbind (sorted_rows lg INCREASING) (\<lambda>ascending.
     let keep = concat (map (\<lambda>col. latest_for (min n max_latest) col (null_set lg) 0 (rev ordered))
                  [1..<length (sl_mnemonics lg)])
     in Inr (map (\<lambda>p. sparse_cells lg (snd p)) (filter (\<lambda>p. fst p \<in> set keep) ascending))))"

definition select_range :: "StoredLog \<Rightarrow> pyval option \<Rightarrow> pyval option \<Rightarrow> Direction \<Rightarrow> int option
    \<Rightarrow> (string list list \<times> bool) res" where
  "select_range lg start stop d max_nodes =
     rbind (sorted_rows lg d) (\<lambda>ordered.
     rbind (rfilter (\<lambda>p. in_bounds start stop d (fst p)) ordered) (\<lambda>selected.
     case max_nodes of
       None \<Rightarrow> Inr (map snd selected, False)
     | Some m \<Rightarrow> if 0 < m \<and> m < int (length selected) then Inr (map snd (take (nat m) selected), True)
                 else Inr (map snd selected, False)))"

definition select_rows :: "int \<Rightarrow> StoredLog \<Rightarrow> pyval option \<Rightarrow> pyval option \<Rightarrow> Direction \<Rightarrow> int option \<Rightarrow> int option
    \<Rightarrow> (string list list \<times> bool) res" where
  "select_rows max_latest lg start stop d max_nodes latest_n =
     (case latest_n of
        Some n \<Rightarrow> if 0 < n then rbind (latest_value_rows max_latest lg n) (\<lambda>rs. Inr (rs, False))
                  else select_range lg start stop d max_nodes
      | None \<Rightarrow> select_range lg start stop d max_nodes)"

section \<open>Rendering\<close>

text \<open>\<^verbatim>\<open>_sub(parent, tag, text)\<close> with an optional text.\<close>

definition sub :: "string \<Rightarrow> string option \<Rightarrow> node" where
  "sub tag t = el tag [] t []"

text \<open>The index token of the row at an index, and the least and greatest index of some rows.\<close>

definition row_token :: "store_row list \<Rightarrow> pyval \<Rightarrow> string res" where
  "row_token rows idx = (case map_of rows idx of None \<Rightarrow> Inl KeyError
     | Some r \<Rightarrow> (case r of [] \<Rightarrow> Inl IndexError | c # _ \<Rightarrow> Inr c))"

definition extent_elems :: "string \<Rightarrow> string \<Rightarrow> string \<Rightarrow> string \<Rightarrow> StoredLog \<Rightarrow> pyval list \<Rightarrow> node list res" where
  "extent_elems time_lo time_hi depth_lo depth_hi lg idxs = (case idxs of
      [] \<Rightarrow> Inr []
    | v # vs \<Rightarrow>
        rbind (val_min v vs) (\<lambda>lo. rbind (val_max v vs) (\<lambda>hi.
        rbind (row_token (sl_rows lg) lo) (\<lambda>tlo. rbind (row_token (sl_rows lg) hi) (\<lambda>thi.
        Inr (if is_time (sl_index_type lg) then [leaf time_lo tlo, leaf time_hi thi]
             else let uom = [(''uom'', or_str (sl_index_uom lg) '''')]
                  in [el depth_lo uom (Some tlo) [], el depth_hi uom (Some thi) []]))))))"

definition emit_extents :: "StoredLog \<Rightarrow> node list res" where
  "emit_extents lg = extent_elems ''startDateTimeIndex'' ''endDateTimeIndex'' ''startIndex'' ''endIndex'' lg
     (map fst (sl_rows lg))"

definition curve_present :: "StoredLog \<Rightarrow> nat \<Rightarrow> pyval list" where
  "curve_present lg col = map fst (filter (\<lambda>p. col < length (snd p) \<and>
     \<not> (strip (snd p ! col) \<in> set (null_set lg) \<and> col \<noteq> 0)) (sl_rows lg))"

fun index_of :: "string \<Rightarrow> string list \<Rightarrow> nat option" where
  "index_of m [] = None"
| "index_of m (x # xs) = (if x = m then Some 0 else map_option Suc (index_of m xs))"

definition emit_curve_extents :: "StoredLog \<Rightarrow> string \<Rightarrow> node list res" where
  "emit_curve_extents lg mnemonic = (case index_of mnemonic (sl_mnemonics lg) of
      None \<Rightarrow> Inr []
    | Some col \<Rightarrow> extent_elems ''minDateTimeIndex'' ''maxDateTimeIndex'' ''minIndex'' ''maxIndex'' lg
        (curve_present lg col))"

definition opt_sub :: "string \<Rightarrow> string option \<Rightarrow> node list" where
  "opt_sub tag t = (case or_none t of None \<Rightarrow> [] | Some s \<Rightarrow> [leaf tag s])"

definition render_curve :: "StoredLog \<Rightarrow> CurveMeta \<Rightarrow> node res" where
  "render_curve lg c = rbind (emit_curve_extents lg (cm_mnemonic c)) (\<lambda>ext.
     Inr (el ''logCurveInfo'' [] None
       ([leaf ''mnemonic'' (cm_mnemonic c), sub ''unit'' (cm_unit c)]
        @ opt_sub ''curveDescription'' (cm_description c) @ opt_sub ''typeLogData'' (cm_type_log_data c)
        @ [leaf ''nullValue'' (or_str (cm_null_value c) (sl_null_value lg))] @ ext)))"

definition render_names :: "StoredLog \<Rightarrow> node list" where
  "render_names lg = [sub ''nameWell'' (sl_name_well lg), sub ''nameWellbore'' (sl_name_wellbore lg), sub ''name'' (sl_name lg)]"

definition render_header :: "StoredLog \<Rightarrow> node list res" where
  "render_header lg =
     rbind (emit_extents lg) (\<lambda>ext.
     rbind (rmap (render_curve lg) (sl_curves lg)) (\<lambda>curves.
     Inr (render_names lg
       @ [leaf ''indexType'' (it_value (sl_index_type lg)), sub ''indexCurve'' (sl_index_curve lg),
          leaf ''direction'' (dir_value (sl_direction lg)),
          leaf ''objectGrowing'' (if sl_object_growing lg then ''true'' else ''false''),
          leaf ''nullValue'' (sl_null_value lg)] @ ext @ curves)))"

definition render_data :: "StoredLog \<Rightarrow> string list list \<Rightarrow> node list" where
  "render_data lg rows = (if rows = [] then []
     else [el ''logData'' [] None
       ([leaf ''mnemonicList'' (join '','' (sl_mnemonics lg)),
         leaf ''unitList'' (join '','' (map (\<lambda>u. or_str u '''') (sl_units lg)))]
        @ map (\<lambda>r. leaf ''data'' (join '','' r)) rows)])"

definition log_attrs :: "StoredLog \<Rightarrow> (string \<times> string) list" where
  "log_attrs lg = [(''uid'', sl_uid lg), (''uidWell'', sl_uid_well lg), (''uidWellbore'', sl_uid_wellbore lg)]"

definition render_log :: "int \<Rightarrow> StoredLog \<Rightarrow> string \<Rightarrow> pyval option \<Rightarrow> pyval option \<Rightarrow> Direction \<Rightarrow> int option
    \<Rightarrow> int option \<Rightarrow> (node \<times> bool) res" where
  "render_log max_latest lg return_elements start stop d max_nodes latest_n =
     (if return_elements = ''id-only'' then Inr (el ''log'' (log_attrs lg) None (render_names lg), False)
      else
        rbind (if return_elements \<in> {''all'', ''header-only'', ''requested''} then render_header lg else Inr []) (\<lambda>header.
        rbind (if return_elements \<in> {''all'', ''data-only'', ''requested''}
               then select_rows max_latest lg start stop d max_nodes latest_n else Inr ([], False)) (\<lambda>(rows, truncated).
        Inr (el ''log'' (log_attrs lg) None (header @ render_data lg rows), truncated))))"

section \<open>GetFromStore\<close>

type_synonym query_answer = "int \<times> string \<times> string option"

text \<open>\<^verbatim>\<open>_clone\<close>: serialise and parse again; an empty result cannot be appended.\<close>

definition clone :: "lxml \<Rightarrow> node \<Rightarrow> node res" where
  "clone lx n = rbind (lx_strict lx (lx_tostring lx n)) (\<lambda>r. case r of None \<Rightarrow> Inl TypeError | Some m \<Rightarrow> Inr m)"

definition wanted :: "string option \<Rightarrow> string \<Rightarrow> bool" where
  "wanted want got = (case or_none want of None \<Rightarrow> True | Some u \<Rightarrow> got = u)"

abbreviation attr_opt :: "node option \<Rightarrow> string \<Rightarrow> string option" where
  "attr_opt q k \<equiv> (case q of None \<Rightarrow> None | Some n \<Rightarrow> attr_get n k)"

definition query_wells :: "lxml \<Rightarrow> node \<Rightarrow> MockStore \<Rightarrow> query_answer res" where
  "query_wells lx rt s = (let q = xml_first rt ''well''; want_uid = attr_opt q ''uid'' in
     rbind (rmap (\<lambda>w. clone lx (sw_element w)) (filter (\<lambda>w. wanted want_uid (sw_uid w)) (map snd (ms_wells s)))) (\<lambda>els.
     rbind (serialize lx (new_root ''wells'' els)) (\<lambda>x. Inr (RC_SUCCESS, x, None))))"

definition query_wellbores :: "lxml \<Rightarrow> node \<Rightarrow> MockStore \<Rightarrow> query_answer res" where
  "query_wellbores lx rt s = (let q = xml_first rt ''wellbore''; want_uid = attr_opt q ''uid''; want_well = attr_opt q ''uidWell'' in
     rbind (rmap (\<lambda>w. clone lx (swb_element w))
       (filter (\<lambda>w. wanted want_uid (swb_uid w) \<and> wanted want_well (swb_uid_well w)) (map snd (ms_wellbores s)))) (\<lambda>els.
     rbind (serialize lx (new_root ''wellbores'' els)) (\<lambda>x. Inr (RC_SUCCESS, x, None))))"

text \<open>\<^verbatim>\<open>_query_range\<close>: a depth bound that is not a number raises ValueError.\<close>

definition time_bound :: "node \<Rightarrow> string \<Rightarrow> pyval option" where
  "time_bound q tag = (case or_none (xml_text q tag) of None \<Rightarrow> None | Some t \<Rightarrow> map_option VDt (parse_dt t))"

definition depth_bound :: "node \<Rightarrow> string \<Rightarrow> pyval option res" where
  "depth_bound q tag = (case xml_text q tag of None \<Rightarrow> Inr None
     | Some t \<Rightarrow> (case float_of_string t of None \<Rightarrow> Inl ValueError | Some x \<Rightarrow> Inr (Some (VFloat x))))"

definition query_range :: "node \<Rightarrow> IndexType \<Rightarrow> (pyval option \<times> pyval option) res" where
  "query_range q it =
     (if is_time it then Inr (time_bound q ''startDateTimeIndex'', time_bound q ''endDateTimeIndex'')
      else rbind (depth_bound q ''startIndex'') (\<lambda>a. rbind (depth_bound q ''endIndex'') (\<lambda>b. Inr (a, b))))"

definition opt_get :: "(string \<times> string) list \<Rightarrow> string \<Rightarrow> string \<Rightarrow> string" where
  "opt_get opts k d = (case map_of opts k of None \<Rightarrow> d | Some v \<Rightarrow> v)"

definition log_matches :: "node \<Rightarrow> StoredLog \<Rightarrow> bool" where
  "log_matches q lg = (wanted (attr_get q ''uid'') (sl_uid lg) \<and> wanted (attr_get q ''uidWell'') (sl_uid_well lg)
     \<and> wanted (attr_get q ''uidWellbore'') (sl_uid_wellbore lg))"

definition query_logs :: "lxml \<Rightarrow> node \<Rightarrow> (string \<times> string) list \<Rightarrow> MockStore \<Rightarrow> query_answer res" where
  "query_logs lx rt opts s = (case xml_first rt ''log'' of
      None \<Rightarrow> Inr (RC_ERROR_BAD_INPUT, '''', Some ''QueryIn has no <log> element'')
    | Some q \<Rightarrow>
        rbind (parse_int (map_of opts ''maxreturnnodes'')) (\<lambda>max_nodes.
        rbind (parse_int (map_of opts ''requestlatestvalues'')) (\<lambda>latest_n.
        rbind (rmap (\<lambda>lg. rbind (query_range q (sl_index_type lg)) (\<lambda>(start, stop).
                 render_log (ms_max_request_latest_values s) lg (lower (opt_get opts ''returnelements'' ''all''))
                   start stop (sl_direction lg) max_nodes latest_n))
           (filter (log_matches q) (map snd (ms_logs s)))) (\<lambda>rendered.
        rbind (serialize lx (new_root ''logs'' (map fst rendered))) (\<lambda>x.
        Inr (if list_ex snd rendered then RC_PARTIAL_SUCCESS else RC_SUCCESS, x, None))))))"

definition last_float :: "string list \<Rightarrow> pyfloat option" where
  "last_float ts = (case filter (\<lambda>x. x \<noteq> None) (map float_of_string ts) of [] \<Rightarrow> None | xs \<Rightarrow> last xs)"

definition mudlog_range :: "node option \<Rightarrow> pyfloat option \<times> pyfloat option" where
  "mudlog_range q = (case q of None \<Rightarrow> (None, None) | Some n \<Rightarrow>
     (let gis = xml_children n ''geologyInterval''
      in (last_float (List.map_filter (\<lambda>gi. xml_text gi ''mdTop'') gis),
          last_float (List.map_filter (\<lambda>gi. xml_text gi ''mdBottom'') gis))))"

text \<open>The bounds of an interval; ValueError keeps the interval.\<close>

definition opt_float :: "string option \<Rightarrow> pyfloat option res" where
  "opt_float v = (case or_none v of None \<Rightarrow> Inr None
     | Some s \<Rightarrow> (case float_of_string s of None \<Rightarrow> Inl ValueError | Some x \<Rightarrow> Inr (Some x)))"

definition overlaps :: "pyfloat \<Rightarrow> pyfloat \<Rightarrow> pyfloat \<Rightarrow> pyfloat \<Rightarrow> string \<Rightarrow> bool" where
  "overlaps i_lo i_hi lo hi inclusion =
     (if inclusion = ''whole-interval'' then fl_le lo i_lo \<and> fl_le i_hi hi
      else if inclusion = ''minimum-point'' then fl_le lo i_lo \<and> fl_le i_lo hi
      else fl_le lo i_hi \<and> fl_le i_lo hi)"

definition interval_in_range :: "node \<Rightarrow> pyfloat option \<Rightarrow> pyfloat option \<Rightarrow> string \<Rightarrow> bool" where
  "interval_in_range gi md_top md_bottom inclusion =
     (if md_top = None \<and> md_bottom = None then True
      else case rbind (opt_float (xml_text gi ''mdTop'')) (\<lambda>t. rbind (opt_float (xml_text gi ''mdBottom'')) (\<lambda>b. Inr (t, b))) of
          Inl e \<Rightarrow> True
        | Inr (t, b) \<Rightarrow>
            (let lo = (case md_top of Some x \<Rightarrow> x | None \<Rightarrow> NInf); hi = (case md_bottom of Some x \<Rightarrow> x | None \<Rightarrow> PInf) in
             case (t, b) of
               (None, None) \<Rightarrow> True
             | (Some x, None) \<Rightarrow> overlaps x x lo hi inclusion
             | (None, Some y) \<Rightarrow> overlaps y y lo hi inclusion
             | (Some x, Some y) \<Rightarrow> overlaps x y lo hi inclusion))"

definition render_mudlog :: "lxml \<Rightarrow> pyfloat option \<Rightarrow> pyfloat option \<Rightarrow> string \<Rightarrow> StoredMudLog \<Rightarrow> node res" where
  "render_mudlog lx md_top md_bottom inclusion ml =
     rbind (rmap (clone lx) (filter (\<lambda>gi. interval_in_range gi md_top md_bottom inclusion) (sm_intervals ml))) (\<lambda>gis.
     Inr (el ''mudLog'' [(''uid'', sm_uid ml), (''uidWell'', sm_uid_well ml), (''uidWellbore'', sm_uid_wellbore ml)] None
       ([sub ''nameWell'' (sm_name_well ml), sub ''nameWellbore'' (sm_name_wellbore ml), sub ''name'' (sm_name ml),
         leaf ''objectGrowing'' (if sm_object_growing ml then ''true'' else ''false'')] @ gis)))"

definition query_mudlogs :: "lxml \<Rightarrow> node \<Rightarrow> (string \<times> string) list \<Rightarrow> MockStore \<Rightarrow> query_answer res" where
  "query_mudlogs lx rt opts s =
     (let q = xml_first rt ''mudLog''; inclusion = lower (opt_get opts ''intervalrangeinclusion'' ''any-part'');
          (md_top, md_bottom) = mudlog_range q in
      rbind (rmap (render_mudlog lx md_top md_bottom inclusion)
        (filter (\<lambda>ml. wanted (attr_opt q ''uid'') (sm_uid ml) \<and> wanted (attr_opt q ''uidWell'') (sm_uid_well ml)
            \<and> wanted (attr_opt q ''uidWellbore'') (sm_uid_wellbore ml)) (map snd (ms_mudlogs s)))) (\<lambda>els.
      rbind (serialize lx (new_root ''mudLogs'' els)) (\<lambda>x. Inr (RC_SUCCESS, x, None))))"

definition store_query :: "lxml \<Rightarrow> string \<Rightarrow> string \<Rightarrow> string option \<Rightarrow> MockStore \<Rightarrow> query_answer res" where
  "store_query lx wml_type query_xml options s =
     (let ty = lower (strip wml_type); opts = parse_options options in
      case lx_recover lx query_xml of
        Inl e \<Rightarrow> Inr (RC_ERROR_BAD_INPUT, '''', Some (''malformed QueryIn: '' @ lx_message lx e))
      | Inr None \<Rightarrow> if ty \<in> {''well'', ''wellbore'', ''log'', ''mudlog''} then Inl TypeError
          else Inr (RC_ERROR_BAD_INPUT, '''', Some (unsupported ty))
      | Inr (Some rt) \<Rightarrow>
          if ty = ''well'' then query_wells lx rt s
          else if ty = ''wellbore'' then query_wellbores lx rt s
          else if ty = ''log'' then query_logs lx rt opts s
          else if ty = ''mudlog'' then query_mudlogs lx rt opts s
          else Inr (RC_ERROR_BAD_INPUT, '''', Some (unsupported ty)))"

section \<open>GetCap\<close>

definition api_el :: "string \<Rightarrow> (string \<times> string) list \<Rightarrow> string option \<Rightarrow> node list \<Rightarrow> node" where
  "api_el tag attrs t ks = Elem NS_API tag attrs t ks"

definition api_leaf :: "string \<Rightarrow> string \<Rightarrow> node" where
  "api_leaf tag t = api_el tag [] (Some t) []"

definition supported :: "string list" where
  "supported = [''well'', ''wellbore'', ''log'', ''mudLog'', ''trajectory'']"

definition capabilities_tree :: "MockStore \<Rightarrow> node" where
  "capabilities_tree s =
     api_el ''capServers'' [(''version'', WITSML_VERSION)] None
       [api_el ''capServer'' [(''apiVers'', WITSML_VERSION)] None
         ([api_leaf ''name'' (ms_server_name s), api_leaf ''vendor'' ''Mock'', api_leaf ''version'' WITSML_VERSION,
           api_leaf ''schemaVersion'' WITSML_VERSION,
           api_leaf ''growingTimeoutPeriod'' (show_int (ms_growing_timeout_period s)),
           api_leaf ''maxDataNodes'' (show_int (ms_max_data_nodes s)),
           api_leaf ''maxDataPoints'' (show_int (ms_max_data_points s)),
           api_leaf ''changeDetectionPeriod'' (show_int (ms_change_detection_period s)),
           api_leaf ''maxRequestLatestValues'' (show_int (ms_max_request_latest_values s))]
          @ map (\<lambda>fn. api_el ''function'' [(''name'', fn)] None (map (api_leaf ''dataObject'') supported))
              [''WMLS_AddToStore'', ''WMLS_GetFromStore'', ''WMLS_UpdateInStore'', ''WMLS_DeleteFromStore''])]"

definition capabilities_xml :: "lxml \<Rightarrow> MockStore \<Rightarrow> string res" where
  "capabilities_xml lx s = serialize lx (capabilities_tree s)"

end
