(* ===== verification/MockServer.thy ===== *)
theory MockServer
  imports MockQuery
begin

text \<open>
  \<^verbatim>\<open>mockstore/server.py\<close>: the SOAP endpoint over the store. A request is the raw envelope and the
  SOAPAction header; the answer is the HTTP status and the serialised envelope. An exception of the
  store becomes a SOAP fault and leaves the store as the failing operation left it.
\<close>

definition SOAP_ENV :: string where "SOAP_ENV = ''http://schemas.xmlsoap.org/soap/envelope/''"
definition WMLS_NS :: string where "WMLS_NS = ''http://www.witsml.org/wsdl/120''"

section \<open>Envelopes\<close>

fun is_soap_body :: "node \<Rightarrow> bool" where
  "is_soap_body (Elem ns l a t ks) = (ns = SOAP_ENV \<and> l = ''Body'')"
| "is_soap_body Misc = False"

definition is_elem :: "node \<Rightarrow> bool" where
  "is_elem n = (n \<noteq> Misc)"

definition find_body_op :: "node \<Rightarrow> node option" where
  "find_body_op envelope = find_first is_elem (concat (map kids (filter is_soap_body (xml_iter envelope))))"

definition part_text :: "node \<Rightarrow> string \<Rightarrow> string" where
  "part_text op_el name = (case xml_first op_el name of None \<Rightarrow> '''' | Some c \<Rightarrow> or_str (node_text c) '''')"

definition wmls :: "string \<Rightarrow> string option \<Rightarrow> node list \<Rightarrow> node" where
  "wmls tag t ks = Elem WMLS_NS tag [] t ks"

text \<open>Setting a text with a control character raises ValueError.\<close>

definition response_el :: "string \<Rightarrow> (string \<times> string) list \<Rightarrow> node res" where
  "response_el op_name parts =
     (if list_all (\<lambda>p. list_all legal_char (snd p)) parts
      then Inr (wmls (op_name @ ''Response'') None (map (\<lambda>(n, t). wmls n (Some t) []) parts))
      else Inl ValueError)"

definition soap_el :: "string \<Rightarrow> node list \<Rightarrow> node" where
  "soap_el tag ks = Elem SOAP_ENV tag [] None ks"

definition envelope_of :: "node list \<Rightarrow> node" where
  "envelope_of children = soap_el ''Envelope'' [soap_el ''Body'' children]"

definition fault_tree :: "string \<Rightarrow> node" where
  "fault_tree message = envelope_of [soap_el ''Fault''
     [Elem '''' ''faultcode'' [] (Some ''soap:Server'') [], Elem '''' ''faultstring'' [] (Some message) []]]"

section \<open>Dispatch\<close>

definition base_msg :: "int \<Rightarrow> string" where
  "base_msg code =
     (if code = 1 then ''Function completed successfully.''
      else if code = 2 then ''Partial success: function returned a truncated result set.''
      else if code = - 405 then ''Data-object already exists in the store.''
      else if code = - 407 then ''Missing or invalid input XML / query.''
      else if code = - 411 then ''The query did not match an object in the store.''
      else ''WITSML return code '' @ show_int code @ ''.'')"

definition change_response :: "string \<Rightarrow> answer \<Rightarrow> node res" where
  "change_response op_name a = response_el op_name [(''Result'', show_int (fst a)), (''SuppMsgOut'', or_str (snd a) '''')]"

definition dispatch :: "lxml \<Rightarrow> string \<Rightarrow> node \<Rightarrow> MockStore \<Rightarrow> node res \<times> MockStore" where
  "dispatch lx op_name op_el s =
     (if op_name = ''WMLS_GetVersion'' then (response_el ''WMLS_GetVersion'' [(''Result'', ''1.4.1.1'')], s)
      else if op_name = ''WMLS_GetCap'' then
        (rbind (capabilities_xml lx s) (\<lambda>cap_xml. response_el ''WMLS_GetCap''
           [(''Result'', ''1''), (''CapabilitiesOut'', cap_xml), (''SuppMsgOut'', '''')]), s)
      else if op_name = ''WMLS_GetFromStore'' then
        (rbind (store_query lx (part_text op_el ''WMLtypeIn'') (part_text op_el ''QueryIn'')
             (Some (part_text op_el ''OptionsIn'')) s) (\<lambda>(rc, xml_out, supp).
           response_el ''WMLS_GetFromStore''
             [(''Result'', show_int rc), (''XMLout'', xml_out), (''SuppMsgOut'', or_str supp '''')]), s)
      else if op_name = ''WMLS_AddToStore'' then
        (let (a, s') = add_object lx (part_text op_el ''WMLtypeIn'') (part_text op_el ''XMLin'') s
         in (change_response ''WMLS_AddToStore'' a, s'))
      else if op_name = ''WMLS_UpdateInStore'' then
        (let (a, s') = update_object lx (part_text op_el ''WMLtypeIn'') (part_text op_el ''XMLin'') s
         in (change_response ''WMLS_UpdateInStore'' a, s'))
      else if op_name = ''WMLS_DeleteFromStore'' then
        (case delete_object lx (part_text op_el ''WMLtypeIn'') (part_text op_el ''QueryIn'') s of
           Inl e \<Rightarrow> (Inl e, s)
         | Inr (a, s') \<Rightarrow> (change_response ''WMLS_DeleteFromStore'' a, s'))
      else if op_name = ''WMLS_GetBaseMsg'' then
        (response_el ''WMLS_GetBaseMsg'' [(''Result'', base_msg
           (case int_of_string (part_text op_el ''ReturnValueIn'') of Some i \<Rightarrow> i | None \<Rightarrow> RC_ERROR_BAD_INPUT))], s)
      else (response_el op_name [(''Result'', ''-425'')], s))"

definition strip_quotes :: "string \<Rightarrow> string" where
  "strip_quotes s = rev (dropWhile (\<lambda>c. c = CHR 0x22) (rev (dropWhile (\<lambda>c. c = CHR 0x22) s)))"

definition op_name_from_action :: "string option \<Rightarrow> string option" where
  "op_name_from_action action = (case or_none action of None \<Rightarrow> None | Some a \<Rightarrow>
     (let a' = strip_quotes (strip a) in
      if CHR ''.'' \<in> set a' then Some (last (split_on (CHR ''.'') a'))
      else if CHR ''/'' \<in> set a' then Some (last (split_on (CHR ''/'') a'))
      else or_none (Some a')))"

section \<open>The POST route\<close>

definition http :: "lxml \<Rightarrow> nat \<Rightarrow> node \<Rightarrow> (nat \<times> string) res" where
  "http lx status n = rbind (serialize lx n) (\<lambda>content. Inr (status, content))"

definition post_soap :: "lxml \<Rightarrow> string \<Rightarrow> string option \<Rightarrow> MockStore \<Rightarrow> (nat \<times> string) res \<times> MockStore" where
  "post_soap lx raw soapaction s = (case lx_strict lx raw of
      Inl e \<Rightarrow> ((if e = XMLSyntaxError
                then http lx 500 (fault_tree (''malformed SOAP envelope: '' @ lx_message lx e)) else Inl e), s)
    | Inr None \<Rightarrow> (Inl AttributeError, s)
    | Inr (Some envelope) \<Rightarrow>
        (let op_el = find_body_op envelope;
             op_name = (case op_el of Some n \<Rightarrow> or_none (Some (el_local n)) | None \<Rightarrow> None);
             op_name' = (case op_name of Some n \<Rightarrow> Some n | None \<Rightarrow> op_name_from_action soapaction)
         in case (op_name', op_el) of
              (Some name, Some n) \<Rightarrow>
                if name = [] then (http lx 500 (fault_tree ''could not identify SOAP operation''), s)
                else (case dispatch lx name n s of
                     (Inl e, s') \<Rightarrow> (http lx 500 (fault_tree (name @ '' failed: '' @ lx_message lx e)), s')
                   | (Inr resp, s') \<Rightarrow> (http lx 200 (envelope_of [resp]), s'))
            | _ \<Rightarrow> (http lx 500 (fault_tree ''could not identify SOAP operation''), s)))"

end
