(* ===== verification/XmlCodec.thy ===== *)
theory XmlCodec
  imports Xml
begin

text \<open>
  A concrete serialiser and parser of element trees with the round-trip law \<open>xml_codec\<close>, so that
  the results that rest on the law are known to be about something. Strings are written one escaped
  character at a time, lists and options with a mark per element.
\<close>

fun put_str :: "string \<Rightarrow> string" where
  "put_str [] = ''.''"
| "put_str (c # cs) = CHR ''a'' # c # put_str cs"

fun get_str :: "string \<Rightarrow> (string \<times> string) option" where
  "get_str (x # xs) =
     (if x = CHR ''.'' then Some ([], xs)
      else (case xs of [] \<Rightarrow> None | c # r \<Rightarrow> map_option (\<lambda>(s, r'). (c # s, r')) (get_str r)))"
| "get_str [] = None"

fun put_attrs :: "(string \<times> string) list \<Rightarrow> string" where
  "put_attrs [] = ''.''"
| "put_attrs ((k, v) # ps) = CHR ''a'' # put_str k @ put_str v @ put_attrs ps"

fun get_attrs :: "nat \<Rightarrow> string \<Rightarrow> ((string \<times> string) list \<times> string) option" where
  "get_attrs (Suc n) (x # xs) =
     (if x = CHR ''.'' then Some ([], xs)
      else (case get_str xs of None \<Rightarrow> None | Some (k, r) \<Rightarrow>
           (case get_str r of None \<Rightarrow> None | Some (v, r') \<Rightarrow>
              map_option (\<lambda>(ps, s). ((k, v) # ps, s)) (get_attrs n r'))))"
| "get_attrs _ _ = None"

fun put_text :: "string option \<Rightarrow> string" where
  "put_text None = ''.''"
| "put_text (Some s) = CHR ''t'' # put_str s"

fun get_text :: "string \<Rightarrow> (string option \<times> string) option" where
  "get_text (x # xs) = (if x = CHR ''.'' then Some (None, xs) else map_option (\<lambda>(s, r). (Some s, r)) (get_str xs))"
| "get_text [] = None"

fun put_node :: "node \<Rightarrow> string" where
  "put_node (Elem ns l a t ks) =
     CHR ''e'' # put_str ns @ put_str l @ put_attrs a @ put_text (or_none t) @ concat (map (\<lambda>k. CHR ''k'' # put_node k) ks) @ ''.''"
| "put_node Misc = ''m''"

fun get_node :: "nat \<Rightarrow> string \<Rightarrow> (node \<times> string) option"
  and get_kids :: "nat \<Rightarrow> string \<Rightarrow> (node list \<times> string) option" where
  "get_node (Suc n) (x # xs) =
     (if x = CHR ''m'' then Some (Misc, xs)
      else (case get_str xs of None \<Rightarrow> None | Some (ns, r1) \<Rightarrow>
           (case get_str r1 of None \<Rightarrow> None | Some (l, r2) \<Rightarrow>
           (case get_attrs n r2 of None \<Rightarrow> None | Some (a, r3) \<Rightarrow>
           (case get_text r3 of None \<Rightarrow> None | Some (t, r4) \<Rightarrow>
              map_option (\<lambda>(ks, r). (Elem ns l a t ks, r)) (get_kids n r4))))))"
| "get_node _ _ = None"
| "get_kids (Suc n) (x # xs) =
     (if x = CHR ''.'' then Some ([], xs)
      else (case get_node n xs of None \<Rightarrow> None | Some (k, r) \<Rightarrow>
              map_option (\<lambda>(ks, r'). (k # ks, r')) (get_kids n r)))"
| "get_kids _ _ = None"

lemma get_put_str: "get_str (put_str s @ r) = Some (s, r)"
  by (induction s) auto

lemma get_put_text: "get_text (put_text t @ r) = Some (t, r)"
  by (cases t) (auto simp: get_put_str)

lemma get_put_attrs: "length (put_attrs a) \<le> n \<Longrightarrow> get_attrs n (put_attrs a @ r) = Some (a, r)"
proof (induction a arbitrary: n)
  case Nil
  then show ?case by (cases n) auto
next
  case (Cons p a)
  then show ?case by (cases n; cases p) (auto simp: get_put_str)
qed

lemma get_put_node:
  "length (put_node x) \<le> n \<Longrightarrow> get_node n (put_node x @ r) = Some (xml_norm x, r)"
proof (induction x arbitrary: n r)
  case (Elem ns l a t ks)
  have kids: "length (concat (map (\<lambda>k. CHR ''k'' # put_node k) js)) < m \<Longrightarrow> set js \<subseteq> set ks \<Longrightarrow>
      get_kids m (concat (map (\<lambda>k. CHR ''k'' # put_node k) js) @ CHR ''.'' # r) = Some (map xml_norm js, r)" for js m
  proof (induction js arbitrary: m)
    case Nil
    then show ?case by (cases m) auto
  next
    case (Cons j js)
    then obtain m' where m: "m = Suc m'" by (cases m) auto
    from Cons.prems m have "get_node m' (put_node j @ concat (map (\<lambda>k. CHR ''k'' # put_node k) js) @ CHR ''.'' # r)
       = Some (xml_norm j, concat (map (\<lambda>k. CHR ''k'' # put_node k) js) @ CHR ''.'' # r)"
      by (intro Elem.IH) auto
    with Cons m show ?case by simp
  qed
  obtain n' where n: "n = Suc n'" using Elem.prems by (cases n) auto
  with Elem.prems kids [of ks n'] show ?case by (simp add: get_put_str get_put_text get_put_attrs)
next
  case Misc
  then show ?case by (cases n) auto
qed

definition ref_parse :: "string \<Rightarrow> node option res" where
  "ref_parse s = (case get_node (length s) s of Some (x, []) \<Rightarrow> Inr (Some x) | _ \<Rightarrow> Inl XMLSyntaxError)"

definition ref_lxml :: lxml where
  "ref_lxml = \<lparr>lx_recover = ref_parse, lx_strict = ref_parse, lx_tostring = put_node, lx_message = (\<lambda>e. ''error'')\<rparr>"

lemma ref_lxml_codec: "xml_codec ref_lxml"
  using get_put_node [of _ _ "[]"] by (auto simp: xml_codec_def ref_lxml_def ref_parse_def)

end
