(* ===== verification/Wire.thy ===== *)
theory Wire
  imports Client MockServer XmlCodec
begin

text \<open>
  The wire between the client and a store: the OptionsIn string is read back as the options that
  were built, the index range of a query is read back as the indices that were asked for, and what
  the builders print are legal XML characters.
\<close>

section \<open>Legal characters\<close>

lemma legal_digit: "is_digit c \<Longrightarrow> legal_char c"
  by (simp add: is_digit_def legal_char_def Let_def)

lemma legal_digits: "list_all is_digit s \<Longrightarrow> list_all legal_char s"
  by (auto simp: list_all_iff legal_digit)

lemma digits_show_pos: "list_all is_digit (show_pos n)"
proof (cases "0 \<le> n")
  case False
  then have "show_pos n = [digit_char n]" "digit_char n = digit_char 0"
    by (simp_all add: show_pos.simps [of n] digit_char_def)
  then show ?thesis by (simp add: is_digit_digit_char)
qed (rule show_pos_digits)

lemma legal_chars [simp]:
  "legal_char (CHR ''-'')" "legal_char (CHR ''+'')" "legal_char (CHR ''.'')" "legal_char (CHR ''e'')"
  "legal_char (CHR ''T'')" "legal_char (CHR '':'')" "legal_char (CHR ''Z'')" "legal_char (CHR ''0'')"
  "legal_char (CHR '','')" "legal_char (CHR ''='')" "legal_char (CHR '';'')"
  by (simp_all add: legal_char_def)

lemma legal_show_int [simp]: "list_all legal_char (show_int i)"
  using legal_digits [OF digits_show_pos] by (simp add: show_int_def)

lemma legal_take_drop: "list_all p xs \<Longrightarrow> list_all p (take n xs) \<and> list_all p (drop n xs)"
  by (auto simp: list_all_iff dest: in_set_takeD in_set_dropD)

lemma legal_zeros [simp]: "list_all legal_char (zeros n)"
  by (simp add: zeros_def list_all_iff)

lemma legal_layout: "list_all is_digit ds \<Longrightarrow> list_all legal_char (repr_layout ds k)"
  using legal_digits [of ds] legal_take_drop [of legal_char ds] legal_digits [OF digits_show_pos]
  by (auto simp: repr_layout_def Let_def)

lemma digits_strip_zeros: "list_all is_digit s \<Longrightarrow> list_all is_digit (strip_zeros s)"
  by (auto simp: strip_zeros_def list_all_iff dest: set_dropWhileD)

lemma legal_repr_float [simp]: "list_all legal_char (repr_float x)"
proof -
  have "list_all legal_char (repr_pos a)" for a
    by (auto simp: repr_pos_def Let_def split: prod.splits intro!: legal_layout digits_strip_zeros digits_show_pos)
  then show ?thesis by (auto simp: repr_float_def legal_char_def split: pyfloat.splits)
qed

lemma legal_pad [simp]: "list_all legal_char (pad n i)"
  by (simp add: pad_def Let_def list_all_append) (simp add: list_all_iff)

lemma legal_strftime [simp]: "list_all legal_char (strftime_ms us)"
  by (simp add: strftime_ms_def Let_def split: prod.splits)

section \<open>OptionsIn\<close>

text \<open>Options whose names and values the wire keeps: without separators and outer blanks.\<close>

definition clean_option :: "string \<times> opt_value \<Rightarrow> bool" where
  "clean_option kv = (fst kv \<noteq> [] \<and> strip (fst kv) = fst kv \<and> CHR '';'' \<notin> set (fst kv) \<and> CHR ''='' \<notin> set (fst kv) \<and>
     (case opt_text (snd kv) of None \<Rightarrow> True | Some t \<Rightarrow> t \<noteq> [] \<and> strip t = t \<and> CHR '';'' \<notin> set t))"

definition option_dict :: "(string \<times> opt_value) list \<Rightarrow> (string \<times> string) list" where
  "option_dict kvs = fold (\<lambda>(k, v) d. case opt_text v of None \<Rightarrow> d | Some t \<Rightarrow> AList.update (lower k) t d) kvs []"

lemma strip_append_mid:
  assumes "k \<noteq> []" "strip k = k" "t \<noteq> []" "strip t = t"
  shows "strip (k @ m @ t) = k @ m @ t"
proof -
  have "\<not> is_space (hd k)" "\<not> is_space (last t)"
    using strip_ends [of k] strip_ends [of t] assms by auto
  with assms(1,3) show ?thesis by (intro strip_id) auto
qed

lemma partition_on_eq: "c \<notin> set k \<Longrightarrow> partition_on c (k @ c # t) = (k, t)"
  by (induction k) (auto simp: partition_on_def)

lemma parse_parts_built:
  assumes "list_all clean_option kvs"
  shows "parse_parts (concat (map (\<lambda>(k, v). case opt_text v of None \<Rightarrow> [] | Some t \<Rightarrow> [k @ ''='' @ t]) kvs)) d =
    fold (\<lambda>(k, v) d. case opt_text v of None \<Rightarrow> d | Some t \<Rightarrow> AList.update (lower k) t d) kvs d"
  using assms
proof (induction kvs arbitrary: d)
  case (Cons kv kvs)
  obtain k v where kv: "kv = (k, v)" by (cases kv)
  show ?case
  proof (cases "opt_text v")
    case (Some t)
    with Cons.prems kv have c: "k \<noteq> []" "strip k = k" "t \<noteq> []" "strip t = t" "CHR ''='' \<notin> set k"
      by (auto simp: clean_option_def)
    then have "strip (k @ CHR ''='' # t) = k @ CHR ''='' # t" using strip_append_mid [of k t "''=''"] by simp
    with Some Cons kv c show ?thesis by (simp add: Let_def partition_on_eq)
  qed (use Cons kv in simp)
qed simp

lemma join_eq_Nil: "join sep xs = [] \<Longrightarrow> sep \<noteq> [] \<Longrightarrow> xs = [] \<or> xs = [[]]"
  by (induction sep xs rule: join.induct) auto

lemma parse_options_built:
  assumes "list_all clean_option kvs"
  shows "parse_options (Some (options_in kvs)) = option_dict kvs"
proof -
  let ?ps = "concat (map (\<lambda>(k, v). case opt_text v of None \<Rightarrow> [] | Some t \<Rightarrow> [k @ ''='' @ t]) kvs)"
  have o: "options_in kvs = join '';'' ?ps" by (simp add: options_in_def)
  have built: "parse_parts ?ps [] = option_dict kvs" using parse_parts_built [OF assms] by (simp add: option_dict_def)
  have sep: "CHR '';'' \<notin> set p" if "p \<in> set ?ps" for p
    using that assms by (auto simp: list_all_iff clean_option_def split: option.splits)
  show ?thesis
  proof (cases "options_in kvs = []")
    case True
    then have "?ps = [] \<or> ?ps = [[]]" unfolding o by (rule join_eq_Nil) simp
    moreover have "[] \<notin> set ?ps" by (auto split: option.splits)
    ultimately have "?ps = []" by (metis list.set_intros(1))
    with built True show ?thesis by (simp add: parse_options_def or_none_def)
  next
    case False
    then have "?ps \<noteq> []" unfolding o by (metis join.simps(1))
    then have "split_on (CHR '';'') (options_in kvs) = ?ps" unfolding o by (intro split_on_join) (use sep in auto)
    with False built show ?thesis by (simp add: parse_options_def or_none_def)
  qed
qed

lemma show_int_ends: "show_int i \<noteq> []" "strip (show_int i) = show_int i" "CHR '';'' \<notin> set (show_int i)"
proof -
  have d: "list_all is_digit (show_pos n)" for n by (rule digits_show_pos)
  show ne: "show_int i \<noteq> []" by (simp add: show_int_def)
  have "is_digit c \<Longrightarrow> c \<noteq> CHR '';''" for c by (auto simp: is_digit_def)
  with d show "CHR '';'' \<notin> set (show_int i)" by (auto simp: show_int_def list_all_iff)
  have "\<not> is_space (CHR ''-'')" by (simp add: is_space_def)
  moreover have "is_digit (hd (show_pos n))" "is_digit (last (show_pos n))" for n
    using d [of n] by (simp_all add: list_all_iff)
  ultimately show "strip (show_int i) = show_int i"
    by (intro strip_id) (auto simp: show_int_def digit_not_space)
qed

lemma data_options_parsed:
  "parse_options (Some (data_options m)) =
     (''returnelements'', ''data-only'') # (case m of None \<Rightarrow> [] | Some n \<Rightarrow> [(''maxreturnnodes'', show_int n)])"
proof -
  have low: "lower OPT_RETURN_ELEMENTS = ''returnelements''" "lower OPT_MAX_RETURN_NODES = ''maxreturnnodes''"
    "strip OPT_RETURN_ELEMENTS = OPT_RETURN_ELEMENTS" "strip OPT_MAX_RETURN_NODES = OPT_MAX_RETURN_NODES"
    "strip ''data-only'' = ''data-only''"
    by code_simp+
  have "list_all clean_option [(OPT_RETURN_ELEMENTS, OvStr (re_value DATA_ONLY)),
     (OPT_MAX_RETURN_NODES, case m of None \<Rightarrow> OvNone | Some n \<Rightarrow> OvInt n)]"
    using low show_int_ends by (cases m) (simp_all add: clean_option_def, simp_all add: opt_names)
  from parse_options_built [OF this] show ?thesis
    by (cases m) (simp_all add: data_options_def option_dict_def low)
qed

lemma is_float_small_int: "\<bar>n\<bar> \<le> 2 ^ 53 \<Longrightarrow> is_float (of_int n)"
proof -
  assume n: "\<bar>n\<bar> \<le> 2 ^ 53"
  have b: "(of_int k :: rat) < 2 ^ 1024" if "k \<le> 2 ^ 53" for k :: int
  proof -
    have "(of_int k :: rat) \<le> of_int (2 ^ 53)" using that by (simp only: of_int_le_iff)
    then show ?thesis by simp
  qed
  consider "n = 0" | "0 < n" | "n < 0" by linarith
  then show ?thesis
  proof cases
    case 2
    with n b [of n] is_float_scaled [of n 0 "of_int n"] show ?thesis by simp
  next
    case 3
    with n b [of "- n"] is_float_scaled [of "- n" 0 "of_int (- n)"] show ?thesis by simp
  qed simp
qed

lemma parse_int_show: "\<bar>n\<bar> \<le> 2 ^ 53 \<Longrightarrow> parse_int (Some (show_int n)) = Inr (Some n)"
  using float_int_roundtrip [OF is_float_small_int] by (simp add: parse_int_def int_of_float_def)

section \<open>The index range of a query\<close>

text \<open>
  An index the wire carries exactly: a finite float of a depth log, or a UTC instant of a time log
  with whole milliseconds and a four-digit year.
\<close>

definition wire_index :: "IndexType \<Rightarrow> pyval \<Rightarrow> bool" where
  "wire_index it v = (if is_time it then (\<exists>us. v = VDt (DT True us) \<and> four_digit_year us \<and> us mod 1000 = 0)
     else (\<exists>q. v = VFloat (Fin q) \<and> is_float q))"

text \<open>What a bound turns into: a time loses the part below the millisecond.\<close>

fun wire_bound :: "pyval \<Rightarrow> pyval" where
  "wire_bound (VDt d) = VDt (DT True (trunc_ms (dt_us d)))"
| "wire_bound v = v"

definition sendable :: "IndexType \<Rightarrow> pyval \<Rightarrow> bool" where
  "sendable it v = (if is_time it then (\<exists>d. v = VDt d \<and> four_digit_year (dt_us d))
     else (\<exists>q. v = VFloat (Fin q) \<and> is_float q))"

lemma wire_index_sendable: "wire_index it v \<Longrightarrow> sendable it v \<and> wire_bound v = v"
  by (auto simp: wire_index_def sendable_def trunc_ms_def split: if_splits)

lemma wire_index_good: "wire_index it v \<Longrightarrow> good_index (if is_time it then 2 else 0) v"
  by (auto simp: wire_index_def good_index_def is_nan_def split: if_splits)

lemma iso_utc_sendable:
  assumes "is_time it" "sendable it v"
  obtains t where "iso_utc v = Inr t" "xml_text (el tag a None [leaf x t]) x = Some t"
     "parse_dt t = Some (val_dt (wire_bound v))" "list_all legal_char t" "t \<noteq> []" "strip t = t"
proof -
  from assms obtain d where d: "v = VDt d" "four_digit_year (dt_us d)" by (auto simp: sendable_def)
  have ne: "strftime_ms (dt_us d) \<noteq> []" by (simp add: strftime_ms_last)
  show ?thesis
    using d ne strftime_ms_strip [OF d(2)] parse_dt_strftime [OF d(2)]
    by (intro that [of "strftime_ms (dt_us d)"]) (simp_all add: xml_text_el or_none_def)
qed

text \<open>The element a bound becomes, and what the server reads from it.\<close>

lemma range_elem_sendable:
  assumes "sendable it x"
  obtains a t where "range_elem it uom tt dt (Some x) = Inr [el (if is_time it then tt else dt) a (Some t) []]"
    "list_all legal_char t" "list_all (\<lambda>p. list_all legal_char (snd p)) a \<or> \<not> list_all legal_char (or_str uom '''')"
    "or_none (Some (strip t)) = Some (strip t)"
    "if is_time it then parse_dt (strip t) = Some (val_dt (wire_bound x)) else float_of_string (strip t) = Some (val_float x)"
proof (cases "is_time it")
  case True
  obtain t where "iso_utc x = Inr t" "parse_dt t = Some (val_dt (wire_bound x))" "list_all legal_char t" "t \<noteq> []" "strip t = t"
    using iso_utc_sendable [OF True assms] by metis
  with True show ?thesis
    by (intro that [of "[]" t]) (simp_all add: range_elem_def leaf_def or_none_def)
next
  case False
  with assms obtain q where q: "x = VFloat (Fin q)" "is_float q" by (auto simp: sendable_def)
  obtain t where t: "fmt_num x = Inr t" "list_all legal_char t"
  proof (cases "is_integer (Fin q)")
    case True
    then show ?thesis using that fmt_num_integer [OF True] q by simp
  next
    case False
    then show ?thesis using that q by simp
  qed
  then have f: "float_of_string t = Some (Fin q)" using float_fmt_num q by simp
  then have "strip t \<noteq> []" using float_of_string_strip [of t] by (metis float_of_string_Nil option.distinct(1))
  with False t f q show ?thesis
    by (intro that [of "[(''uom'', or_str uom '''')]" t]) (auto simp: range_elem_def or_none_def)
qed

lemma find_first_skip:
  "list_all (\<lambda>x. \<not> p x) pre \<Longrightarrow> list_all (\<lambda>x. \<not> p x) post \<Longrightarrow>
     find_first p (pre @ ns @ post) = find_first p ns"
proof -
  assume pre: "list_all (\<lambda>x. \<not> p x) pre" and post: "list_all (\<lambda>x. \<not> p x) post"
  then have "find_first p pre = None" "find_first p post = None" by (auto simp: find_first_None list_all_iff)
  then show ?thesis by (simp add: find_first_append split: option.splits)
qed

lemma other_local: "list_all (has_local x) ns \<Longrightarrow> x \<noteq> y \<Longrightarrow> list_all (\<lambda>n. \<not> has_local y n) ns"
proof (induction ns)
  case (Cons n ns)
  then show ?case by (cases n) auto
qed simp

lemma xml_text_skip:
  assumes "list_all (\<lambda>n. \<not> has_local x n) pre" "list_all (\<lambda>n. \<not> has_local x n) post"
  shows "xml_text (el tag a t (pre @ ns @ post)) x = xml_text (el tag a t ns) x"
  by (simp only: xml_text_el find_first_skip [OF assms])

definition other_tags :: "node list \<Rightarrow> bool" where
  "other_tags ns = list_all (\<lambda>n. \<not> has_local ''startDateTimeIndex'' n \<and> \<not> has_local ''endDateTimeIndex'' n \<and>
     \<not> has_local ''startIndex'' n \<and> \<not> has_local ''endIndex'' n) ns"

lemma other_tags_data: "other_tags (map curve_elem ms @ [el ''logData'' [] None ks])"
  by (simp add: other_tags_def curve_elem_def list_all_iff)

lemma query_range_norm [simp]: "query_range (xml_norm n) it = query_range n it"
  by (simp add: query_range_def time_bound_def depth_bound_def)

lemma query_range_built:
  assumes s: "case start of None \<Rightarrow> True | Some x \<Rightarrow> sendable it x"
    and e: "case stop of None \<Rightarrow> True | Some x \<Rightarrow> sendable it x"
    and rest: "other_tags rest" and uom: "list_all legal_char (or_str uom '''')"
  obtains ns ne where "range_elem it uom ''startDateTimeIndex'' ''startIndex'' start = Inr ns"
    "range_elem it uom ''endDateTimeIndex'' ''endIndex'' stop = Inr ne" "list_all xml_legal (ns @ ne)"
    "\<forall>tag a t. query_range (el tag a t ((ns @ ne) @ rest)) it = Inr (map_option wire_bound start, map_option wire_bound stop)"
proof -
  let ?S = "if is_time it then ''startDateTimeIndex'' else ''startIndex''"
  let ?E = "if is_time it then ''endDateTimeIndex'' else ''endIndex''"
  have one: "\<exists>ns. range_elem it uom tt dt v = Inr ns \<and> list_all xml_legal ns \<and>
      list_all (has_local (if is_time it then tt else dt)) ns \<and>
      (\<forall>tag a t. if is_time it then time_bound (el tag a t ns) tt = map_option wire_bound v
                  else depth_bound (el tag a t ns) dt = Inr (map_option wire_bound v))"
    if v: "case v of None \<Rightarrow> True | Some x \<Rightarrow> sendable it x" for tt dt v
  proof (cases v)
    case None
    then show ?thesis by (simp add: range_elem_def time_bound_def depth_bound_def xml_text_el or_none_def)
  next
    case (Some x)
    with v have x: "sendable it x" by simp
    from range_elem_sendable [OF x, of uom tt dt] obtain a t where
      r: "range_elem it uom tt dt (Some x) = Inr [el (if is_time it then tt else dt) a (Some t) []]"
      "list_all legal_char t" "list_all (\<lambda>p. list_all legal_char (snd p)) a"
      "or_none (Some (strip t)) = Some (strip t)"
      "if is_time it then parse_dt (strip t) = Some (val_dt (wire_bound x)) else float_of_string (strip t) = Some (val_float x)"
      using uom by metis
    from x have "if is_time it then VDt (val_dt (wire_bound x)) = wire_bound x else VFloat (val_float x) = wire_bound x"
      by (auto simp: sendable_def)
    with r Some show ?thesis
      by (intro exI [of _ "[el (if is_time it then tt else dt) a (Some t) []]"])
         (auto simp: time_bound_def depth_bound_def xml_text_el split: if_splits)
  qed
  obtain ns where ns: "range_elem it uom ''startDateTimeIndex'' ''startIndex'' start = Inr ns" "list_all xml_legal ns"
      "list_all (has_local ?S) ns"
      "\<forall>tag a t. if is_time it then time_bound (el tag a t ns) ''startDateTimeIndex'' = map_option wire_bound start
                  else depth_bound (el tag a t ns) ''startIndex'' = Inr (map_option wire_bound start)"
    using one [OF s] by blast
  obtain ne where ne: "range_elem it uom ''endDateTimeIndex'' ''endIndex'' stop = Inr ne" "list_all xml_legal ne"
      "list_all (has_local ?E) ne"
      "\<forall>tag a t. if is_time it then time_bound (el tag a t ne) ''endDateTimeIndex'' = map_option wire_bound stop
                  else depth_bound (el tag a t ne) ''endIndex'' = Inr (map_option wire_bound stop)"
    using one [OF e] by blast
  have "list_all (\<lambda>n. \<not> has_local ?S n) ne" "list_all (\<lambda>n. \<not> has_local ?E n) ns"
    by (rule other_local [OF ne(3)], simp) (rule other_local [OF ns(3)], simp)
  moreover have "list_all (\<lambda>n. \<not> has_local ?S n) rest" "list_all (\<lambda>n. \<not> has_local ?E n) rest"
    using rest by (cases "is_time it"; simp add: other_tags_def list_all_iff)+
  ultimately have "xml_text (el tag a t ((ns @ ne) @ rest)) ?S = xml_text (el tag a t ns) ?S"
    "xml_text (el tag a t ((ns @ ne) @ rest)) ?E = xml_text (el tag a t ne) ?E" for tag a t
    using xml_text_skip [of ?S "[]" "ne @ rest"] xml_text_skip [of ?E ns rest] by simp_all
  then have "query_range (el tag a t ((ns @ ne) @ rest)) it = Inr (map_option wire_bound start, map_option wire_bound stop)" for tag a t
    using ns(4) ne(4) by (cases "is_time it") (simp_all add: query_range_def time_bound_def depth_bound_def)
  with ns(1,2) ne(1,2) show ?thesis by (intro that [of ns ne]) simp_all
qed

section \<open>A data query on the wire\<close>

definition request_ok :: "log_request \<Rightarrow> bool" where
  "request_ok rq = (lr_mnemonics rq \<noteq> [] \<and> list_all (list_all legal_char) (lr_mnemonics rq) \<and>
     list_all legal_char (lr_uid_well rq) \<and> list_all legal_char (lr_uid_wellbore rq) \<and> list_all legal_char (lr_uid rq) \<and>
     list_all legal_char (or_str (lr_index_uom rq) ''''))"

definition bound_ok :: "IndexType \<Rightarrow> pyval option \<Rightarrow> bool" where
  "bound_ok it v = (case v of None \<Rightarrow> True | Some x \<Rightarrow> sendable it x)"

definition request_query :: "lxml \<Rightarrow> log_request \<Rightarrow> pyval option \<Rightarrow> QbeQuery res" where
  "request_query lx rq c = log_data_query lx (lr_uid_well rq) (lr_uid_wellbore rq) (lr_uid rq)
     (lr_mnemonics rq) (lr_index_type rq) c (lr_end rq) (lr_index_uom rq) (lr_max_return_nodes rq)"

lemma log_data_query_served:
  assumes lx: "xml_codec lx" and rq: "request_ok rq"
    and c: "bound_ok (lr_index_type rq) c" and e: "bound_ok (lr_index_type rq) (lr_end rq)"
  obtains q rt n where "request_query lx rq c = Inr q" "qq_wml_type q = ''log''"
    "qq_options_in q = data_options (lr_max_return_nodes rq)"
    "lx_recover lx (qq_query_xml q) = Inr (Some rt)" "xml_first rt ''log'' = Some n"
    "attr_get n ''uid'' = Some (lr_uid rq)" "attr_get n ''uidWell'' = Some (lr_uid_well rq)"
    "attr_get n ''uidWellbore'' = Some (lr_uid_wellbore rq)"
    "query_range n (lr_index_type rq) = Inr (map_option wire_bound c, map_option wire_bound (lr_end rq))"
proof -
  let ?it = "lr_index_type rq"
  let ?rest = "map curve_elem (lr_mnemonics rq) @ [el ''logData'' [] None [marker ''data'']]"
  obtain ns ne where r: "range_elem ?it (lr_index_uom rq) ''startDateTimeIndex'' ''startIndex'' c = Inr ns"
    "range_elem ?it (lr_index_uom rq) ''endDateTimeIndex'' ''endIndex'' (lr_end rq) = Inr ne"
    "list_all xml_legal (ns @ ne)"
    "\<forall>tag a t. query_range (el tag a t ((ns @ ne) @ ?rest)) ?it = Inr (map_option wire_bound c, map_option wire_bound (lr_end rq))"
    using query_range_built [where start = c and it = ?it and stop = "lr_end rq" and rest = ?rest and uom = "lr_index_uom rq"] c e rq
    by (auto simp: bound_ok_def request_ok_def other_tags_data)
  let ?attrs = "[(''uidWell'', lr_uid_well rq), (''uidWellbore'', lr_uid_wellbore rq), (''uid'', lr_uid rq)]"
  let ?n = "el ''log'' ?attrs None ((ns @ ne) @ ?rest)"
  let ?rt = "new_root ''logs'' [?n]"
  have tree: "log_data_tree (lr_uid_well rq) (lr_uid_wellbore rq) (lr_uid rq) (lr_mnemonics rq) (ns @ ne) = ?rt"
    by (simp add: log_data_tree_def)
  have "list_all xml_legal (map curve_elem (lr_mnemonics rq))"
    using rq by (auto simp: request_ok_def list_all_iff curve_elem_def)
  then have legal: "xml_legal ?rt"
    using r(3) rq by (simp add: new_root_def request_ok_def WITSML_VERSION_def legal_char_def)
  define q where "q = \<lparr>qq_wml_type = ''log'', qq_query_xml = lx_tostring lx ?rt, qq_options_in = data_options (lr_max_return_nodes rq)\<rparr>"
  have "request_query lx rq c = Inr q"
    using rq r(1,2) legal by (simp add: request_query_def log_data_query_def request_ok_def tree qbe_def serialize_def q_def)
  moreover have "lx_recover lx (qq_query_xml q) = Inr (Some (xml_norm ?rt))"
    using lx legal by (simp add: xml_codec_def q_def)
  moreover have "xml_first (xml_norm ?rt) ''log'' = Some (xml_norm ?n)" by (simp add: new_root_def xml_first_el)
  moreover have "query_range (xml_norm ?n) ?it = Inr (map_option wire_bound c, map_option wire_bound (lr_end rq))"
    unfolding query_range_norm using r(4) by blast
  ultimately show ?thesis by (intro that [of q "xml_norm ?rt" "xml_norm ?n"]) (simp_all add: q_def del: xml_norm_el)
qed

section \<open>Properties\<close>

text \<open>
  C21. The OptionsIn string that is built from options without separators or outer blanks is read
  back by the store as exactly those options, with names in lower case and absent values left out.
\<close>

theorem options_roundtrip:
  assumes "list_all clean_option kvs"
  shows "parse_options (Some (options_in kvs)) = option_dict kvs"
  using assms by (rule parse_options_built)

theorem options_roundtrip_witness:
  "parse_options (Some (options_in [(''returnElements'', OvStr ''data-only''), (''maxReturnNodes'', OvNone), (''x'', OvBool True)]))
     = [(''returnelements'', ''data-only''), (''x'', ''true'')]"
proof -
  let ?o = "[(''returnElements'', OvStr ''data-only''), (''maxReturnNodes'', OvNone), (''x'', OvBool True)]"
  have "list_all clean_option ?o" by code_simp
  then have "parse_options (Some (options_in ?o)) = option_dict ?o" by (rule options_roundtrip)
  also have "option_dict ?o = [(''returnelements'', ''data-only''), (''x'', ''true'')]" by code_simp
  finally show ?thesis .
qed

text \<open>
  C20. A data query survives the wire: the builder succeeds, and the store parses its XML to a log
  element with the requested identity whose index range reads as the requested start and end, a
  time cut to milliseconds and a depth exact.
\<close>

theorem data_query_roundtrip:
  assumes "xml_codec lx" "request_ok rq" "bound_ok (lr_index_type rq) c" "bound_ok (lr_index_type rq) (lr_end rq)"
  shows "\<exists>q rt n. request_query lx rq c = Inr q \<and> lx_recover lx (qq_query_xml q) = Inr (Some rt) \<and>
     xml_first rt ''log'' = Some n \<and> attr_get n ''uid'' = Some (lr_uid rq) \<and>
     query_range n (lr_index_type rq) = Inr (map_option wire_bound c, map_option wire_bound (lr_end rq))"
  using log_data_query_served [OF assms] by metis

theorem data_query_roundtrip_witness:
  "\<exists>q rt n. request_query ref_lxml \<lparr>lr_uid_well = ''W'', lr_uid_wellbore = ''B'', lr_uid = ''L'', lr_mnemonics = [''TIME''],
       lr_index_type = DATE_TIME, lr_direction = INCREASING, lr_start = None, lr_end = None, lr_index_uom = None,
       lr_max_return_nodes = None\<rparr> (Some (VDt (DT True 1709209845678999))) = Inr q \<and>
     lx_recover ref_lxml (qq_query_xml q) = Inr (Some rt) \<and> xml_first rt ''log'' = Some n \<and>
     query_range n DATE_TIME = Inr (Some (VDt (DT True 1709209845678000)), None)"
proof -
  let ?rq = "\<lparr>lr_uid_well = ''W'', lr_uid_wellbore = ''B'', lr_uid = ''L'', lr_mnemonics = [''TIME''],
       lr_index_type = DATE_TIME, lr_direction = INCREASING, lr_start = None, lr_end = None, lr_index_uom = None,
       lr_max_return_nodes = None\<rparr>"
  let ?c = "Some (VDt (DT True 1709209845678999))"
  have "request_ok ?rq" by (simp add: request_ok_def legal_char_def or_str_def)
  moreover have "bound_ok (lr_index_type ?rq) ?c" "bound_ok (lr_index_type ?rq) (lr_end ?rq)"
    by (simp_all add: bound_ok_def sendable_def four_digit_year_def usec_of_def ymd2ord_def days_before_month_def
        days_before_year_def epoch_ord_def)
  ultimately show ?thesis
    using data_query_roundtrip [OF ref_lxml_codec, of ?rq ?c] by (simp add: trunc_ms_def) blast
qed

end
