(* ===== verification/LogFetch.thy ===== *)
theory LogFetch
  imports Wire
begin

text \<open>
  The client against the mock store: one iteration of the +2 loop returns the page of the log from
  the cursor on, and the loop as a whole returns every row from the start on, once, in ascending
  order.
\<close>

declare is_time.simps [simp del]

section \<open>The store as a service\<close>

text \<open>
  The WMLS operations of the mock store as zeep exposes them: the parts of the response by name, with
  Result as an integer.
\<close>

definition supp_part :: "string option \<Rightarrow> pyobj" where
  "supp_part supp = OStr (or_str supp '''')"

definition pair_response :: "answer \<Rightarrow> response" where
  "pair_response a = RObj [(''Result'', OInt (fst a)), (''SuppMsgOut'', supp_part (snd a))]"

definition store_service :: "lxml \<Rightarrow> MockStore service" where
  "store_service lx = \<lparr>
     svc_get_version = (\<lambda>s. (Inr (RStr ''1.4.1.1''), s)),
     svc_get_cap = (\<lambda>o' s. (rbind (capabilities_xml lx s) (\<lambda>x. Inr (RObj [(''Result'', OInt 1), (''CapabilitiesOut'', OStr x),
        (''SuppMsgOut'', OStr '''')])), s)),
     svc_get_from_store = (\<lambda>ty q o' cap s. (rbind (store_query lx ty q (Some o') s) (\<lambda>(rc, x, supp).
        Inr (RObj [(''Result'', OInt rc), (''XMLout'', OStr x), (''SuppMsgOut'', supp_part supp)])), s)),
     svc_add_to_store = (\<lambda>ty x o' s. let (a, s') = add_object lx ty x s in (Inr (pair_response a), s')),
     svc_update_in_store = (\<lambda>ty x o' s. let (a, s') = update_object lx ty x s in (Inr (pair_response a), s')),
     svc_delete_from_store = (\<lambda>ty q o' s. case delete_object lx ty q s of
        Inl e \<Rightarrow> (Inl e, s) | Inr (a, s') \<Rightarrow> (Inr (pair_response a), s')),
     svc_get_base_msg = (\<lambda>i s. (Inr (RStr (base_msg i)), s)),
     svc_str = (\<lambda>r. '''')\<rparr>"

lemma get_from_store_service:
  assumes "store_query lx ty q (Some opts) s = Inr (rc, x, supp)"
  shows "get_from_store (store_service lx) ty q opts s = (Inr (rc, Some x, Some (or_str supp '''')), s)"
  using assms by (simp add: get_from_store_def sbind_def store_service_def result_triple_def part_def supp_part_def lift_res_def)

section \<open>Logs the wire carries exactly\<close>

definition clean_field :: "string \<Rightarrow> bool" where
  "clean_field t = (strip t = t \<and> CHR '','' \<notin> set t \<and> list_all legal_char t)"

definition wire_row :: "IndexType \<Rightarrow> store_row \<Rightarrow> bool" where
  "wire_row it p = (snd p \<noteq> [] \<and> list_all clean_field (snd p) \<and> wire_index it (fst p) \<and>
     parse_index (Some (hd (snd p))) it = Some (fst p) \<and> hd (snd p) \<notin> set COMMON_NULL_SENTINELS)"

definition wire_log :: "StoredLog \<Rightarrow> bool" where
  "wire_log lg = (list_all (wire_row (sl_index_type lg)) (sl_rows lg) \<and> distinct (map fst (sl_rows lg)) \<and>
     sl_mnemonics lg \<noteq> [] \<and> list_all (\<lambda>m. clean_field m \<and> m \<noteq> []) (sl_mnemonics lg) \<and>
     list_all (\<lambda>u. clean_field (or_str u '''')) (sl_units lg) \<and>
     list_all legal_char (sl_uid lg) \<and> list_all legal_char (sl_uid_well lg) \<and> list_all legal_char (sl_uid_wellbore lg))"

text \<open>The request addresses this log of the store, and only this one.\<close>

definition addresses :: "MockStore \<Rightarrow> log_request \<Rightarrow> StoredLog \<Rightarrow> bool" where
  "addresses s rq lg = (lr_uid rq \<noteq> [] \<and> lr_uid_well rq \<noteq> [] \<and> lr_uid_wellbore rq \<noteq> [] \<and>
     filter (\<lambda>l. sl_uid l = lr_uid rq \<and> sl_uid_well l = lr_uid_well rq \<and> sl_uid_wellbore l = lr_uid_wellbore rq)
       (map snd (ms_logs s)) = [lg] \<and>
     lr_index_type rq = sl_index_type lg \<and> lr_direction rq = sl_direction lg)"

section \<open>The rows of a page\<close>

definition growth_rows :: "StoredLog \<Rightarrow> store_row list" where
  "growth_rows lg = (let rs = sort_key fst (sl_rows lg) in if sl_direction lg = DECREASING then rev rs else rs)"

text \<open>Not before the start and not after the end, in growth order.\<close>

definition in_range :: "Direction \<Rightarrow> pyval option \<Rightarrow> pyval option \<Rightarrow> pyval \<Rightarrow> bool" where
  "in_range d start stop i = ((case start of None \<Rightarrow> True | Some v \<Rightarrow> \<not> newer_than d v i) \<and>
     (case stop of None \<Rightarrow> True | Some v \<Rightarrow> \<not> newer_than d i v))"

definition range_rows :: "StoredLog \<Rightarrow> pyval option \<Rightarrow> pyval option \<Rightarrow> store_row list" where
  "range_rows lg start stop = filter (\<lambda>p. in_range (sl_direction lg) start stop (fst p)) (growth_rows lg)"

lemma set_growth_rows [simp]: "set (growth_rows lg) = set (sl_rows lg)"
  by (simp add: growth_rows_def Let_def)

lemma before_start_good:
  "good_index k i \<Longrightarrow> good_index k v \<Longrightarrow> before_start i v d = Inr (newer_than d v i)"
  by (auto simp: before_start_def newer_than_def good_index_def val_lt_less)

lemma after_end_good:
  "good_index k i \<Longrightarrow> good_index k v \<Longrightarrow> after_end i v d = Inr (newer_than d i v)"
  by (auto simp: after_end_def newer_than_def good_index_def val_lt_less)

lemma in_bounds_good:
  assumes "good_index k i" "case start of None \<Rightarrow> True | Some v \<Rightarrow> good_index k v"
    "case stop of None \<Rightarrow> True | Some v \<Rightarrow> good_index k v"
  shows "in_bounds start stop d i = Inr (in_range d start stop i)"
  using assms by (auto simp: in_bounds_def in_range_def before_start_good after_end_good split: option.splits)

text \<open>Range selection is exact: the rows of the range in growth order, cut after the cap.\<close>

lemma select_range_exact:
  assumes good: "\<forall>p \<in> set (sl_rows lg). good_index k (fst p)"
    and bounds: "case start of None \<Rightarrow> True | Some v \<Rightarrow> good_index k v" "case stop of None \<Rightarrow> True | Some v \<Rightarrow> good_index k v"
  shows "select_range lg start stop (sl_direction lg) max_nodes =
    (let rs = map snd (range_rows lg start stop) in
     Inr (case max_nodes of Some m \<Rightarrow> if 0 < m \<and> m < int (length rs) then (take (nat m) rs, True) else (rs, False)
          | None \<Rightarrow> (rs, False)))"
proof -
  have "comparable (map fst (sl_rows lg))" using good by (auto simp: comparable_iff good_index_def)
  then have "sorted_rows lg (sl_direction lg) = Inr (growth_rows lg)"
    by (simp add: sorted_rows_def val_sort_def growth_rows_def Let_def)
  moreover have "rfilter (\<lambda>p. in_bounds start stop (sl_direction lg) (fst p)) (growth_rows lg) = Inr (range_rows lg start stop)"
    unfolding range_rows_def by (rule rfilter_Inr) (use good bounds in \<open>auto intro: in_bounds_good\<close>)
  ultimately show ?thesis
    by (simp add: select_range_def Let_def take_map split: option.splits)
qed

text \<open>The growth order is strict on distinct indices.\<close>

lemma growth_rows_newer:
  assumes "distinct (map fst (sl_rows lg))"
  shows "sorted_wrt (\<lambda>p q. newer_than (sl_direction lg) (fst q) (fst p)) (growth_rows lg)"
proof -
  let ?s = "sort_key fst (sl_rows lg)"
  have "distinct (map fst ?s)" using assms by (metis distinct_map distinct_sort inj_on_def set_sort)
  then have "sorted_wrt (<) (map fst ?s)" by (simp add: strict_sorted_iff)
  then have "sorted_wrt (\<lambda>p q. fst p < fst q) ?s" by (simp add: sorted_wrt_map)
  moreover have "sl_direction lg = INCREASING \<or> sl_direction lg = DECREASING" by (cases "sl_direction lg") auto
  ultimately show ?thesis
    by (auto simp: growth_rows_def Let_def newer_than_def sorted_wrt_rev)
qed

lemma range_rows_newer:
  "distinct (map fst (sl_rows lg)) \<Longrightarrow>
     sorted_wrt (\<lambda>p q. newer_than (sl_direction lg) (fst q) (fst p)) (range_rows lg start stop)"
  unfolding range_rows_def by (rule sorted_wrt_filter) (rule growth_rows_newer)

section \<open>One page\<close>

definition page :: "StoredLog \<Rightarrow> log_request \<Rightarrow> pyval option \<Rightarrow> store_row list \<times> bool" where
  "page lg rq c = (let rs = range_rows lg c (lr_end rq) in
     case lr_max_return_nodes rq of Some m \<Rightarrow> if 0 < m \<and> m < int (length rs) then (take (nat m) rs, True) else (rs, False)
       | None \<Rightarrow> (rs, False))"

definition wire_decode :: "IndexType \<Rightarrow> store_row \<Rightarrow> row" where
  "wire_decode it p = Some (fst p) # map (\<lambda>c. decode_cell c False it COMMON_NULL_SENTINELS) (drop 1 (snd p))"

definition log_block :: "StoredLog \<Rightarrow> store_row list \<Rightarrow> log_data_block" where
  "log_block lg rs = \<lparr>b_mnemonics = sl_mnemonics lg, b_units = map or_none (sl_units lg),
     b_index_type = sl_index_type lg, b_rows = map (wire_decode (sl_index_type lg)) rs\<rparr>"

definition log_result :: "StoredLog \<Rightarrow> store_row list \<Rightarrow> LogDataResult" where
  "log_result lg rs = \<lparr>ldr_uid = sl_uid lg, ldr_uid_well = sl_uid_well lg, ldr_uid_wellbore = sl_uid_wellbore lg,
     ldr_index_type = sl_index_type lg, ldr_block = log_block lg rs\<rparr>"

lemma decode_cell_index:
  assumes "wire_row it p"
  shows "decode_cell (hd (snd p)) True it COMMON_NULL_SENTINELS = Some (fst p)"
proof -
  let ?t = "hd (snd p)"
  have t: "parse_index (Some ?t) it = Some (fst p)" "?t \<notin> set COMMON_NULL_SENTINELS"
    and "clean_field ?t"
    using assms by (auto simp: wire_row_def list_all_iff)
  then have s: "strip ?t = ?t" by (simp add: clean_field_def)
  have ne: "?t \<noteq> []" using t s by (auto simp: parse_index_def split: if_splits)
  with t s show ?thesis
    by (auto simp: decode_cell_def parse_index_def parse_datetime_def parse_float_def Let_def split: if_splits)
qed

lemma decode_row_wire:
  assumes "wire_row it p"
  shows "decode_row it COMMON_NULL_SENTINELS (join '','' (snd p)) = wire_decode it p"
proof -
  obtain c cs where p: "snd p = c # cs" using assms by (cases "snd p") (auto simp: wire_row_def)
  have "split_on (CHR '','') (join '','' (snd p)) = snd p"
    using assms by (intro split_on_join) (auto simp: wire_row_def clean_field_def list_all_iff)
  moreover have "map (\<lambda>(col, raw). decode_cell raw (col = 0) it nulls) (enumerate (Suc k) cs) =
      map (\<lambda>c. decode_cell c False it nulls) cs" for k nulls
    by (induction cs arbitrary: k) auto
  ultimately show ?thesis
    using decode_cell_index [OF assms] by (simp add: decode_row_def p wire_decode_def)
qed

lemma join_ends:
  assumes "list_all clean_field xs" "join '','' xs \<noteq> []"
  shows "\<not> is_space (hd (join '','' xs))" "\<not> is_space (last (join '','' xs))"
proof -
  have comma: "\<not> is_space (CHR '','')" by (simp add: is_space_def)
  have f: "x \<noteq> [] \<Longrightarrow> clean_field x \<Longrightarrow> \<not> is_space (hd x) \<and> \<not> is_space (last x)" for x
    using strip_ends [of x] by (auto simp: clean_field_def)
  show "\<not> is_space (hd (join '','' xs))"
    using assms
  proof (induction "'',''" xs rule: join.induct)
    case (3 x y zs)
    then show ?case using f [of x] comma by (cases x) auto
  qed (use f in auto)
  show "\<not> is_space (last (join '','' xs))"
    using assms
  proof (induction "'',''" xs rule: join.induct)
    case (3 x y zs)
    then show ?case using comma by (cases "join '','' (y # zs) = []") auto
  qed (use f in auto)
qed

lemma strip_join: "list_all clean_field xs \<Longrightarrow> strip (join '','' xs) = join '','' xs"
  using join_ends by (intro strip_id) auto

lemma join_nonempty: "xs \<noteq> [] \<Longrightarrow> hd xs \<noteq> [] \<Longrightarrow> join sep xs \<noteq> []"
  by (cases "(sep, xs)" rule: join.cases) auto

lemma split_join_clean: "xs \<noteq> [] \<Longrightarrow> list_all clean_field xs \<Longrightarrow> split_on (CHR '','') (join '','' xs) = xs"
  by (intro split_on_join) (auto simp: clean_field_def list_all_iff)

lemma or_none_simps [simp]: "or_none None = None" "or_none (Some []) = None" "s \<noteq> [] \<Longrightarrow> or_none (Some s) = Some s"
  by (auto simp: or_none_def)

lemma or_none_idem [simp]: "or_none (or_none x) = or_none x"
  by (cases x) (auto simp: or_none_def)

lemma concat_map_single: "(\<And>x. x \<in> set xs \<Longrightarrow> f x = [g x]) \<Longrightarrow> concat (map f xs) = map g xs"
  by (induction xs) auto

lemma or_none_or_str [simp]: "or_none (Some (or_str u [])) = or_none u"
  by (cases u) (auto simp: or_none_def or_str_def)

text \<open>The unit column of a response, whether or not the list is empty.\<close>

lemma units_read:
  assumes "us \<noteq> []" "list_all (\<lambda>u. clean_field (or_str u [])) us"
  shows "(case or_none (Some (join '','' (map (\<lambda>u. or_str u []) us))) of
       Some t \<Rightarrow> map (\<lambda>u. or_none (Some (strip u))) (split_on (CHR '','') t)
     | None \<Rightarrow> replicate (length us) None) = map or_none us"
proof (cases "join '','' (map (\<lambda>u. or_str u []) us) = []")
  case True
  obtain u us' where us: "us = u # us'" using assms(1) by (cases us) auto
  with True have "us' = []" "or_str u [] = []" by (cases us'; simp)+
  with True us show ?thesis by (cases u) (auto simp: or_str_def or_none_def split: if_splits)
next
  case False
  have "list_all clean_field (map (\<lambda>u. or_str u []) us)" using assms(2) by (auto simp: list_all_iff)
  then have sp: "split_on (CHR '','') (join '','' (map (\<lambda>u. or_str u []) us)) = map (\<lambda>u. or_str u []) us"
    using assms(1) by (intro split_join_clean) auto
  have "map (\<lambda>u. or_none (Some (strip (or_str u [])))) us = map or_none us"
    using assms(2) by (auto simp: list_all_iff clean_field_def )
  with False sp show ?thesis by (simp add: o_def)
qed

lemma wire_row_text:
  assumes "wire_row it p"
  shows "join '','' (snd p) \<noteq> []" "list_all legal_char (join '','' (snd p))"
proof -
  have "hd (snd p) \<noteq> []" using assms by (auto simp: wire_row_def parse_index_def)
  then show "join '','' (snd p) \<noteq> []" using assms by (intro join_nonempty) (auto simp: wire_row_def)
  have "set (join '','' (snd p)) \<subseteq> set '','' \<union> (\<Union>x \<in> set (snd p). set x)" by (rule set_join_subset)
  then show "list_all legal_char (join '','' (snd p))"
    using assms by (auto simp: wire_row_def clean_field_def list_all_iff)
qed

lemma read_log_data_facts:
  assumes "xml_first n ''logData'' = Some ld" "or_none (xml_text ld ''mnemonicList'') = Some ml"
    "map strip (split_on (CHR '','') ml) = ms"
    "(case or_none (xml_text ld ''unitList'') of
       Some t \<Rightarrow> map (\<lambda>u. or_none (Some (strip u))) (split_on (CHR '','') t)
     | None \<Rightarrow> replicate (length ms) None) = us" "length us = length ms"
    "null_tokens n None = nulls"
    "concat (map (\<lambda>d. case node_text d of None \<Rightarrow> [] | Some t \<Rightarrow> [decode_row it nulls t]) (xml_children ld ''data'')) = rows"
  shows "read_log_data (Some it) None n = Some \<lparr>ldr_uid = get_attr n ''uid'' [], ldr_uid_well = get_attr n ''uidWell'' [],
     ldr_uid_wellbore = get_attr n ''uidWellbore'' [], ldr_index_type = it,
     ldr_block = \<lparr>b_mnemonics = ms, b_units = us, b_index_type = it, b_rows = rows\<rparr>\<rparr>"
  using assms(1,2) unfolding read_log_data_def
  by (simp add: Let_def assms(3-7))

lemma read_log_data_rendered:
  assumes lg: "wire_log lg" and rs: "set rs \<subseteq> set (sl_rows lg)"
  shows "read_log_data (Some (sl_index_type lg)) None (xml_norm (el ''log'' (log_attrs lg) None (render_data lg (map snd rs)))) =
     (if rs = [] then None else Some (log_result lg rs))"
proof (cases "rs = []")
  case True
  then show ?thesis by (simp add: read_log_data_def render_data_def xml_first_el)
next
  case False
  let ?it = "sl_index_type lg"
  let ?ms = "sl_mnemonics lg" and ?us = "sl_units lg"
  have ms: "?ms \<noteq> []" "list_all clean_field ?ms" "hd ?ms \<noteq> []"
    using lg by (auto simp: wire_log_def list_all_iff)
  then have mj: "strip (join '','' ?ms) = join '','' ?ms" "join '','' ?ms \<noteq> []" "split_on (CHR '','') (join '','' ?ms) = ?ms"
    by (simp_all add: strip_join join_nonempty split_join_clean)
  have mstrip: "map strip ?ms = ?ms" using ms(2) by (auto simp: list_all_iff clean_field_def intro!: map_idI)
  have us: "?us \<noteq> []" "list_all (\<lambda>u. clean_field (or_str u [])) ?us" "length ?us = length ?ms"
    using lg ms(1) by (auto simp: wire_log_def sl_units_def sl_mnemonics_def)
  have uj: "strip (join '','' (map (\<lambda>u. or_str u []) ?us)) = join '','' (map (\<lambda>u. or_str u []) ?us)"
    by (rule strip_join) (use us in \<open>auto simp: list_all_iff\<close>)
  let ?data = "map (\<lambda>r. leaf ''data'' (join '','' r)) (map snd rs)"
  let ?ld = "el ''logData'' [] None ([leaf ''mnemonicList'' (join '','' ?ms),
     leaf ''unitList'' (join '','' (map (\<lambda>u. or_str u []) ?us))] @ ?data)"
  let ?n = "el ''log'' (log_attrs lg) None [?ld]"
  have n: "el ''log'' (log_attrs lg) None (render_data lg (map snd rs)) = ?n"
    using False by (simp add: render_data_def)
  have first: "xml_first (xml_norm ?n) ''logData'' = Some (xml_norm ?ld)" by (simp add: xml_first_el)
  have mt: "xml_text (xml_norm ?ld) ''mnemonicList'' = Some (join '','' ?ms)"
    unfolding xml_text_norm using mj by (simp add: xml_text_el)
  have ut: "xml_text (xml_norm ?ld) ''unitList'' = or_none (Some (join '','' (map (\<lambda>u. or_str u []) ?us)))"
    unfolding xml_text_norm using uj by (simp add: xml_text_el)
  have nv: "xml_text (xml_norm ?n) ''nullValue'' = None"
    unfolding xml_text_norm by (simp add: xml_text_el)
  then have nulls: "null_tokens (xml_norm ?n) None = COMMON_NULL_SENTINELS" by (simp add: null_tokens_def)
  have wr: "wire_row ?it p" if "p \<in> set rs" for p using that rs lg by (auto simp: wire_log_def list_all_iff)
  have "xml_children (xml_norm ?ld) ''data'' = map xml_norm ?data"
    unfolding xml_children_norm by (simp add: xml_children_el filter_map o_def)
  then have rows: "concat (map (\<lambda>d. case node_text d of None \<Rightarrow> [] | Some t \<Rightarrow> [decode_row ?it COMMON_NULL_SENTINELS t])
      (xml_children (xml_norm ?ld) ''data'')) = map (wire_decode ?it) rs"
  proof -
    have one: "(case or_none (Some (join '','' (snd p))) of None \<Rightarrow> [] | Some t \<Rightarrow> [decode_row ?it COMMON_NULL_SENTINELS t]) = [wire_decode ?it p]"
      if "p \<in> set rs" for p
      using wire_row_text(1) [OF wr [OF that]] decode_row_wire [OF wr [OF that]] by simp
    have "concat (map (\<lambda>d. case node_text d of None \<Rightarrow> [] | Some t \<Rightarrow> [decode_row ?it COMMON_NULL_SENTINELS t]) (map xml_norm ?data)) =
        map (wire_decode ?it) rs"
      unfolding map_map by (rule concat_map_single) (simp add: one)
    then show ?thesis using \<open>xml_children _ _ = _\<close> by simp
  qed
  have "read_log_data (Some ?it) None (xml_norm ?n) = Some \<lparr>ldr_uid = get_attr (xml_norm ?n) ''uid'' [],
     ldr_uid_well = get_attr (xml_norm ?n) ''uidWell'' [], ldr_uid_wellbore = get_attr (xml_norm ?n) ''uidWellbore'' [],
     ldr_index_type = ?it, ldr_block = \<lparr>b_mnemonics = ?ms, b_units = map or_none ?us, b_index_type = ?it,
       b_rows = map (wire_decode ?it) rs\<rparr>\<rparr>"
  proof (rule read_log_data_facts [OF first])
    show "or_none (xml_text (xml_norm ?ld) ''mnemonicList'') = Some (join '','' ?ms)" unfolding mt using mj by simp
    show "map strip (split_on (CHR '','') (join '','' ?ms)) = ?ms" using mj mstrip by simp
    show "(case or_none (xml_text (xml_norm ?ld) ''unitList'') of
       Some t \<Rightarrow> map (\<lambda>u. or_none (Some (strip u))) (split_on (CHR '','') t)
     | None \<Rightarrow> replicate (length ?ms) None) = map or_none ?us"
      unfolding ut or_none_idem using units_read [OF us(1,2)] unfolding us(3) .
    show "length (map or_none ?us) = length ?ms" using us(3) by simp
  qed (fact nulls rows)+
  also have "\<dots> = Some (log_result lg rs)" by (simp add: log_result_def log_block_def log_attrs_def)
  finally show ?thesis unfolding n using False by simp
qed

text \<open>A rendered page is legal, and one iteration of the loop fetches it.\<close>

lemma render_data_legal:
  assumes "wire_log lg" "set rs \<subseteq> set (sl_rows lg)"
  shows "list_all xml_legal (render_data lg (map snd rs))"
proof -
  have j: "list_all legal_char (join '','' xs)" if "list_all (list_all legal_char) xs" for xs
    using that set_join_subset [of "'',''" xs] by (auto simp: list_all_iff)
  have "list_all (list_all legal_char) (sl_mnemonics lg)" "list_all (list_all legal_char) (map (\<lambda>u. or_str u []) (sl_units lg))"
    using assms(1) by (auto simp: wire_log_def clean_field_def list_all_iff)
  moreover have "list_all legal_char (join '','' (snd p))" if "p \<in> set rs" for p
    by (rule wire_row_text(2) [of "sl_index_type lg"])
       (use that assms in \<open>auto simp: wire_log_def list_all_iff\<close>)
  ultimately show ?thesis
    using j [of "sl_mnemonics lg"] j [of "map (\<lambda>u. or_str u []) (sl_units lg)"]
    by (simp add: render_data_def list_all_iff)
qed

definition max_ok :: "int option \<Rightarrow> bool" where
  "max_ok m = (case m of None \<Rightarrow> True | Some n \<Rightarrow> \<bar>n\<bar> \<le> 2 ^ 53)"

lemma sendable_wire_good:
  "sendable it v \<Longrightarrow> good_index (if is_time it then 2 else 0) (wire_bound v)"
  by (cases "is_time it") (auto simp: sendable_def good_index_def is_nan_def)

lemma bound_ok_good:
  "bound_ok it v \<Longrightarrow> case map_option wire_bound v of None \<Rightarrow> True | Some w \<Rightarrow> good_index (if is_time it then 2 else 0) w"
  by (cases v) (simp_all add: bound_ok_def sendable_wire_good)

definition served_page :: "StoredLog \<Rightarrow> log_request \<Rightarrow> pyval option \<Rightarrow> store_row list \<times> bool" where
  "served_page lg rq c = (let rs = range_rows lg (map_option wire_bound c) (map_option wire_bound (lr_end rq)) in
     case lr_max_return_nodes rq of Some m \<Rightarrow> if 0 < m \<and> m < int (length rs) then (take (nat m) rs, True) else (rs, False)
       | None \<Rightarrow> (rs, False))"

lemma range_rows_subset: "set (range_rows lg a b) \<subseteq> set (sl_rows lg)"
  by (auto simp: range_rows_def)

lemma served_page_subset: "served_page lg rq c = (rs, tr) \<Longrightarrow> set rs \<subseteq> set (sl_rows lg)"
  using range_rows_subset [of lg] by (auto simp: served_page_def Let_def split: option.splits if_splits dest!: in_set_takeD)

lemma render_log_data:
  assumes lg: "wire_log lg" and it: "sl_index_type lg = lr_index_type rq"
    and b: "bound_ok (lr_index_type rq) c" "bound_ok (lr_index_type rq) (lr_end rq)"
    and pg: "served_page lg rq c = (rs, tr)"
  shows "render_log mx lg ''data-only'' (map_option wire_bound c) (map_option wire_bound (lr_end rq)) (sl_direction lg)
     (lr_max_return_nodes rq) None = Inr (el ''log'' (log_attrs lg) None (render_data lg (map snd rs)), tr)"
proof -
  have "\<forall>p \<in> set (sl_rows lg). good_index (if is_time (lr_index_type rq) then 2 else 0) (fst p)"
    using lg it wire_index_good by (auto simp: wire_log_def wire_row_def list_all_iff)
  from select_range_exact [OF this bound_ok_good [OF b(1)] bound_ok_good [OF b(2)], of "lr_max_return_nodes rq"]
  have "select_rows mx lg (map_option wire_bound c) (map_option wire_bound (lr_end rq)) (sl_direction lg)
      (lr_max_return_nodes rq) None = Inr (map snd rs, tr)"
    using pg by (auto simp: select_rows_def served_page_def Let_def take_map split: option.splits if_splits)
  then show ?thesis by (simp add: render_log_def)
qed

lemma parse_int_None: "parse_int None = Inr None"
  by (simp add: parse_int_def)

lemma or_none_nonempty: "x \<noteq> [] \<Longrightarrow> wanted (Some x) y = (y = x)"
  by (simp add: wanted_def or_none_def)

lemma fetch_batch_page:
  assumes lx: "xml_codec lx" and rq: "request_ok rq" and ad: "addresses s rq lg" and lg: "wire_log lg"
    and b: "bound_ok (lr_index_type rq) c" "bound_ok (lr_index_type rq) (lr_end rq)"
    and mx: "max_ok (lr_max_return_nodes rq)" and pg: "served_page lg rq c = (rs, tr)"
  shows "fetch_batch lx (store_service lx) rq c s =
     (Inr (if tr then 2 else 1, if rs = [] then [] else [log_result lg rs]), s)"
proof -
  obtain q rt n where q: "request_query lx rq c = Inr q" "qq_wml_type q = ''log''"
    "qq_options_in q = data_options (lr_max_return_nodes rq)"
    "lx_recover lx (qq_query_xml q) = Inr (Some rt)" "xml_first rt ''log'' = Some n"
    "attr_get n ''uid'' = Some (lr_uid rq)" "attr_get n ''uidWell'' = Some (lr_uid_well rq)"
    "attr_get n ''uidWellbore'' = Some (lr_uid_wellbore rq)"
    "query_range n (lr_index_type rq) = Inr (map_option wire_bound c, map_option wire_bound (lr_end rq))"
    using log_data_query_served [OF lx rq b] .
  have it: "sl_index_type lg = lr_index_type rq" using ad by (simp add: addresses_def)
  have ty: "lower (strip ''log'') = ''log''" "lower ''data-only'' = ''data-only''" by code_simp+
  have matches: "filter (log_matches n) (map snd (ms_logs s)) = [lg]"
  proof -
    have "lr_uid rq \<noteq> []" "lr_uid_well rq \<noteq> []" "lr_uid_wellbore rq \<noteq> []" using ad by (auto simp: addresses_def)
    then have "log_matches n = (\<lambda>l. sl_uid l = lr_uid rq \<and> sl_uid_well l = lr_uid_well rq \<and> sl_uid_wellbore l = lr_uid_wellbore rq)"
      using q(6-8) by (intro ext) (simp add: log_matches_def or_none_nonempty)
    with ad show ?thesis by (simp add: addresses_def)
  qed
  have opts: "map_of (parse_options (Some (data_options (lr_max_return_nodes rq)))) ''maxreturnnodes'' =
      map_option show_int (lr_max_return_nodes rq)"
    "map_of (parse_options (Some (data_options (lr_max_return_nodes rq)))) ''requestlatestvalues'' = None"
    "opt_get (parse_options (Some (data_options (lr_max_return_nodes rq)))) ''returnelements'' ''all'' = ''data-only''"
    by (simp_all add: data_options_parsed opt_get_def split: option.splits)
  have mxi: "parse_int (map_option show_int (lr_max_return_nodes rq)) = Inr (lr_max_return_nodes rq)"
    using mx parse_int_show by (cases "lr_max_return_nodes rq") (simp_all add: max_ok_def parse_int_def)
  let ?n = "el ''log'' (log_attrs lg) None (render_data lg (map snd rs))"
  let ?out = "new_root ''logs'' [?n]"
  have legal: "xml_legal ?out"
    using render_data_legal [OF lg served_page_subset [OF pg]] lg
    by (simp add: new_root_def log_attrs_def wire_log_def WITSML_VERSION_def legal_char_def)
  have "query_logs lx rt (parse_options (Some (data_options (lr_max_return_nodes rq)))) s =
      Inr (if tr then 2 else 1, lx_tostring lx ?out, None)"
    using render_log_data [OF lg it b pg] legal
    by (simp add: query_logs_def q(5) opts mxi parse_int_None matches it q(9) ty serialize_def RC_PARTIAL_SUCCESS_def RC_SUCCESS_def
        del: lower_lower)
  then have "store_query lx ''log'' (qq_query_xml q) (Some (data_options (lr_max_return_nodes rq))) s =
      Inr (if tr then 2 else 1, lx_tostring lx ?out, None)"
    by (simp add: store_query_def Let_def ty q(4))
  then have get: "get_from_store (store_service lx) (qq_wml_type q) (qq_query_xml q) (qq_options_in q) s =
      (Inr (if tr then 2 else 1, Some (lx_tostring lx ?out), Some ''''), s)"
    unfolding q(2,3) by (subst get_from_store_service) (auto simp: or_str_def)
  have desc: "xml_descendants ?out ''log'' = [?n]"
    by (auto simp: xml_descendants_def new_root_def render_data_def el_def leaf_def filter_empty_conv)
  have "lx_recover lx (lx_tostring lx ?out) = Inr (Some (xml_norm ?out))" using lx legal by (simp add: xml_codec_def)
  then have parsed: "parse_log_data lx (lx_tostring lx ?out) (Some (lr_index_type rq)) None =
      Inr (if rs = [] then [] else [log_result lg rs])"
    using read_log_data_rendered [OF lg served_page_subset [OF pg]]
    unfolding it by (simp add: parse_log_data_def to_tree_def xml_descendants_norm desc List.map_filter_simps del: xml_norm_el)
  have "or_str (Some (lx_tostring lx ?out)) '''' = lx_tostring lx ?out" by (simp add: or_str_def)
  then show ?thesis
    using q(1) get parsed by (simp add: fetch_batch_def request_query_def is_error_def)
qed

section \<open>The loop\<close>

text \<open>From the index of a row on, the range is the rest of the rows.\<close>

lemma not_newer_trans: "\<not> newer_than d v k \<Longrightarrow> \<not> newer_than d k p \<Longrightarrow> \<not> newer_than d v p"
  by (auto simp: newer_than_def split: if_splits)

lemma range_rows_from:
  assumes "distinct (map fst (sl_rows lg))" "j < length (range_rows lg a e)"
  shows "range_rows lg (Some (fst (range_rows lg a e ! j))) e = drop j (range_rows lg a e)"
proof -
  let ?d = "sl_direction lg" and ?R = "range_rows lg a e"
  let ?k = "fst (?R ! j)"
  have "?R ! j \<in> set ?R" using assms(2) by simp
  then have k: "in_range ?d a e ?k" by (auto simp: range_rows_def)
  have step: "range_rows lg (Some k) e = filter (\<lambda>p. \<not> newer_than ?d k (fst p)) (range_rows lg a e)"
    if "in_range ?d a e k" for k
    unfolding range_rows_def filter_filter
    using that by (intro filter_cong refl) (auto simp: in_range_def dest: not_newer_trans split: option.splits)
  have "range_rows lg (Some ?k) e = filter (\<lambda>p. \<not> newer_than ?d ?k (fst p)) ?R" by (rule step [OF k])
  also have "\<dots> = filter (\<lambda>p. \<not> newer_than ?d ?k (fst p)) (take j ?R) @ filter (\<lambda>p. \<not> newer_than ?d ?k (fst p)) (drop j ?R)"
    by (metis append_take_drop_id filter_append)
  also have "filter (\<lambda>p. \<not> newer_than ?d ?k (fst p)) (take j ?R) = []"
  proof -
    have "newer_than ?d ?k (fst p)" if "p \<in> set (take j ?R)" for p
    proof -
      from that obtain i where i: "i < j" "p = ?R ! i" using assms(2) by (auto simp: in_set_conv_nth)
      show ?thesis unfolding i(2)
        using sorted_wrt_nth_less [OF range_rows_newer [OF assms(1)] i(1) assms(2)] .
    qed
    then show ?thesis by (auto simp: filter_empty_conv)
  qed
  also have "filter (\<lambda>p. \<not> newer_than ?d ?k (fst p)) (drop j ?R) = drop j ?R"
  proof -
    have "\<not> newer_than ?d ?k (fst p)" if "p \<in> set (drop j ?R)" for p
    proof -
      from that obtain i where i: "i < length ?R - j" "p = ?R ! (j + i)" by (auto simp: in_set_conv_nth)
      have lt: "newer_than ?d (fst (?R ! (j + i))) ?k" if "0 < i"
        using i(1) that sorted_wrt_nth_less [OF range_rows_newer [OF assms(1), of a e], of j "j + i"] by simp
      show ?thesis unfolding i(2)
      proof (cases "i = 0")
        case False
        then show "\<not> newer_than ?d ?k (fst (?R ! (j + i)))"
          using lt by (auto simp: newer_than_def split: if_splits)
      qed simp
    qed
    then show ?thesis by (auto simp: filter_id_conv)
  qed
  finally show ?thesis by simp
qed

text \<open>The resume index of a page is the index of its last row.\<close>

lemma keys_of_decode [simp]: "keys_of (map (wire_decode it) rs) = map fst rs"
  by (induction rs) (auto simp: wire_decode_def)

lemma indexed_decode: "indexed (map (wire_decode it) rs) = map (\<lambda>p. (fst p, wire_decode it p)) rs"
  by (induction rs) (auto simp: wire_decode_def)

lemma last_newest:
  assumes "sorted_wrt (\<lambda>p q. newer_than d (fst q) (fst p)) rs" "rs \<noteq> []"
  shows "growth_end d (set (map fst rs)) = fst (last rs)"
proof -
  have "\<not> newer_than d (fst p) (fst (last rs))" if p: "p \<in> set rs" for p
  proof -
    obtain i where i: "i < length rs" "p = rs ! i" using p by (auto simp: in_set_conv_nth)
    show ?thesis
    proof (cases "i = length rs - 1")
      case True
      then show ?thesis using i assms(2) by (simp add: last_conv_nth)
    next
      case False
      then have "newer_than d (fst (last rs)) (fst p)"
        using sorted_wrt_nth_less [OF assms(1), of i "length rs - 1"] i assms(2) by (simp add: last_conv_nth)
      then show ?thesis by (auto simp: newer_than_def split: if_splits)
    qed
  qed
  then show ?thesis using assms(2)
    by (auto simp: growth_end_def newer_than_def not_less intro!: Max_eqI Min_eqI split: if_splits)
qed

lemma continuation_page:
  assumes "wire_log lg" "set rs \<subseteq> set (sl_rows lg)" "rs \<noteq> []"
    "sorted_wrt (\<lambda>p q. newer_than (sl_direction lg) (fst q) (fst p)) rs"
  shows "continuation_index (log_block lg rs) (sl_direction lg) = Inr (Some (fst (last rs)))"
proof -
  let ?k = "if is_time (sl_index_type lg) then 2 else 0"
  have "good_index ?k (fst p)" if "p \<in> set rs" for p
    using that assms(1,2) by (intro wire_index_good) (auto simp: wire_log_def wire_row_def list_all_iff)
  then have "\<forall>v \<in> set (keys_of (b_rows (log_block lg rs))). good_index ?k v"
    by (simp add: log_block_def)
  from continuation_index_spec [OF _ this, of "sl_direction lg"] assms(3) last_newest [OF assms(4,3)]
  show ?thesis by (simp add: log_block_def) (auto simp: wire_decode_def)
qed

definition fetch_state :: "StoredLog \<Rightarrow> log_request \<Rightarrow> store_row list list \<Rightarrow> pyval option \<Rightarrow> pyval option \<Rightarrow> loop_state" where
  "fetch_state lg rq rss c l = \<lparr>ls_blocks = map (log_block lg) rss, ls_cursor = c, ls_last_index = l,
     ls_index_type = lr_index_type rq, ls_uid = lr_uid rq, ls_uid_well = lr_uid_well rq, ls_uid_wellbore = lr_uid_wellbore rq\<rparr>"

lemma addresses_ids:
  "addresses s rq lg \<Longrightarrow> sl_uid lg = lr_uid rq \<and> sl_uid_well lg = lr_uid_well rq \<and> sl_uid_wellbore lg = lr_uid_wellbore rq
     \<and> sl_index_type lg = lr_index_type rq \<and> sl_direction lg = lr_direction rq"
proof -
  assume a: "addresses s rq lg"
  then have "lg \<in> set (filter (\<lambda>l. sl_uid l = lr_uid rq \<and> sl_uid_well l = lr_uid_well rq \<and> sl_uid_wellbore l = lr_uid_wellbore rq)
       (map snd (ms_logs s)))" by (simp add: addresses_def)
  then have "sl_uid lg = lr_uid rq \<and> sl_uid_well lg = lr_uid_well rq \<and> sl_uid_wellbore lg = lr_uid_wellbore rq" by simp
  with a show ?thesis by (simp add: addresses_def)
qed

lemma or_str_same [simp]: "or_str (Some u) u = u"
  by (simp add: or_str_def)

lemma after_page_done:
  assumes "addresses s rq lg" "wire_log lg" "set rs \<subseteq> set (sl_rows lg)"
    "sorted_wrt (\<lambda>p q. newer_than (sl_direction lg) (fst q) (fst p)) rs"
  shows "after_batch rq 1 (if rs = [] then [] else [log_result lg rs]) (fetch_state lg rq rss c l) =
    Inr (fetch_state lg rq (rss @ (if rs = [] then [] else [rs])) c l, False)"
  using addresses_ids [OF assms(1)] continuation_page [OF assms(2,3) _ assms(4)]
  by (auto simp: after_batch_def take_batch_def fetch_state_def log_result_def is_truncated_def RC_PARTIAL_SUCCESS_def)

lemma after_page_more:
  assumes "addresses s rq lg" "wire_log lg" "set rs \<subseteq> set (sl_rows lg)" "rs \<noteq> []"
    "sorted_wrt (\<lambda>p q. newer_than (sl_direction lg) (fst q) (fst p)) rs" "\<not> same_index (fst (last rs)) l"
  shows "after_batch rq 2 [log_result lg rs] (fetch_state lg rq rss c l) =
    Inr (fetch_state lg rq (rss @ [rs]) (Some (fst (last rs))) (Some (fst (last rs))), True)"
  using addresses_ids [OF assms(1)] continuation_page [OF assms(2,3,4,5)] assms(6)
  by (auto simp: after_batch_def take_batch_def fetch_state_def log_result_def is_truncated_def RC_PARTIAL_SUCCESS_def)


text \<open>What a page is when the cap is k, and the first j rows are behind the cursor.\<close>

definition page_cap :: "log_request \<Rightarrow> nat \<Rightarrow> nat" where
  "page_cap rq n = (case lr_max_return_nodes rq of Some m \<Rightarrow> if 0 < m then nat m else n + 2 | None \<Rightarrow> n + 2)"

lemma served_page_drop:
  assumes "range_rows lg (map_option wire_bound c) (map_option wire_bound (lr_end rq)) = drop j R" "length R \<le> n"
  shows "served_page lg rq c = (if page_cap rq n < length R - j then (take (page_cap rq n) (drop j R), True) else (drop j R, False))"
  using assms by (auto simp: served_page_def page_cap_def Let_def split: option.splits)

lemma last_take_drop: "j + k \<le> length R \<Longrightarrow> 0 < k \<Longrightarrow> last (take k (drop j R)) = R ! (j + k - 1)"
  by (subst last_conv_nth) auto

lemma set_take_window:
  "set (take t R) \<union> set (take k (drop j R)) = set (take (max t (j + k)) R)" if "j \<le> t"
proof -
  have "take (j + k) R = take j R @ take k (drop j R)" by (rule take_add)
  then have "set (take (j + k) R) = set (take j R) \<union> set (take k (drop j R))" by simp
  moreover have "set (take j R) \<subseteq> set (take t R)" by (rule set_take_subset_set_take) (rule that)
  ultimately have u: "set (take t R) \<union> set (take k (drop j R)) = set (take t R) \<union> set (take (j + k) R)" by blast
  show ?thesis
  proof (cases "t \<le> j + k")
    case True
    then have "set (take t R) \<subseteq> set (take (j + k) R)" by (rule set_take_subset_set_take)
    with u True show ?thesis by (simp add: max_absorb2 Un_absorb1)
  next
    case False
    then have "set (take (j + k) R) \<subseteq> set (take t R)" by (intro set_take_subset_set_take) simp
    with u False show ?thesis by (simp add: max_absorb1 Un_absorb2)
  qed
qed

lemma same_index_key:
  assumes "wire_log lg" "p \<in> set (sl_rows lg)"
  shows "same_index (fst p) (Some k) = (fst p = k)"
proof -
  have "wire_index (sl_index_type lg) (fst p)" using assms by (auto simp: wire_log_def wire_row_def list_all_iff)
  then have "\<not> is_nan (fst p)" using wire_index_good by (simp add: good_index_def)
  then show ?thesis by (simp add: same_index_def val_eq_iff)
qed

text \<open>The rows of a window of the range.\<close>

lemma window_rows:
  assumes "wire_log lg" "R = range_rows lg a b"
  shows "set (take k (drop j R)) \<subseteq> set (sl_rows lg)"
    "sorted_wrt (\<lambda>p q. newer_than (sl_direction lg) (fst q) (fst p)) (take k (drop j R))"
proof -
  have "set (take k (drop j R)) \<subseteq> set R" by (auto dest: in_set_takeD in_set_dropD)
  then show "set (take k (drop j R)) \<subseteq> set (sl_rows lg)" using range_rows_subset assms(2) by blast
  show "sorted_wrt (\<lambda>p q. newer_than (sl_direction lg) (fst q) (fst p)) (take k (drop j R))"
    using assms range_rows_newer by (auto simp: wire_log_def intro: sorted_wrt_take sorted_wrt_drop)
qed

lemma fetch_loop_last:
  assumes lx: "xml_codec lx" and rq: "request_ok rq" and ad: "addresses s rq lg" and lg: "wire_log lg"
    and b: "bound_ok (lr_index_type rq) c" "bound_ok (lr_index_type rq) (lr_end rq)" and mx: "max_ok (lr_max_return_nodes rq)"
    and R: "R = range_rows lg a (map_option wire_bound (lr_end rq))" and pg: "served_page lg rq c = (drop j R, False)"
  shows "fetch_loop (Suc n) lx (store_service lx) rq (fetch_state lg rq rss c l) s =
    (Inr (fetch_state lg rq (rss @ (if drop j R = [] then [] else [drop j R])) c l), s)"
proof -
  have w: "set (drop j R) \<subseteq> set (sl_rows lg)"
    "sorted_wrt (\<lambda>p q. newer_than (sl_direction lg) (fst q) (fst p)) (drop j R)"
    using window_rows [OF lg R, of "length R" j] by simp_all
  have "fetch_batch lx (store_service lx) rq (ls_cursor (fetch_state lg rq rss c l)) s =
      (Inr (1, if drop j R = [] then [] else [log_result lg (drop j R)]), s)"
    using fetch_batch_page [OF lx rq ad lg b mx pg] by (simp add: fetch_state_def)
  then show ?thesis using after_page_done [OF ad lg w, of rss c l] by simp
qed

lemma fetch_loop_more:
  assumes lx: "xml_codec lx" and rq: "request_ok rq" and ad: "addresses s rq lg" and lg: "wire_log lg"
    and b: "bound_ok (lr_index_type rq) c" "bound_ok (lr_index_type rq) (lr_end rq)" and mx: "max_ok (lr_max_return_nodes rq)"
    and R: "R = range_rows lg a (map_option wire_bound (lr_end rq))"
    and pg: "served_page lg rq c = (take (Suc (Suc m)) (drop j R), True)" and k: "Suc (Suc m) < length R - j"
    and l: "l = None \<or> (l = Some (fst (R ! j)) \<and> j < length R)"
  shows "fetch_loop (Suc n) lx (store_service lx) rq (fetch_state lg rq rss c l) s =
    fetch_loop n lx (store_service lx) rq (fetch_state lg rq (rss @ [take (Suc (Suc m)) (drop j R)])
      (Some (fst (R ! (j + Suc m)))) (Some (fst (R ! (j + Suc m))))) s"
proof -
  let ?w = "take (Suc (Suc m)) (drop j R)"
  have ne: "?w \<noteq> []" and lst: "last ?w = R ! (j + Suc m)"
    using k last_take_drop [of j "Suc (Suc m)" R] by auto
  have "j + Suc m < length R" using k by simp
  then have inR: "R ! (j + Suc m) \<in> set (sl_rows lg)"
    using range_rows_subset nth_mem [of "j + Suc m" R] unfolding R by blast
  have "newer_than (sl_direction lg) (fst (R ! (j + Suc m))) (fst (R ! j))"
    using sorted_wrt_nth_less [OF window_rows(2) [OF lg R, of "length R" 0], of j "j + Suc m"] k by simp
  then have "\<not> same_index (fst (last ?w)) l"
    using l same_index_key [OF lg inR] unfolding lst by (auto simp: same_index_def)
  then have "after_batch rq 2 [log_result lg ?w] (fetch_state lg rq rss c l) =
      Inr (fetch_state lg rq (rss @ [?w]) (Some (fst (R ! (j + Suc m)))) (Some (fst (R ! (j + Suc m)))), True)"
    using after_page_more [OF ad lg window_rows(1) [OF lg R] ne window_rows(2) [OF lg R]] lst by simp
  moreover have "fetch_batch lx (store_service lx) rq (ls_cursor (fetch_state lg rq rss c l)) s = (Inr (2, [log_result lg ?w]), s)"
    using fetch_batch_page [OF lx rq ad lg b mx pg] ne by (simp add: fetch_state_def)
  ultimately show ?thesis by simp
qed

lemma fetch_loop_pages:
  assumes lx: "xml_codec lx" and rq: "request_ok rq" and ad: "addresses s rq lg" and lg: "wire_log lg"
    and e: "bound_ok (lr_index_type rq) (lr_end rq)" and mx: "max_ok (lr_max_return_nodes rq)"
    and R: "R = range_rows lg a (map_option wire_bound (lr_end rq))"
    and cap: "page_cap rq (length R) = Suc (Suc m)"
    and c: "bound_ok (lr_index_type rq) c" "range_rows lg (map_option wire_bound c) (map_option wire_bound (lr_end rq)) = drop j R"
    and seen: "set (concat rss) = set (take t R)" "\<forall>rs \<in> set rss. rs \<noteq> []" "j \<le> t"
    and l: "l = None \<or> (l = Some (fst (R ! j)) \<and> j < length R)"
    and fuel: "length R - j \<le> Suc n * Suc m + 1"
  shows "\<exists>rss' c' l'. fetch_loop (Suc n) lx (store_service lx) rq (fetch_state lg rq rss c l) s =
      (Inr (fetch_state lg rq rss' c' l'), s) \<and> set (concat rss') = set R \<and> (\<forall>rs \<in> set rss'. rs \<noteq> [])"
  using c seen l fuel
proof (induction n arbitrary: rss c l j t)
  case (0 rss c l j t)
  then have "\<not> Suc (Suc m) < length R - j" by simp
  then have pg: "served_page lg rq c = (drop j R, False)"
    using served_page_drop [OF 0(2) order_refl] cap by simp
  have "set (concat (rss @ (if drop j R = [] then [] else [drop j R]))) = set R"
    using 0(3) set_take_window [OF 0(5), of R "length R"] by auto
  then show ?case using fetch_loop_last [OF lx rq ad lg 0(1) e mx R pg] 0(4)
    by (intro exI conjI) (assumption | auto)+
next
  case (Suc n rss c l j t)
  show ?case
  proof (cases "Suc (Suc m) < length R - j")
    case False
    then have pg: "served_page lg rq c = (drop j R, False)"
      using served_page_drop [OF Suc.prems(2) order_refl] cap by simp
    have "set (concat (rss @ (if drop j R = [] then [] else [drop j R]))) = set R"
      using Suc.prems(3) set_take_window [OF Suc.prems(5), of R "length R"] by auto
    then show ?thesis using fetch_loop_last [OF lx rq ad lg Suc.prems(1) e mx R pg] Suc.prems(4)
      by (intro exI conjI) (assumption | auto)+
  next
    case True
    then have pg: "served_page lg rq c = (take (Suc (Suc m)) (drop j R), True)"
      using served_page_drop [OF Suc.prems(2) order_refl] cap by simp
    let ?w = "take (Suc (Suc m)) (drop j R)" and ?j = "j + Suc m"
    let ?c = "Some (fst (R ! ?j))"
    have j: "?j < length R" using True by simp
    then have "R ! ?j \<in> set (sl_rows lg)" using range_rows_subset nth_mem [of ?j R] unfolding R by blast
    then have wi: "wire_index (lr_index_type rq) (fst (R ! ?j))"
      using lg addresses_ids [OF ad] by (auto simp: wire_log_def wire_row_def list_all_iff)
    have "\<exists>rss' c' l'. fetch_loop (Suc n) lx (store_service lx) rq (fetch_state lg rq (rss @ [?w]) ?c ?c) s =
      (Inr (fetch_state lg rq rss' c' l'), s) \<and> set (concat rss') = set R \<and> (\<forall>rs \<in> set rss'. rs \<noteq> [])"
    proof (rule Suc.IH [where j = ?j and t = "max t (j + Suc (Suc m))"])
      show "bound_ok (lr_index_type rq) ?c" using wire_index_sendable [OF wi] by (simp add: bound_ok_def)
      have "range_rows lg (Some (fst (R ! ?j))) (map_option wire_bound (lr_end rq)) = drop ?j R"
        unfolding R by (rule range_rows_from) (use lg j in \<open>auto simp: wire_log_def R\<close>)
      then show "range_rows lg (map_option wire_bound ?c) (map_option wire_bound (lr_end rq)) = drop ?j R"
        using wire_index_sendable [OF wi] by simp
      show "set (concat (rss @ [?w])) = set (take (max t (j + Suc (Suc m))) R)"
        using Suc.prems(3) set_take_window [OF Suc.prems(5), of R "Suc (Suc m)"] by simp
      show "\<forall>rs \<in> set (rss @ [?w]). rs \<noteq> []" using Suc.prems(4) True by auto
      show "?j \<le> max t (j + Suc (Suc m))" by simp
      show "?c = None \<or> ?c = Some (fst (R ! ?j)) \<and> ?j < length R" using j by simp
      show "length R - ?j \<le> Suc n * Suc m + 1" using Suc.prems(7) by simp
    qed
    then show ?thesis using fetch_loop_more [OF lx rq ad lg Suc.prems(1) e mx R pg True Suc.prems(6)] by simp
  qed
qed


section \<open>The whole call\<close>

text \<open>The rows of the range in ascending order of their index, whatever the growth direction.\<close>

definition ascending_rows :: "StoredLog \<Rightarrow> pyval option \<Rightarrow> pyval option \<Rightarrow> store_row list" where
  "ascending_rows lg a b = (if sl_direction lg = DECREASING then rev (range_rows lg a b) else range_rows lg a b)"

lemma ascending_rows_sorted:
  assumes "distinct (map fst (sl_rows lg))"
  shows "sorted_wrt (<) (map fst (ascending_rows lg a b))"
proof -
  have "sl_direction lg = INCREASING \<or> sl_direction lg = DECREASING" by (cases "sl_direction lg") auto
  then show ?thesis
    using range_rows_newer [OF assms, of a b]
    by (auto simp: ascending_rows_def newer_than_def sorted_wrt_map sorted_wrt_rev rev_map)
qed

lemma concat_decode: "concat (map b_rows (map (log_block lg) rss)) = map (wire_decode (sl_index_type lg)) (concat rss)"
  by (induction rss) (simp_all add: log_block_def)

lemma map_of_functional:
  assumes "(k, v) \<in> set al" "\<forall>v'. (k, v') \<in> set al \<longrightarrow> v' = v"
  shows "map_of al k = Some v"
proof -
  have "k \<in> fst ` set al" using assms(1) by force
  then obtain w where "map_of al k = Some w" by (metis dom_map_of_conv_image_fst domD)
  with assms(2) map_of_SomeD show ?thesis by fast
qed

lemma last_write_functional:
  assumes "\<forall>p \<in> set ps. \<forall>q \<in> set ps. fst p = fst q \<longrightarrow> p = q"
  shows "last_write (map (wire_decode it) ps) i = Some r \<longleftrightarrow> (\<exists>p \<in> set ps. i = fst p \<and> r = wire_decode it p)"
proof -
  let ?ix = "map (\<lambda>p. (fst p, wire_decode it p)) ps"
  have "map_of (rev ?ix) i = Some r" if p: "p \<in> set ps" "i = fst p" "r = wire_decode it p" for p
  proof (rule map_of_functional)
    show "(i, r) \<in> set (rev ?ix)" using p by simp
    show "\<forall>v'. (i, v') \<in> set (rev ?ix) \<longrightarrow> v' = r" using p assms by fastforce
  qed
  then show ?thesis
    unfolding last_write_def indexed_decode by (force dest: map_of_SomeD)
qed

lemma sorted_keys_unique:
  assumes "sorted_wrt (<) (map fst xs)" "sorted_wrt (<) (map fst ys)" "set xs = set ys"
  shows "xs = (ys :: ('k::linorder \<times> 'v) list)"
proof -
  have "map fst xs = map fst ys"
    using assms by (intro sorted_distinct_set_unique) (auto simp: strict_sorted_iff)
  moreover have d: "distinct (map fst xs)" "distinct (map fst ys)" using assms(1,2) by (simp_all add: strict_sorted_iff)
  then have "map_of xs = map_of ys" using assms(3) by (simp add: map_of_inject_set)
  moreover have key: "map (\<lambda>k. (k, the (map_of zs k))) (map fst zs) = zs" if "distinct (map fst zs)" for zs :: "('k \<times> 'v) list"
    unfolding map_map by (rule map_idI) (use that in auto)
  ultimately show ?thesis using key [OF d(1)] key [OF d(2)] by simp
qed

lemma merge_pages:
  assumes lg: "wire_log lg" and R: "R = range_rows lg a b" and rss: "set (concat rss) = set R" "rss \<noteq> []"
  obtains m where "merge_blocks (map (log_block lg) rss) = Inr m" "b_mnemonics m = sl_mnemonics lg"
    "b_units m = map or_none (sl_units lg)"
    "b_rows m = map (wire_decode (sl_index_type lg)) (ascending_rows lg a b)"
proof -
  let ?it = "sl_index_type lg" and ?bs = "map (log_block lg) rss"
  have dist: "distinct (map fst (sl_rows lg))" and ms: "sl_mnemonics lg \<noteq> []" using lg by (auto simp: wire_log_def)
  have head: "b_mnemonics (merge_head ?bs) = sl_mnemonics lg" "b_units (merge_head ?bs) = map or_none (sl_units lg)"
    using rss(2) ms by (cases rss; simp add: merge_head_def log_block_def)+
  have rowsR: "set R \<subseteq> set (sl_rows lg)" unfolding R by (rule range_rows_subset)
  have fn: "\<forall>p \<in> set (concat rss). \<forall>q \<in> set (concat rss). fst p = fst q \<longrightarrow> p = q"
    unfolding rss(1) by (auto dest!: subsetD [OF rowsR] dest: eq_key_imp_eq_value [OF dist])
  have good: "good_index (if is_time ?it then 2 else 0) (fst p)" if "p \<in> set (concat rss)" for p
    by (rule wire_index_good) (use that rowsR lg rss(1) in \<open>auto simp: wire_log_def wire_row_def list_all_iff\<close>)
  obtain m where m: "merge_blocks ?bs = Inr m" "b_mnemonics m = sl_mnemonics lg" "b_units m = map or_none (sl_units lg)"
    "sorted_wrt (<) (keys_of (b_rows m))" "all_indexed (b_rows m)"
    "set (indexed (b_rows m)) = {(k, r). last_write (map (wire_decode ?it) (concat rss)) k = Some r}"
  proof (rule merge_blocks_rows [of ?bs "if is_time ?it then 2 else 0"])
    show "?bs \<noteq> []" using rss(2) by simp
    show "\<forall>b \<in> set ?bs. b_mnemonics b = [] \<or> b_mnemonics b = b_mnemonics (merge_head ?bs)"
      unfolding head(1) by (simp add: log_block_def)
    show "\<forall>r \<in> set (concat (map b_rows ?bs)). r \<noteq> []" unfolding concat_decode by (auto simp: wire_decode_def)
    show "\<forall>v \<in> set (keys_of (concat (map b_rows ?bs))). val_kind v = (if is_time ?it then 2 else 0) \<and> \<not> is_nan v"
      using good unfolding concat_decode keys_of_decode by (auto simp: good_index_def split: if_splits)
  qed (use head in \<open>simp only: concat_decode\<close>)
  let ?A = "map (\<lambda>p. (fst p, wire_decode ?it p)) (ascending_rows lg a b)"
  have setA: "set (ascending_rows lg a b) = set R" by (simp add: ascending_rows_def R)
  have "indexed (b_rows m) = ?A"
  proof (rule sorted_keys_unique)
    show "sorted_wrt (<) (map fst (indexed (b_rows m)))" using m(4) by (simp add: keys_of_def)
    show "sorted_wrt (<) (map fst ?A)" using ascending_rows_sorted [OF dist, of a b] by (simp add: comp_def)
    show "set (indexed (b_rows m)) = set ?A"
      unfolding m(6) last_write_functional [OF fn] rss(1) using setA by auto
  qed
  then have "map snd (indexed (b_rows m)) = map (wire_decode ?it) (ascending_rows lg a b)" by (simp add: comp_def)
  moreover have "map snd (indexed rs) = rs" if "all_indexed rs" for rs
    using that by (induction rs) (auto simp: all_indexed_def split: list.splits option.splits)
  ultimately show ?thesis using m(1,2,3,5) that by metis
qed

text \<open>How many rows the bounded loop can fetch: every truncated page but the last moves on by the cap less one.\<close>

definition fetchable :: "log_request \<Rightarrow> nat \<Rightarrow> bool" where
  "fetchable rq n = (case lr_max_return_nodes rq of
      None \<Rightarrow> True
    | Some m \<Rightarrow> m \<le> 0 \<or> (2 \<le> m \<and> int n \<le> 1000 * (m - 1) + 1))"

lemma get_log_data_rows:
  assumes lx: "xml_codec lx" and rq: "request_ok rq" and ad: "addresses s rq lg" and lg: "wire_log lg"
    and a: "bound_ok (lr_index_type rq) (lr_start rq)" and e: "bound_ok (lr_index_type rq) (lr_end rq)"
    and mx: "max_ok (lr_max_return_nodes rq)"
    and R: "R = range_rows lg (map_option wire_bound (lr_start rq)) (map_option wire_bound (lr_end rq))"
    and n: "fetchable rq (length R)"
  obtains res where "get_log_data lx (store_service lx) rq s = (Inr res, s)"
    "ldr_uid res = lr_uid rq" "ldr_index_type res = lr_index_type rq"
    "b_rows (ldr_block res) = map (wire_decode (sl_index_type lg))
       (ascending_rows lg (map_option wire_bound (lr_start rq)) (map_option wire_bound (lr_end rq)))"
    "R \<noteq> [] \<Longrightarrow> b_mnemonics (ldr_block res) = sl_mnemonics lg \<and> b_units (ldr_block res) = map or_none (sl_units lg)"
proof -
  obtain m where cap: "page_cap rq (length R) = Suc (Suc m)" and fuel: "length R - 0 \<le> Suc 999 * Suc m + 1"
  proof (cases "lr_max_return_nodes rq")
    case None
    then show ?thesis by (intro that [of "length R"]) (simp_all add: page_cap_def)
  next
    case (Some k)
    show ?thesis
    proof (cases "0 < k")
      case True
      with n Some have k: "2 \<le> k" "int (length R) \<le> 1000 * (k - 1) + 1" by (auto simp: fetchable_def)
      then show ?thesis using Some True by (intro that [of "nat k - 2"]) (simp_all add: page_cap_def)
    qed (use Some in \<open>intro that [of "length R"], simp_all add: page_cap_def\<close>)
  qed
  have st: "init_loop rq = fetch_state lg rq [] (lr_start rq) None" by (simp add: init_loop_def fetch_state_def)
  have "\<exists>rss' c' l'. fetch_loop (Suc 999) lx (store_service lx) rq (fetch_state lg rq [] (lr_start rq) None) s =
      (Inr (fetch_state lg rq rss' c' l'), s) \<and> set (concat rss') = set R \<and> (\<forall>rs \<in> set rss'. rs \<noteq> [])"
    by (rule fetch_loop_pages [OF lx rq ad lg e mx R cap a _ _ _ _ _ fuel, where t = 0]) (use R in auto)
  then obtain rss c l where loop: "fetch_loop (Suc 999) lx (store_service lx) rq (init_loop rq) s = (Inr (fetch_state lg rq rss c l), s)"
    "set (concat rss) = set R" "\<forall>rs \<in> set rss. rs \<noteq> []" unfolding st by blast
  have f: "get_log_data lx (store_service lx) rq s = (finish_loop rq (fetch_state lg rq rss c l), s)"
    using loop(1) by (simp add: get_log_data_def MAX_TRUNCATION_ITERATIONS_def del: fetch_loop.simps)
  show ?thesis
  proof (cases "rss = []")
    case True
    then have "R = []" using loop(2) by simp
    then show ?thesis
      using f True that by (simp add: finish_loop_def fetch_state_def ascending_rows_def flip: R)
  next
    case False
    obtain mb where "merge_blocks (map (log_block lg) rss) = Inr mb"
      "b_mnemonics mb = sl_mnemonics lg" "b_units mb = map or_none (sl_units lg)"
      "b_rows mb = map (wire_decode (sl_index_type lg))
        (ascending_rows lg (map_option wire_bound (lr_start rq)) (map_option wire_bound (lr_end rq)))"
      using merge_pages [OF lg R loop(2) False] by metis
    then show ?thesis using f False that by (simp add: finish_loop_def fetch_state_def)
  qed
qed


section \<open>Properties\<close>

definition ex_log :: StoredLog where
  "ex_log = \<lparr>sl_uid = ''L1'', sl_uid_well = ''W1'', sl_uid_wellbore = ''B1'', sl_name = None, sl_name_well = None,
     sl_name_wellbore = None, sl_index_type = MEASURED_DEPTH, sl_index_curve = Some ''DEPT'', sl_direction = INCREASING,
     sl_null_value = ''-999.25'', sl_index_uom = Some ''m'', sl_object_growing = True,
     sl_curves = [\<lparr>cm_mnemonic = ''DEPT'', cm_unit = Some ''m'', cm_description = None, cm_type_log_data = None, cm_null_value = None\<rparr>,
       \<lparr>cm_mnemonic = ''ROP'', cm_unit = None, cm_description = None, cm_type_log_data = None, cm_null_value = None\<rparr>],
     sl_rows = [(VFloat (Fin 1), [''1'', ''7'']), (VFloat (Fin 3), [''3'', ''-999.25'']), (VFloat (Fin 2), [''2'', ''8''])]\<rparr>"

definition ex_store :: MockStore where
  "ex_store = new_store\<lparr>ms_logs := [((''W1'', ''B1'', ''L1''), ex_log)]\<rparr>"

definition ex_request :: "pyval option \<Rightarrow> int option \<Rightarrow> log_request" where
  "ex_request start m = \<lparr>lr_uid_well = ''W1'', lr_uid_wellbore = ''B1'', lr_uid = ''L1'', lr_mnemonics = [''DEPT'', ''ROP''],
     lr_index_type = MEASURED_DEPTH, lr_direction = INCREASING, lr_start = start, lr_end = None, lr_index_uom = Some ''m'',
     lr_max_return_nodes = m\<rparr>"

lemma ex_float: "is_float 1" "is_float 2" "is_float 3"
  using is_float_small_int [of 1] is_float_small_int [of 2] is_float_small_int [of 3] by simp_all

lemma ex_log_wire: "wire_log ex_log"
proof -
  have c: "list_all clean_field [''1'', ''7'', ''3'', ''-999.25'', ''2'', ''8'', ''DEPT'', ''ROP'', ''m'', '''']" by code_simp
  have l: "list_all legal_char ''L1''" "list_all legal_char ''W1''" "list_all legal_char ''B1''" by code_simp+
  have cl: "clean_field ''1''" "clean_field ''7''" "clean_field ''3''" "clean_field ''-999.25''" "clean_field ''2''"
    "clean_field ''8''" "clean_field ''DEPT''" "clean_field ''ROP''" "clean_field ''m''" "clean_field ''''"
    using c by simp_all
  have ch: "(char_of (49 :: nat) :: char) = CHR ''1''" "(char_of (50 :: nat) :: char) = CHR ''2''" "(char_of (51 :: nat) :: char) = CHR ''3''"
    by code_simp+
  have f: "float_of_string ''1'' = Some (Fin 1)" "float_of_string ''2'' = Some (Fin 2)" "float_of_string ''3'' = Some (Fin 3)"
    using float_int_roundtrip [of 1] float_int_roundtrip [of 2] float_int_roundtrip [of 3] ex_float
    by (simp_all add: show_int_def show_pos.simps digit_char_def ch)
  have p: "parse_index (Some ''1'') MEASURED_DEPTH = Some (VFloat (Fin 1))"
    "parse_index (Some ''2'') MEASURED_DEPTH = Some (VFloat (Fin 2))"
    "parse_index (Some ''3'') MEASURED_DEPTH = Some (VFloat (Fin 3))"
    using cl f by (simp_all add: parse_index_def clean_field_def is_time.simps)
  have s: "''1'' \<notin> set COMMON_NULL_SENTINELS" "''2'' \<notin> set COMMON_NULL_SENTINELS" "''3'' \<notin> set COMMON_NULL_SENTINELS"
    by (simp_all add: COMMON_NULL_SENTINELS_def)
  have w: "wire_index MEASURED_DEPTH (VFloat (Fin 1))" "wire_index MEASURED_DEPTH (VFloat (Fin 2))" "wire_index MEASURED_DEPTH (VFloat (Fin 3))"
    using ex_float by (simp_all add: wire_index_def is_time.simps)
  have r: "wire_row MEASURED_DEPTH (VFloat (Fin 1), [''1'', ''7''])" "wire_row MEASURED_DEPTH (VFloat (Fin 3), [''3'', ''-999.25''])"
    "wire_row MEASURED_DEPTH (VFloat (Fin 2), [''2'', ''8''])"
    unfolding wire_row_def using cl p s w by simp_all
  have "sl_rows ex_log = [(VFloat (Fin 1), [''1'', ''7'']), (VFloat (Fin 3), [''3'', ''-999.25'']), (VFloat (Fin 2), [''2'', ''8''])]"
    "sl_index_type ex_log = MEASURED_DEPTH" "sl_mnemonics ex_log = [''DEPT'', ''ROP'']" "sl_units ex_log = [Some ''m'', None]"
    "sl_uid ex_log = ''L1''" "sl_uid_well ex_log = ''W1''" "sl_uid_wellbore ex_log = ''B1''"
    by (simp_all add: ex_log_def sl_mnemonics_def sl_units_def)
  then show ?thesis unfolding wire_log_def using r cl l by (simp add: or_str_def)
qed

lemma ex_addressed: "addresses ex_store (ex_request c m) ex_log"
  by (simp add: addresses_def ex_store_def ex_request_def ex_log_def new_store_def)

lemma ex_request_ok: "request_ok (ex_request c m)"
proof -
  have "list_all (list_all legal_char) [''DEPT'', ''ROP'', ''W1'', ''B1'', ''L1'', ''m'']" by code_simp
  then show ?thesis by (simp add: request_ok_def ex_request_def or_str_def)
qed

lemma ex_bound_ok: "bound_ok MEASURED_DEPTH None" "bound_ok MEASURED_DEPTH (Some (VFloat (Fin 2)))"
  using ex_float by (simp_all add: bound_ok_def sendable_def is_time.simps)

text \<open>
  C11. The store selects exactly the rows in the requested range, in the growth order of the log;
  with a positive cap it returns the first of them and reports truncation exactly when there are
  more.
\<close>

theorem store_selects_range:
  assumes "\<forall>p \<in> set (sl_rows lg). good_index k (fst p)"
    "case start of None \<Rightarrow> True | Some v \<Rightarrow> good_index k v" "case stop of None \<Rightarrow> True | Some v \<Rightarrow> good_index k v"
  shows "select_range lg start stop (sl_direction lg) max_nodes =
    (let rs = map snd (range_rows lg start stop) in
     Inr (case max_nodes of Some m \<Rightarrow> if 0 < m \<and> m < int (length rs) then (take (nat m) rs, True) else (rs, False)
          | None \<Rightarrow> (rs, False)))"
  using assms by (rule select_range_exact)

theorem store_selects_range_witness:
  "select_range ex_log (Some (VFloat (Fin 2))) None INCREASING (Some 1) = Inr ([[''2'', ''8'']], True)"
proof -
  have "select_range ex_log (Some (VFloat (Fin 2))) None (sl_direction ex_log) (Some 1) =
    (let rs = map snd (range_rows ex_log (Some (VFloat (Fin 2))) None) in
     Inr (case Some 1 of Some m \<Rightarrow> if 0 < m \<and> m < int (length rs) then (take (nat m) rs, True) else (rs, False)
          | None \<Rightarrow> (rs, False)))"
    by (rule store_selects_range [where k = 0]) (auto simp: ex_log_def good_index_def is_nan_def)
  moreover have "range_rows ex_log (Some (VFloat (Fin 2))) None = [(VFloat (Fin 2), [''2'', ''8'']), (VFloat (Fin 3), [''3'', ''-999.25''])]"
    by code_simp
  ultimately show ?thesis by (simp add: ex_log_def)
qed

text \<open>
  C1. The client against the store: for a log whose rows the wire carries exactly, a call with any
  start, end and page size (none, or at least two rows and within the 1000 iterations) succeeds,
  leaves the store alone and returns every row of the requested range exactly once, decoded, in
  ascending order of the index, however many truncated answers it took.
\<close>

theorem get_log_data_complete:
  assumes "xml_codec lx" "request_ok rq" "addresses s rq lg" "wire_log lg"
    "bound_ok (lr_index_type rq) (lr_start rq)" "bound_ok (lr_index_type rq) (lr_end rq)" "max_ok (lr_max_return_nodes rq)"
    "fetchable rq (length (range_rows lg (map_option wire_bound (lr_start rq)) (map_option wire_bound (lr_end rq))))"
  shows "\<exists>res. get_log_data lx (store_service lx) rq s = (Inr res, s) \<and>
     ldr_uid res = lr_uid rq \<and> ldr_index_type res = lr_index_type rq \<and>
     b_rows (ldr_block res) = map (wire_decode (sl_index_type lg))
       (ascending_rows lg (map_option wire_bound (lr_start rq)) (map_option wire_bound (lr_end rq)))"
  using get_log_data_rows [OF assms(1-7) refl assms(8)] by metis

theorem get_log_data_complete_witness:
  "\<exists>res. get_log_data ref_lxml (store_service ref_lxml) (ex_request None (Some 2)) ex_store = (Inr res, ex_store) \<and>
     b_rows (ldr_block res) = map (wire_decode MEASURED_DEPTH)
       [(VFloat (Fin 1), [''1'', ''7'']), (VFloat (Fin 2), [''2'', ''8'']), (VFloat (Fin 3), [''3'', ''-999.25''])]"
proof -
  let ?rq = "ex_request None (Some 2)"
  have r: "ascending_rows ex_log None None =
      [(VFloat (Fin 1), [''1'', ''7'']), (VFloat (Fin 2), [''2'', ''8'']), (VFloat (Fin 3), [''3'', ''-999.25''])]"
    "length (range_rows ex_log None None) = 3"
    by code_simp+
  have q: "lr_index_type ?rq = MEASURED_DEPTH" "lr_start ?rq = None" "lr_end ?rq = None" "lr_max_return_nodes ?rq = Some 2"
    by (simp_all add: ex_request_def)
  have f: "fetchable ?rq (length (range_rows ex_log (map_option wire_bound (lr_start ?rq)) (map_option wire_bound (lr_end ?rq))))"
    by (simp add: fetchable_def q r(2))
  have "bound_ok (lr_index_type ?rq) (lr_start ?rq)" "bound_ok (lr_index_type ?rq) (lr_end ?rq)" "max_ok (lr_max_return_nodes ?rq)"
    unfolding q by (simp_all add: ex_bound_ok max_ok_def)
  from get_log_data_complete [OF ref_lxml_codec ex_request_ok ex_addressed ex_log_wire this f]
  show ?thesis unfolding q using r(1) by (auto simp: ex_log_def)
qed

end
