(* ===== verification/RingStore.thy ===== *)
theory RingStore
  imports Polling
begin

text \<open>
  \<^verbatim>\<open>backend/app/ingestion/store.py\<close>: the warm store. Bounded buffers per well and curve, the
  resumable state of every log, well metadata, and the subscriber queues of the live fan-out. Queues
  are shared objects of the code; here they live in a table under the identity they were created
  with, and the subscribers of a well are identities. The clock and the machine's time zone (which a
  naive datetime is read in) are parameters. Both kinds of buffer keep the newest elements, which is
  the interface \<open>bounded_buffer\<close>.
\<close>

type_synonym LogKey = "int \<times> string \<times> string \<times> string"

record LogState =
  lst_server_id :: int
  lst_well_uid :: string
  lst_wellbore_uid :: string
  lst_log_uid :: string
  lst_index_type :: IndexType
  lst_direction :: Direction
  lst_index_uom :: "string option"
  lst_index_mnemonic :: string
  lst_mnemonics :: "string list"
  lst_last_index :: "pyval option"
  lst_object_growing :: "bool option"

definition lst_key :: "LogState \<Rightarrow> LogKey" where
  "lst_key st = (lst_server_id st, lst_well_uid st, lst_wellbore_uid st, lst_log_uid st)"

record WellStatus =
  wst_well_uid :: string
  wst_name :: "string option"
  wst_region :: "string option"
  wst_growing :: bool
  wst_last_update :: "datetime option"
  wst_sample_count :: nat
  wst_mnemonics :: "string list"

section \<open>Wire samples\<close>

record wire_sample =
  wi_i :: pyfloat
  wi_v :: "pyfloat option"
  wi_t :: "string option"
  wi_u :: "string option"

type_synonym wire_curves = "(string \<times> wire_sample list) list"

datatype payload = Data string wire_curves

text \<open>
  \<^verbatim>\<open>timestamp()\<close> of an aware datetime is the correctly rounded quotient of the microseconds since the
  epoch; of a naive one it is the POSIX time \<open>local\<close> of the machine's wall clock in whole seconds, plus the
  microseconds.
\<close>

definition timestamp :: "(int \<Rightarrow> int) \<Rightarrow> datetime \<Rightarrow> pyfloat" where
  "timestamp local d =
     (if dt_aware d then fround (of_int (dt_us d) / 1000000)
      else fl_add (fround (of_int (local (dt_us d div 1000000)))) (fround (of_int (dt_us d mod 1000000) / 1000000)))"

definition wire_index_float :: "(int \<Rightarrow> int) \<Rightarrow> pyval \<Rightarrow> pyfloat res" where
  "wire_index_float local v = (case v of
      VDt d \<Rightarrow> Inr (fl_mul (timestamp local d) (Fin 1000))
    | VFloat x \<Rightarrow> Inr x
    | VStr s \<Rightarrow> (case float_of_string s of None \<Rightarrow> Inl ValueError | Some x \<Rightarrow> Inr x))"

definition sample_to_wire :: "(int \<Rightarrow> int) \<Rightarrow> curve_sample \<Rightarrow> wire_sample res" where
  "sample_to_wire local s = rbind (wire_index_float local (cs_index s)) (\<lambda>i.
     Inr \<lparr>wi_i = i, wi_v = cs_value s, wi_t = cs_text s, wi_u = cs_uom s\<rparr>)"

section \<open>The store\<close>

record sub_queue =
  sq_maxsize :: nat
  sq_items :: "payload list"

record RingBufferStore =
  rb_max_samples :: nat
  rb_curves :: "((string \<times> string) \<times> curve_sample list) list"
  rb_log_states :: "(LogKey \<times> LogState) list"
  rb_well_meta :: "(string \<times> string option \<times> string option) list"
  rb_last_update :: "(string \<times> datetime) list"
  rb_subscribers :: "(string \<times> nat list) list"
  rb_queues :: "(nat \<times> sub_queue) list"
  rb_next_queue :: nat

definition new_ring_store :: "nat \<Rightarrow> RingBufferStore" where
  "new_ring_store n = \<lparr>rb_max_samples = n, rb_curves = [], rb_log_states = [], rb_well_meta = [], rb_last_update = [],
     rb_subscribers = [], rb_queues = [], rb_next_queue = 0\<rparr>"

text \<open>\<^verbatim>\<open>deque(maxlen=n).append\<close>.\<close>

definition deque_push :: "nat \<Rightarrow> 'a \<Rightarrow> 'a list \<Rightarrow> 'a list" where
  "deque_push n x q = (let q' = q @ [x] in if n < length q' then drop (length q' - n) q' else q')"

definition buffer :: "RingBufferStore \<Rightarrow> string \<Rightarrow> string \<Rightarrow> curve_sample list" where
  "buffer st w m = (case map_of (rb_curves st) (w, m) of None \<Rightarrow> [] | Some b \<Rightarrow> b)"

definition push_sample :: "string \<Rightarrow> curve_sample \<Rightarrow> RingBufferStore \<Rightarrow> RingBufferStore" where
  "push_sample w s st = st\<lparr>rb_curves := AList.update (w, cs_mnemonic s)
     (deque_push (rb_max_samples st) s (buffer st w (cs_mnemonic s))) (rb_curves st)\<rparr>"

definition ring_append :: "datetime \<Rightarrow> string \<Rightarrow> string \<Rightarrow> curve_sample list \<Rightarrow> RingBufferStore \<Rightarrow> RingBufferStore" where
  "ring_append now well_uid log_uid ss st =
     (if ss = [] then st
      else (fold (push_sample well_uid) ss st)\<lparr>rb_last_update := AList.update well_uid now (rb_last_update st)\<rparr>)"

definition gt_index :: "pyval \<Rightarrow> pyval \<Rightarrow> bool" where
  "gt_index a b = (case val_lt b a of Inr r \<Rightarrow> r | Inl _ \<Rightarrow> False)"

text \<open>\<^verbatim>\<open>items[-limit:]\<close> for any integer.\<close>

definition tail_slice :: "int \<Rightarrow> 'a list \<Rightarrow> 'a list" where
  "tail_slice n xs = (if n \<le> 0 then drop (nat (- n)) xs else lastn (nat n) xs)"

definition recent_items :: "pyval option \<Rightarrow> int option \<Rightarrow> curve_sample list \<Rightarrow> curve_sample list" where
  "recent_items since limit b =
     (let items = (case since of None \<Rightarrow> b | Some v \<Rightarrow> filter (\<lambda>s. gt_index (cs_index s) v) b)
      in case limit of None \<Rightarrow> items | Some n \<Rightarrow> tail_slice n items)"

definition get_recent :: "string \<Rightarrow> string list option \<Rightarrow> pyval option \<Rightarrow> int option \<Rightarrow> RingBufferStore
    \<Rightarrow> (string \<times> curve_sample list) list" where
  "get_recent well_uid mnemonics since limit st =
     (let ms = (case mnemonics of
                  Some (m # ms) \<Rightarrow> m # ms
                | _ \<Rightarrow> map (\<lambda>p. snd (fst p)) (filter (\<lambda>p. fst (fst p) = well_uid) (rb_curves st)))
      in fold (\<lambda>m out. let b = buffer st well_uid m in
           if b = [] then out else AList.update m (recent_items since limit b) out) ms [])"

definition curve_mnemonics :: "string \<Rightarrow> RingBufferStore \<Rightarrow> string list" where
  "curve_mnemonics well_uid st = sorted_set (map (\<lambda>p. snd (fst p)) (filter (\<lambda>p. fst (fst p) = well_uid) (rb_curves st)))"

section \<open>Metadata and status\<close>

definition set_well_meta :: "string \<Rightarrow> string option \<Rightarrow> string option \<Rightarrow> RingBufferStore \<Rightarrow> RingBufferStore" where
  "set_well_meta well_uid nm region st = st\<lparr>rb_well_meta := AList.update well_uid (nm, region) (rb_well_meta st)\<rparr>"

definition well_uids :: "RingBufferStore \<Rightarrow> string list" where
  "well_uids st = sorted_set (map fst (rb_well_meta st) @ map (\<lambda>p. fst (fst p)) (rb_curves st))"

definition well_status :: "RingBufferStore \<Rightarrow> WellStatus list" where
  "well_status st = map (\<lambda>uid.
     (let meta = map_of (rb_well_meta st) uid; mnems = curve_mnemonics uid st in
      \<lparr>wst_well_uid = uid,
       wst_name = (case meta of None \<Rightarrow> None | Some (n, r) \<Rightarrow> n),
       wst_region = (case meta of None \<Rightarrow> None | Some (n, r) \<Rightarrow> r),
       wst_growing = list_ex (\<lambda>p. lst_well_uid (snd p) = uid \<and> lst_object_growing (snd p) = Some True) (rb_log_states st),
       wst_last_update = map_of (rb_last_update st) uid,
       wst_sample_count = sum_list (map (\<lambda>m. length (buffer st uid m)) mnems),
       wst_mnemonics = mnems\<rparr>)) (well_uids st)"

section \<open>Log states\<close>

definition get_log_state :: "LogKey \<Rightarrow> RingBufferStore \<Rightarrow> LogState option" where
  "get_log_state k st = map_of (rb_log_states st) k"

definition put_log_state :: "LogState \<Rightarrow> RingBufferStore \<Rightarrow> RingBufferStore" where
  "put_log_state ls st = st\<lparr>rb_log_states := AList.update (lst_key ls) ls (rb_log_states st)\<rparr>"

definition log_states :: "RingBufferStore \<Rightarrow> LogState list" where
  "log_states st = map snd (rb_log_states st)"

section \<open>Publish and subscribe\<close>

definition subs_of :: "string \<Rightarrow> RingBufferStore \<Rightarrow> nat list" where
  "subs_of well_uid st = (case map_of (rb_subscribers st) well_uid of None \<Rightarrow> [] | Some qs \<Rightarrow> qs)"

definition subscribe :: "string \<Rightarrow> nat \<Rightarrow> RingBufferStore \<Rightarrow> nat \<times> RingBufferStore" where
  "subscribe well_uid maxsize st = (let q = rb_next_queue st in
     (q, st\<lparr>rb_queues := AList.update q \<lparr>sq_maxsize = maxsize, sq_items = []\<rparr> (rb_queues st),
            rb_next_queue := q + 1,
            rb_subscribers := AList.update well_uid (subs_of well_uid st @ [q]) (rb_subscribers st)\<rparr>))"

text \<open>An unknown well is left alone: \<^verbatim>\<open>get\<close> does not create the entry.\<close>

definition unsubscribe :: "string \<Rightarrow> nat \<Rightarrow> RingBufferStore \<Rightarrow> RingBufferStore" where
  "unsubscribe well_uid q st = (case map_of (rb_subscribers st) well_uid of
      None \<Rightarrow> st
    | Some qs \<Rightarrow> st\<lparr>rb_subscribers := AList.update well_uid (filter (\<lambda>x. x \<noteq> q) qs) (rb_subscribers st)\<rparr>)"

definition queue_full :: "sub_queue \<Rightarrow> bool" where
  "queue_full q = (0 < sq_maxsize q \<and> sq_maxsize q \<le> length (sq_items q))"

text \<open>Make room by dropping the oldest message, then put unless there is still no room.\<close>

definition offer :: "payload \<Rightarrow> sub_queue \<Rightarrow> sub_queue" where
  "offer p q = (let q' = (if queue_full q then q\<lparr>sq_items := tl (sq_items q)\<rparr> else q)
     in if queue_full q' then q' else q'\<lparr>sq_items := sq_items q' @ [p]\<rparr>)"

definition offer_to :: "payload \<Rightarrow> nat \<Rightarrow> RingBufferStore \<Rightarrow> RingBufferStore" where
  "offer_to p q st = (case map_of (rb_queues st) q of
      None \<Rightarrow> st | Some sq \<Rightarrow> st\<lparr>rb_queues := AList.update q (offer p sq) (rb_queues st)\<rparr>)"

definition publish :: "string \<Rightarrow> payload \<Rightarrow> RingBufferStore \<Rightarrow> RingBufferStore" where
  "publish well_uid p st = fold (offer_to p) (subs_of well_uid st) st"

text \<open>A receiver takes the oldest message.\<close>

definition queue_get :: "nat \<Rightarrow> RingBufferStore \<Rightarrow> (payload \<times> RingBufferStore) option" where
  "queue_get q st = (case map_of (rb_queues st) q of
      Some sq \<Rightarrow> (case sq_items sq of [] \<Rightarrow> None
        | p # ps \<Rightarrow> Some (p, st\<lparr>rb_queues := AList.update q (sq\<lparr>sq_items := ps\<rparr>) (rb_queues st)\<rparr>))
    | None \<Rightarrow> None)"

definition subscriber_count :: "string \<Rightarrow> RingBufferStore \<Rightarrow> nat" where
  "subscriber_count well_uid st = length (subs_of well_uid st)"

text \<open>The size \<^verbatim>\<open>get_store\<close> computes: hours of buffer at the poll cadence, doubled, at least 2000.\<close>

definition ring_capacity :: "pyfloat \<Rightarrow> pyfloat \<Rightarrow> int res" where
  "ring_capacity hours poll =
     rbind (fl_div (fl_mul hours (Fin 3600)) poll) (\<lambda>x. rbind (int_of_float x) (\<lambda>n. Inr (max 2000 (n * 2))))"

section \<open>Bounded buffers\<close>

locale bounded_buffer =
  fixes push :: "'a \<Rightarrow> 'q \<Rightarrow> 'q" and items :: "'q \<Rightarrow> 'a list" and cap :: nat and valid :: "'q \<Rightarrow> bool"
  assumes push_items: "valid q \<Longrightarrow> items (push x q) = lastn cap (items q @ [x])"
    and push_valid: "valid q \<Longrightarrow> valid (push x q)"
    and valid_bound: "valid q \<Longrightarrow> length (items q) \<le> cap"
begin

lemma fold_push_valid: "valid q \<Longrightarrow> valid (fold push xs q)"
  by (induction xs arbitrary: q) (auto intro: push_valid)

lemma fold_push_items: "valid q \<Longrightarrow> items (fold push xs q) = lastn cap (items q @ xs)"
proof (induction xs arbitrary: q)
  case Nil
  then show ?case using valid_bound by (simp add: lastn_def)
next
  case (Cons x xs)
  then show ?case using lastn_append_lastn [of cap "items q @ [x]" xs] by (simp add: push_valid push_items)
qed

text \<open>The newest element is always there, the oldest are the ones that go.\<close>

lemma last_pushed: "valid q \<Longrightarrow> 0 < cap \<Longrightarrow> items (push x q) \<noteq> [] \<and> last (items (push x q)) = x"
proof -
  assume v: "valid q" and c: "0 < cap"
  obtain c' where "cap = Suc c'" using c by (cases cap) auto
  then have "lastn cap (items q @ [x]) \<noteq> []" by (simp add: lastn_def)
  moreover have "last (lastn cap (items q @ [x])) = x"
    using calculation unfolding lastn_def by (subst last_drop) auto
  ultimately show ?thesis using v by (simp add: push_items)
qed

lemma pushed_suffix: "valid q \<Longrightarrow> suffix (items (fold push xs q)) (items q @ xs)"
  by (simp add: fold_push_items lastn_suffix)

end

interpretation deque: bounded_buffer "deque_push n" "\<lambda>q. q" n "\<lambda>q. length q \<le> n" for n
  by unfold_locales (auto simp: deque_push_def lastn_def Let_def)

interpretation subq: bounded_buffer "offer :: payload \<Rightarrow> sub_queue \<Rightarrow> sub_queue" sq_items n "\<lambda>q. sq_maxsize q = n \<and> 0 < n \<and> length (sq_items q) \<le> n" for n
proof unfold_locales
  fix q :: sub_queue and x :: payload
  assume v: "sq_maxsize q = n \<and> 0 < n \<and> length (sq_items q) \<le> n"
  show "sq_items (offer x q) = lastn n (sq_items q @ [x])"
    using v by (cases "sq_items q") (auto simp: offer_def queue_full_def lastn_def Let_def Suc_diff_le)
  show "sq_maxsize (offer x q) = n \<and> 0 < n \<and> length (sq_items (offer x q)) \<le> n"
    using v by (cases "sq_items q") (auto simp: offer_def queue_full_def Let_def)
qed simp

section \<open>The buffers of a well\<close>

lemma buffer_push:
  "buffer (push_sample w s st) w' m =
     (if w' = w \<and> m = cs_mnemonic s then deque_push (rb_max_samples st) s (buffer st w m) else buffer st w' m)"
  by (auto simp: buffer_def push_sample_def lookup_update)

lemma push_max [simp]: "rb_max_samples (push_sample w s st) = rb_max_samples st"
  by (simp add: push_sample_def)

lemma fold_push_max [simp]: "rb_max_samples (fold (push_sample w) ss st) = rb_max_samples st"
  by (induction ss arbitrary: st) simp_all

lemma buffer_fold_push:
  "buffer (fold (push_sample w) ss st) w' m =
     (if w' = w then fold (deque_push (rb_max_samples st)) (filter (\<lambda>s. cs_mnemonic s = m) ss) (buffer st w m)
      else buffer st w' m)"
  by (induction ss arbitrary: st) (auto simp: buffer_push)

lemma buffer_append:
  "buffer (ring_append now w l ss st) w' m =
     (if w' = w then fold (deque_push (rb_max_samples st)) (filter (\<lambda>s. cs_mnemonic s = m) ss) (buffer st w m)
      else buffer st w' m)"
proof -
  have "buffer (s\<lparr>rb_last_update := u\<rparr>) v m = buffer s v m" for s :: RingBufferStore and u v
    by (simp add: buffer_def)
  then show ?thesis by (simp add: ring_append_def buffer_fold_push del: if_image_distrib)
qed

lemma append_max [simp]: "rb_max_samples (ring_append now w l ss st) = rb_max_samples st"
  by (simp add: ring_append_def)

text \<open>Every buffer is within its bound; the operations that touch the buffers keep it so.\<close>

definition ring_ok :: "RingBufferStore \<Rightarrow> bool" where
  "ring_ok st = ((\<forall>w m. length (buffer st w m) \<le> rb_max_samples st) \<and>
     (\<forall>q sq. map_of (rb_queues st) q = Some sq \<longrightarrow> 0 < sq_maxsize sq \<longrightarrow> length (sq_items sq) \<le> sq_maxsize sq))"

lemma ring_ok_buffer: "ring_ok st \<Longrightarrow> length (buffer st w m) \<le> rb_max_samples st"
  by (simp add: ring_ok_def)

lemma ring_ok_new: "ring_ok (new_ring_store n)"
  by (simp add: ring_ok_def new_ring_store_def buffer_def)

lemma queues_append [simp]: "rb_queues (ring_append now w l ss st) = rb_queues st"
proof -
  have "rb_queues (fold (push_sample w) ss st) = rb_queues st"
    by (induction ss arbitrary: st) (simp_all add: push_sample_def)
  then show ?thesis by (simp add: ring_append_def)
qed

lemma ring_ok_append: "ring_ok st \<Longrightarrow> ring_ok (ring_append now w l ss st)"
  unfolding ring_ok_def buffer_append
  by (auto intro: deque.fold_push_valid)

lemma ring_ok_put: "ring_ok st \<Longrightarrow> ring_ok (put_log_state ls st)"
  by (simp add: ring_ok_def put_log_state_def buffer_def)

lemma ring_ok_meta: "ring_ok st \<Longrightarrow> ring_ok (set_well_meta w n r st)"
  by (simp add: ring_ok_def set_well_meta_def buffer_def)

lemma ring_ok_subscribe: "ring_ok st \<Longrightarrow> ring_ok (snd (subscribe w k st))"
  by (auto simp: ring_ok_def subscribe_def buffer_def Let_def lookup_update)

lemma ring_ok_unsubscribe: "ring_ok st \<Longrightarrow> ring_ok (unsubscribe w q st)"
  by (auto simp: ring_ok_def unsubscribe_def buffer_def split: option.splits)

lemma ring_ok_queue_get: "ring_ok st \<Longrightarrow> queue_get q st = Some (p, st') \<Longrightarrow> ring_ok st'"
  by (fastforce simp: ring_ok_def queue_get_def buffer_def lookup_update split: option.splits list.splits if_splits)

lemma offer_bound:
  "(0 < sq_maxsize sq \<Longrightarrow> length (sq_items sq) \<le> sq_maxsize sq) \<Longrightarrow> 0 < sq_maxsize (offer p sq) \<Longrightarrow>
   length (sq_items (offer p sq)) \<le> sq_maxsize (offer p sq)"
  by (auto simp: offer_def queue_full_def Let_def split: if_splits)

lemma ring_ok_offer: "ring_ok st \<Longrightarrow> ring_ok (offer_to p q st)"
  using offer_bound unfolding ring_ok_def offer_to_def
  by (auto simp: buffer_def lookup_update split: option.splits if_splits)

lemma ring_ok_publish: "ring_ok st \<Longrightarrow> ring_ok (publish w p st)"
proof -
  have "ring_ok st \<Longrightarrow> ring_ok (fold (offer_to p) qs st)" for qs
    by (induction qs arbitrary: st) (simp_all add: ring_ok_offer)
  then show "ring_ok st \<Longrightarrow> ring_ok (publish w p st)" by (simp add: publish_def)
qed

lemmas ring_ok_intros = ring_ok_new ring_ok_append ring_ok_put ring_ok_meta ring_ok_subscribe
  ring_ok_unsubscribe ring_ok_publish

text \<open>
  A run of appends, in the order they arrive: every buffer holds the newest \<^verbatim>\<open>max_samples\<close> samples of
  its curve, in order, whatever logs they came through.
\<close>

definition appends :: "(datetime \<times> string \<times> string \<times> curve_sample list) list \<Rightarrow> RingBufferStore \<Rightarrow> RingBufferStore" where
  "appends as st = fold (\<lambda>(now, w, l, ss). ring_append now w l ss) as st"

definition arrived :: "string \<Rightarrow> string \<Rightarrow> (datetime \<times> string \<times> string \<times> curve_sample list) list \<Rightarrow> curve_sample list" where
  "arrived w m as = concat (map (\<lambda>(now, w', l, ss). if w' = w then filter (\<lambda>s. cs_mnemonic s = m) ss else []) as)"

lemma appends_max [simp]: "rb_max_samples (appends as st) = rb_max_samples st"
  by (induction as arbitrary: st) (auto simp: appends_def)

lemma buffer_appends:
  "buffer (appends as st) w m = fold (deque_push (rb_max_samples st)) (arrived w m as) (buffer st w m)"
proof (induction as arbitrary: st)
  case (Cons a as)
  obtain now w' l ss where a: "a = (now, w', l, ss)" by (cases a) auto
  have "buffer (appends (a # as) st) w m = buffer (appends as (ring_append now w' l ss st)) w m"
    by (simp add: a appends_def)
  then show ?case by (simp add: Cons.IH a arrived_def buffer_append)
qed (simp add: appends_def arrived_def)

text \<open>
  C19. The ring buffers keep exactly the newest samples. After any sequence of appends, from any logs
  to any wells, the buffer of a curve is the last \<^verbatim>\<open>max_samples_per_curve\<close> elements of what was there
  followed by everything that arrived for that curve, in arrival order: nothing newer is lost, nothing
  is duplicated or reordered, nothing of another well leaks in, and the bound holds.
\<close>

theorem ring_keeps_newest:
  assumes "ring_ok st"
  shows "buffer (appends as st) w m = lastn (rb_max_samples st) (buffer st w m @ arrived w m as)"
  unfolding buffer_appends using deque.fold_push_items [OF ring_ok_buffer [OF assms]] .

theorem ring_keeps_newest_witness:
  "map cs_value (buffer (appends [(DT True 0, ''W'', ''L'', [\<lparr>cs_mnemonic = ''A'', cs_index = VFloat (Fin 1), cs_value = Some (Fin 1), cs_text = None, cs_uom = None\<rparr>,
       \<lparr>cs_mnemonic = ''B'', cs_index = VFloat (Fin 1), cs_value = Some (Fin 9), cs_text = None, cs_uom = None\<rparr>]),
      (DT True 1, ''W'', ''M'', [\<lparr>cs_mnemonic = ''A'', cs_index = VFloat (Fin 2), cs_value = Some (Fin 2), cs_text = None, cs_uom = None\<rparr>,
       \<lparr>cs_mnemonic = ''A'', cs_index = VFloat (Fin 3), cs_value = Some (Fin 3), cs_text = None, cs_uom = None\<rparr>])] (new_ring_store 2)) ''W'' ''A'')
   = [Some (Fin 2), Some (Fin 3)]"
  by (subst ring_keeps_newest [OF ring_ok_new]) (simp add: arrived_def new_ring_store_def buffer_def lastn_def)

section \<open>Reading back\<close>

lemma get_recent_fold:
  assumes "m \<in> set ms" "buffer st w m \<noteq> []"
  shows "map_of (fold (\<lambda>m out. let b = buffer st w m in
           if b = [] then out else AList.update m (recent_items since limit b) out) ms out) m
       = Some (recent_items since limit (buffer st w m))"
  using assms(1)
proof (induction ms arbitrary: out rule: rev_induct)
  case (snoc x xs)
  then show ?case using assms(2) by (auto simp: Let_def lookup_update)
qed simp

lemma get_recent_fold_empty:
  assumes "m \<notin> set ms \<or> buffer st w m = []"
  shows "map_of (fold (\<lambda>m out. let b = buffer st w m in
           if b = [] then out else AList.update m (recent_items since limit b) out) ms out) m = map_of out m"
  using assms
proof (induction ms arbitrary: out rule: rev_induct)
  case (snoc x xs)
  then show ?case by (auto simp: Let_def lookup_update)
qed simp

lemma get_recent_lookup:
  "map_of (get_recent w mnemonics since (Some (int (Suc n))) st) m =
     (if (case mnemonics of Some (x # xs) \<Rightarrow> m \<in> set (x # xs) | _ \<Rightarrow> True) \<and> buffer st w m \<noteq> []
      then Some (lastn (Suc n) (case since of None \<Rightarrow> buffer st w m
                   | Some v \<Rightarrow> [s \<leftarrow> buffer st w m. val_lt v (cs_index s) = Inr True]))
      else None)"
proof -
  have gt: "gt_index a v = (val_lt v a = Inr True)" for a v
    by (auto simp: gt_index_def split: sum.splits)
  have ts: "tail_slice (int n + 1) xs = lastn (Suc n) xs" "tail_slice (1 + int n) xs = lastn (Suc n) xs"
    for xs :: "curve_sample list"
    by (simp_all add: tail_slice_def nat_add_distrib)
  have own: "m \<in> set (map (\<lambda>p. snd (fst p)) (filter (\<lambda>p. fst (fst p) = w) (rb_curves st)))" if "buffer st w m \<noteq> []"
    using that by (force simp: buffer_def dest: map_of_SomeD split: option.splits)
  define ms where "ms = (case mnemonics of Some (m # ms) \<Rightarrow> m # ms
                | _ \<Rightarrow> map (\<lambda>p. snd (fst p)) (filter (\<lambda>p. fst (fst p) = w) (rb_curves st)))"
  have inms: "(m \<in> set ms \<and> buffer st w m \<noteq> []) =
     ((case mnemonics of Some (x # xs) \<Rightarrow> m \<in> set (x # xs) | _ \<Rightarrow> True) \<and> buffer st w m \<noteq> [])"
    unfolding ms_def using own by (auto split: option.splits list.splits)
  show ?thesis
    unfolding get_recent_def Let_def [of ms] ms_def [symmetric] inms [symmetric]
    using get_recent_fold [of m ms st w since "Some (int (Suc n))" "[]"]
      get_recent_fold_empty [of m ms st w since "Some (int (Suc n))" "[]"]
    by (auto simp: recent_items_def ts gt Let_def split: option.splits)
qed

text \<open>
  C33. Reading recent samples. For every curve asked for, or for every curve of the well when none is
  named, \<^verbatim>\<open>get_recent\<close> returns the buffered samples whose index is strictly beyond \<^verbatim>\<open>since\<close>, cut to the
  last \<^verbatim>\<open>limit\<close> of them where the limit is positive, and a curve that has no sample is absent from the answer.
\<close>

theorem get_recent_correct:
  "map_of (get_recent w mnemonics since (Some (int (Suc n))) st) m =
     (if (case mnemonics of Some (x # xs) \<Rightarrow> m \<in> set (x # xs) | _ \<Rightarrow> True) \<and> buffer st w m \<noteq> []
      then Some (lastn (Suc n) (case since of None \<Rightarrow> buffer st w m
                   | Some v \<Rightarrow> [s \<leftarrow> buffer st w m. val_lt v (cs_index s) = Inr True]))
      else None)"
  by (rule get_recent_lookup)

section \<open>The fan-out\<close>

lemma offer_to_queues:
  "map_of (rb_queues (offer_to p q st)) q' = (if q' = q then map_option (offer p) (map_of (rb_queues st) q) else map_of (rb_queues st) q')"
  by (auto simp: offer_to_def lookup_update split: option.splits)

lemma offer_all_queues:
  "distinct qs \<Longrightarrow> map_of (rb_queues (fold (offer_to p) qs st)) q =
     (if q \<in> set qs then map_option (offer p) (map_of (rb_queues st) q) else map_of (rb_queues st) q)"
  by (induction qs arbitrary: st) (auto simp: offer_to_queues)

lemma offer_all_rest:
  "rb_curves (fold (offer_to p) qs st) = rb_curves st \<and> rb_log_states (fold (offer_to p) qs st) = rb_log_states st
   \<and> rb_subscribers (fold (offer_to p) qs st) = rb_subscribers st"
  by (induction qs arbitrary: st) (auto simp: offer_to_def split: option.splits)

text \<open>
  Publishing never blocks and never loses the newest message. Every queue subscribed to the well
  receives the payload as its newest element; a full queue gives up its oldest message for it, so it
  keeps the newest \<^verbatim>\<open>maxsize\<close> messages in order; the queues of other wells, the sample buffers and
  the log states are untouched.
\<close>

theorem publish_keeps_newest:
  assumes "ring_ok st" "distinct (subs_of w st)" "map_of (rb_queues st) q = Some sq" "0 < sq_maxsize sq"
  shows "map_of (rb_queues (publish w p st)) q =
           Some (if q \<in> set (subs_of w st) then sq\<lparr>sq_items := lastn (sq_maxsize sq) (sq_items sq @ [p])\<rparr> else sq) \<and>
         rb_curves (publish w p st) = rb_curves st \<and> rb_log_states (publish w p st) = rb_log_states st"
proof -
  have v: "sq_maxsize sq = sq_maxsize sq \<and> 0 < sq_maxsize sq \<and> length (sq_items sq) \<le> sq_maxsize sq"
    using assms by (auto simp: ring_ok_def)
  have "sq_maxsize (offer p sq) = sq_maxsize sq" by (simp add: offer_def Let_def)
  then have o: "offer p sq = sq\<lparr>sq_items := lastn (sq_maxsize sq) (sq_items sq @ [p])\<rparr>"
    using subq.push_items [OF v, of p] by simp
  show ?thesis
    unfolding publish_def using offer_all_queues [OF assms(2), of p st q] offer_all_rest [of p "subs_of w st" st] assms(3)
    by (simp add: o)
qed

text \<open>Two subscribers of a well, one of them full.\<close>

definition two_subs :: RingBufferStore where
  "two_subs = publish ''W'' (Data ''W'' [(''A'', [])]) (snd (subscribe ''W'' 2 (snd (subscribe ''W'' 1 (new_ring_store 5)))))"

theorem publish_keeps_newest_witness:
  "map_of (rb_queues (publish ''W'' (Data ''W'' []) two_subs)) 0 = Some \<lparr>sq_maxsize = 1, sq_items = [Data ''W'' []]\<rparr>"
proof -
  have r: "ring_ok two_subs" unfolding two_subs_def by (intro ring_ok_intros)
  have q: "subs_of ''W'' two_subs = [0, 1]" "map_of (rb_queues two_subs) 0 = Some \<lparr>sq_maxsize = 1, sq_items = [Data ''W'' [(''A'', [])]]\<rparr>"
    by (simp_all add: two_subs_def publish_def subs_of_def subscribe_def new_ring_store_def offer_to_def offer_def queue_full_def)
  show ?thesis using publish_keeps_newest [of two_subs "''W''" 0] r q by (simp add: lastn_def)
qed

end
