(* ===== verification/Scheduler.thy ===== *)
theory Scheduler
  imports RingStore LogFetch
begin

text \<open>
  \<^verbatim>\<open>backend/app/ingestion/scheduler.py\<close>: discovery, the tick, the ingestion of one log, persistence and
  the snapshot of the index cache, with the two tables it writes (\<^verbatim>\<open>backend/app/db/models.py\<close>). The state
  holds the scheduler object, the warm store it shares, the tables, and the state of the WITSML server.
  The database is a parameter in the environment: whether it answers, and what a stored datetime reads
  back as. Rows come back in the order they were inserted. asyncio switches tasks only at an await, so
  that everything after the answer of \<^verbatim>\<open>get_log_data\<close> is one step; the polls of a tick run in the order they
  are submitted. Waiting (the stagger, the interval, the semaphore) takes no step.
\<close>

section \<open>State\<close>

record CurveSampleRow =
  cr_server_id :: int
  cr_well_uid :: string
  cr_wellbore_uid :: string
  cr_log_uid :: string
  cr_mnemonic :: string
  cr_index_float :: "pyfloat option"
  cr_index_dt :: "datetime option"
  cr_value :: "pyfloat option"
  cr_text :: "string option"
  cr_uom :: "string option"

record IndexCacheSnapshot =
  ic_server_id :: int
  ic_well_uid :: string
  ic_wellbore_uid :: string
  ic_log_uid :: string
  ic_mnemonic :: string
  ic_last_index_float :: "pyfloat option"
  ic_last_index_dt :: "datetime option"
  ic_uom :: "string option"
  ic_direction :: "string option"
  ic_index_type :: "string option"

record 's IngestionScheduler =
  sc_server_id :: int
  sc_store :: RingBufferStore
  sc_headers :: "(LogKey \<times> log_header) list"
  sc_discovered :: bool
  sc_tick_count :: nat
  sc_focused :: "string option"
  sc_sample_rows :: "CurveSampleRow list"
  sc_snapshots :: "IndexCacheSnapshot list"
  sc_remote :: 's

record 's sched_env =
  se_lxml :: lxml
  se_service :: "'s service"
  se_pyd :: "string \<Rightarrow> pyval option"
  se_local :: "int \<Rightarrow> int"
  se_max_return_nodes :: int
  se_clock :: "'s \<Rightarrow> datetime"
  se_db_up :: "'s \<Rightarrow> bool"
  se_db_dt :: "datetime \<Rightarrow> datetime"

definition new_scheduler :: "int \<Rightarrow> RingBufferStore \<Rightarrow> 's \<Rightarrow> 's IngestionScheduler" where
  "new_scheduler sid st r = \<lparr>sc_server_id = sid, sc_store = st, sc_headers = [], sc_discovered = False, sc_tick_count = 0,
     sc_focused = None, sc_sample_rows = [], sc_snapshots = [], sc_remote = r\<rparr>"

text \<open>A step that may raise: what it raised, and the state it left behind.\<close>

type_synonym 's sched_action = "'s IngestionScheduler \<Rightarrow> unit res \<times> 's IngestionScheduler"

section \<open>Log state\<close>

definition header_key :: "int \<Rightarrow> log_header \<Rightarrow> LogKey" where
  "header_key sid h = (sid, lh_uid_well h, lh_uid_wellbore h, lh_uid h)"

definition state_from_header :: "int \<Rightarrow> log_header \<Rightarrow> LogState" where
  "state_from_header sid h =
     (let index_mnem = (case or_none (lh_index_curve h) of Some m \<Rightarrow> m
                        | None \<Rightarrow> (case lh_mnemonics h of [] \<Rightarrow> '''' | m # ms \<Rightarrow> m));
          mnems = lh_mnemonics h;
          mnems' = (if index_mnem \<noteq> [] \<and> index_mnem \<in> set mnems then index_mnem # filter (\<lambda>m. m \<noteq> index_mnem) mnems
                    else if index_mnem \<noteq> [] then index_mnem # mnems else mnems)
      in \<lparr>lst_server_id = sid, lst_well_uid = lh_uid_well h, lst_wellbore_uid = lh_uid_wellbore h, lst_log_uid = lh_uid h,
          lst_index_type = lh_index_type h, lst_direction = lh_direction h, lst_index_uom = lh_index_uom h,
          lst_index_mnemonic = index_mnem, lst_mnemonics = mnems', lst_last_index = None,
          lst_object_growing = lh_object_growing h\<rparr>)"

section \<open>One log\<close>

definition as_float :: "pyval option \<Rightarrow> pyfloat option" where
  "as_float v = (case v of None \<Rightarrow> None | Some (VDt d) \<Rightarrow> None | Some (VFloat x) \<Rightarrow> Some x | Some (VStr s) \<Rightarrow> float_of_string s)"

definition index_dt :: "bool \<Rightarrow> pyval option \<Rightarrow> datetime option" where
  "index_dt t v = (case v of Some (VDt d) \<Rightarrow> if t then Some d else None | _ \<Rightarrow> None)"

definition sample_row :: "int \<Rightarrow> log_header \<Rightarrow> bool \<Rightarrow> curve_sample \<Rightarrow> CurveSampleRow" where
  "sample_row sid h t s = \<lparr>cr_server_id = sid, cr_well_uid = lh_uid_well h, cr_wellbore_uid = lh_uid_wellbore h,
     cr_log_uid = lh_uid h, cr_mnemonic = cs_mnemonic s,
     cr_index_float = (if t then None else as_float (Some (cs_index s))), cr_index_dt = index_dt t (Some (cs_index s)),
     cr_value = cs_value s, cr_text = cs_text s, cr_uom = cs_uom s\<rparr>"

text \<open>One transaction; a database that does not answer leaves the table alone.\<close>

definition persist_samples :: "'s sched_env \<Rightarrow> log_header \<Rightarrow> LogState \<Rightarrow> curve_sample list \<Rightarrow> 's sched_action" where
  "persist_samples env h st ss w =
     (if se_db_up env (sc_remote w)
      then (Inr (), w\<lparr>sc_sample_rows := sc_sample_rows w @
              map (sample_row (sc_server_id w) h (is_time (lst_index_type st))) ss\<rparr>)
      else (Inl DbError, w))"

definition by_mnemonic :: "(int \<Rightarrow> int) \<Rightarrow> curve_sample list \<Rightarrow> wire_curves res" where
  "by_mnemonic local ss = rfold (\<lambda>s d. rbind (sample_to_wire local s) (\<lambda>x. Inr (alist_push (cs_mnemonic s) x d))) ss []"

text \<open>The new samples go to the warm store, to the subscribers of the well and to the database.\<close>

definition store_samples :: "'s sched_env \<Rightarrow> log_header \<Rightarrow> LogState \<Rightarrow> curve_sample list \<Rightarrow> 's sched_action" where
  "store_samples env h st ss w =
     (if ss = [] then (Inr (), w)
      else (let w1 = w\<lparr>sc_store := ring_append (se_clock env (sc_remote w)) (lh_uid_well h) (lh_uid h) ss (sc_store w)\<rparr>
            in case by_mnemonic (se_local env) ss of
                 Inl e \<Rightarrow> (Inl e, w1)
               | Inr curves \<Rightarrow>
                   (Inr (), snd (persist_samples env h st ss
                      (w1\<lparr>sc_store := publish (lh_uid_well h) (Data (lh_uid_well h) curves) (sc_store w1)\<rparr>)))))"

text \<open>What a batch gives: the samples beyond the cursor, and the state with the cursor moved on.\<close>

definition take_in :: "'s sched_env \<Rightarrow> LogState \<Rightarrow> log_data_block \<Rightarrow> (curve_sample list \<times> LogState) res" where
  "take_in env st block =
     rbind (dedupe_boundary block (lst_last_index st) (lst_direction st)) (\<lambda>deduped.
     rbind (samples (se_pyd env) deduped) (\<lambda>ss.
     rbind (continuation_index block (lst_direction st)) (\<lambda>new_cursor.
       Inr (ss, st\<lparr>lst_last_index := (case new_cursor of None \<Rightarrow> lst_last_index st | Some v \<Rightarrow> Some v),
                   lst_object_growing := Some True\<rparr>))))"

definition ingest_request :: "int \<Rightarrow> log_header \<Rightarrow> LogState \<Rightarrow> string list \<Rightarrow> log_request" where
  "ingest_request max_nodes h st curve_mnems =
     \<lparr>lr_uid_well = lh_uid_well h, lr_uid_wellbore = lh_uid_wellbore h, lr_uid = lh_uid h,
      lr_mnemonics = lst_index_mnemonic st # curve_mnems, lr_index_type = lst_index_type st, lr_direction = lst_direction st,
      lr_start = lst_last_index st, lr_end = None, lr_index_uom = lst_index_uom st, lr_max_return_nodes = Some max_nodes\<rparr>"

definition current_state :: "log_header \<Rightarrow> 's IngestionScheduler \<Rightarrow> LogState" where
  "current_state h w = (case get_log_state (header_key (sc_server_id w) h) (sc_store w) of
     Some st \<Rightarrow> st | None \<Rightarrow> state_from_header (sc_server_id w) h)"

definition do_ingest_log :: "'s sched_env \<Rightarrow> log_header \<Rightarrow> 's sched_action" where
  "do_ingest_log env h w =
     (let st = current_state h w;
          curve_mnems = filter (\<lambda>m. m \<noteq> lst_index_mnemonic st) (lst_mnemonics st)
      in if curve_mnems = [] then (Inr (), w)
         else (case get_log_data (se_lxml env) (se_service env) (ingest_request (se_max_return_nodes env) h st curve_mnems) (sc_remote w) of
             (Inl e, r) \<Rightarrow> (Inl e, w\<lparr>sc_remote := r\<rparr>)
           | (Inr res, r) \<Rightarrow>
               (let w' = w\<lparr>sc_remote := r\<rparr> in
                case take_in env st (ldr_block res) of
                  Inl e \<Rightarrow> (Inl e, w')
                | Inr (ss, st') \<Rightarrow> store_samples env h st' ss (w'\<lparr>sc_store := put_log_state st' (sc_store w')\<rparr>))))"

text \<open>Failures are isolated per log.\<close>

definition ingest_log :: "'s sched_env \<Rightarrow> log_header \<Rightarrow> 's IngestionScheduler \<Rightarrow> 's IngestionScheduler" where
  "ingest_log env h w = snd (do_ingest_log env h w)"

section \<open>Discovery\<close>

definition fetch_objects :: "(lxml \<Rightarrow> string \<Rightarrow> 'a list res) \<Rightarrow> 's sched_env \<Rightarrow> QbeQuery res \<Rightarrow> ('a list, 's) act" where
  "fetch_objects parse env query = sbind (lift_res query) (\<lambda>q.
     sbind (get_from_store (se_service env) (qq_wml_type q) (qq_query_xml q) (qq_options_in q)) (\<lambda>(rc, xml, supp).
       lift_res (parse (se_lxml env) (or_str xml ''''))))"

definition fetch_wells :: "'s sched_env \<Rightarrow> (well list, 's) act" where
  "fetch_wells env = fetch_objects parse_wells env (well_query (se_lxml env) None REQUESTED)"

definition fetch_wellbores :: "'s sched_env \<Rightarrow> string \<Rightarrow> (wellbore list, 's) act" where
  "fetch_wellbores env uid_well = fetch_objects parse_wellbores env (wellbore_query (se_lxml env) uid_well None REQUESTED)"

definition fetch_log_headers :: "'s sched_env \<Rightarrow> string \<Rightarrow> string \<Rightarrow> (log_header list, 's) act" where
  "fetch_log_headers env uid_well uid_wellbore =
     fetch_objects parse_log_headers env (log_header_query (se_lxml env) uid_well uid_wellbore None)"

text \<open>A header enters the topology; its state is only created, never replaced.\<close>

definition note_header :: "log_header \<Rightarrow> 's IngestionScheduler \<times> bool \<Rightarrow> 's IngestionScheduler \<times> bool" where
  "note_header h acc = (case acc of (w, any_logs) \<Rightarrow>
     if lh_uid h = [] then (w, any_logs)
     else (let k = header_key (sc_server_id w) h; w1 = w\<lparr>sc_headers := AList.update k h (sc_headers w)\<rparr>
       in (if get_log_state k (sc_store w1) = None
           then w1\<lparr>sc_store := put_log_state (state_from_header (sc_server_id w1) h) (sc_store w1)\<rparr> else w1, True)))"

definition discover_wellbore :: "'s sched_env \<Rightarrow> well \<Rightarrow> wellbore \<Rightarrow> 's IngestionScheduler \<times> bool \<Rightarrow> 's IngestionScheduler \<times> bool" where
  "discover_wellbore env wl wb acc = (case acc of (w, any_logs) \<Rightarrow>
     (case fetch_log_headers env (w_uid wl) (wb_uid wb) (sc_remote w) of
        (Inl e, r) \<Rightarrow> (w\<lparr>sc_remote := r\<rparr>, any_logs)
      | (Inr hs, r) \<Rightarrow> fold note_header hs (w\<lparr>sc_remote := r\<rparr>, any_logs)))"

definition discover_well :: "'s sched_env \<Rightarrow> well \<Rightarrow> 's IngestionScheduler \<times> bool \<Rightarrow> 's IngestionScheduler \<times> bool" where
  "discover_well env wl acc = (case acc of (w, any_logs) \<Rightarrow>
     (let w1 = w\<lparr>sc_store := set_well_meta (w_uid wl) (w_name wl) (w_region wl) (sc_store w)\<rparr> in
      case fetch_wellbores env (w_uid wl) (sc_remote w1) of
        (Inl e, r) \<Rightarrow> (w1\<lparr>sc_remote := r\<rparr>, any_logs)
      | (Inr wbs, r) \<Rightarrow> fold (discover_wellbore env wl) wbs (w1\<lparr>sc_remote := r\<rparr>, any_logs)))"

definition discover :: "'s sched_env \<Rightarrow> 's sched_action" where
  "discover env w = (case fetch_wells env (sc_remote w) of
      (Inl e, r) \<Rightarrow> (Inl e, w\<lparr>sc_remote := r\<rparr>)
    | (Inr wells, r) \<Rightarrow>
        (if wells = [] then (Inr (), w\<lparr>sc_remote := r\<rparr>)
         else (case fold (discover_well env) wells (w\<lparr>sc_remote := r\<rparr>, False) of
             (w', any_logs) \<Rightarrow> (Inr (), if any_logs then w'\<lparr>sc_discovered := True\<rparr> else w'))))"

section \<open>The index cache\<close>

definition snap_key :: "IndexCacheSnapshot \<Rightarrow> LogKey" where
  "snap_key s = (ic_server_id s, ic_well_uid s, ic_wellbore_uid s, ic_log_uid s)"

text \<open>The dictionary of the existing rows holds the last row of a key; writing to it changes that row.\<close>

fun update_last :: "('a \<Rightarrow> bool) \<Rightarrow> ('a \<Rightarrow> 'a) \<Rightarrow> 'a list \<Rightarrow> 'a list" where
  "update_last p f [] = []"
| "update_last p f (x # xs) = (if list_ex p xs then x # update_last p f xs else if p x then f x # xs else x # xs)"

definition write_snapshot :: "LogState \<Rightarrow> IndexCacheSnapshot \<Rightarrow> IndexCacheSnapshot" where
  "write_snapshot st row =
     (let t = is_time (lst_index_type st) in
      row\<lparr>ic_last_index_float := (if t then None else as_float (lst_last_index st)),
          ic_last_index_dt := index_dt t (lst_last_index st), ic_uom := lst_index_uom st,
          ic_direction := Some (dir_value (lst_direction st)), ic_index_type := Some (it_value (lst_index_type st))\<rparr>)"

definition blank_snapshot :: "LogState \<Rightarrow> string \<Rightarrow> IndexCacheSnapshot" where
  "blank_snapshot st m = \<lparr>ic_server_id = lst_server_id st, ic_well_uid = lst_well_uid st, ic_wellbore_uid = lst_wellbore_uid st,
     ic_log_uid = lst_log_uid st, ic_mnemonic = m, ic_last_index_float = None, ic_last_index_dt = None, ic_uom = None,
     ic_direction = None, ic_index_type = None\<rparr>"

definition row_of :: "int \<Rightarrow> LogState \<Rightarrow> string \<Rightarrow> IndexCacheSnapshot \<Rightarrow> bool" where
  "row_of sid st m r = (ic_server_id r = sid \<and> ic_well_uid r = lst_well_uid st \<and> ic_wellbore_uid r = lst_wellbore_uid st \<and>
     ic_log_uid r = lst_log_uid st \<and> ic_mnemonic r = m)"

text \<open>One curve of one state, on the rows read and the rows to be added.\<close>

definition upsert_curve :: "int \<Rightarrow> LogState \<Rightarrow> string \<Rightarrow> IndexCacheSnapshot list \<times> IndexCacheSnapshot list
    \<Rightarrow> IndexCacheSnapshot list \<times> IndexCacheSnapshot list" where
  "upsert_curve sid st m acc = (case acc of (existing, added) \<Rightarrow>
     if m = [] then (existing, added)
     else if list_ex (row_of sid st m) existing then (update_last (row_of sid st m) (write_snapshot st) existing, added)
     else (existing, added @ [write_snapshot st (blank_snapshot st m)]))"

definition upsert_state :: "int \<Rightarrow> LogState \<Rightarrow> IndexCacheSnapshot list \<times> IndexCacheSnapshot list
    \<Rightarrow> IndexCacheSnapshot list \<times> IndexCacheSnapshot list" where
  "upsert_state sid st acc =
     (if lst_last_index st = None then acc
      else fold (upsert_curve sid st) (if lst_mnemonics st = [] then [lst_index_mnemonic st] else lst_mnemonics st) acc)"

definition uq_key :: "IndexCacheSnapshot \<Rightarrow> LogKey \<times> string" where
  "uq_key r = (snap_key r, ic_mnemonic r)"

text \<open>The commit fails when it would break the unique constraint.\<close>

definition snapshot_index_state :: "'s sched_env \<Rightarrow> 's sched_action" where
  "snapshot_index_state env w =
     (let states = filter (\<lambda>st. lst_server_id st = sc_server_id w) (log_states (sc_store w)) in
      if states = [] then (Inr (), w)
      else if \<not> se_db_up env (sc_remote w) then (Inl DbError, w)
      else (let (existing, added) = fold (upsert_state (sc_server_id w)) states (sc_snapshots w, []);
                rows = existing @ added
            in if distinct (map uq_key rows) then (Inr (), w\<lparr>sc_snapshots := rows\<rparr>) else (Inl DbError, w)))"

definition snap_direction :: "string option \<Rightarrow> Direction" where
  "snap_direction d = (if lower (or_str d '''') = ''decreasing'' then DECREASING else INCREASING)"

definition cursor_from_snap :: "(datetime \<Rightarrow> datetime) \<Rightarrow> IndexCacheSnapshot \<Rightarrow> IndexType \<Rightarrow> pyval option" where
  "cursor_from_snap db_dt s it =
     (if is_time it then map_option (\<lambda>d. VDt (db_dt d)) (ic_last_index_dt s) else map_option VFloat (ic_last_index_float s))"

definition state_of_group :: "(datetime \<Rightarrow> datetime) \<Rightarrow> LogKey \<Rightarrow> IndexCacheSnapshot list \<Rightarrow> LogState" where
  "state_of_group db_dt k grp =
     (let head = hd grp; it = index_type_of (ic_index_type head); mnems = sorted_set (map ic_mnemonic grp)
      in \<lparr>lst_server_id = fst k, lst_well_uid = fst (snd k), lst_wellbore_uid = fst (snd (snd k)), lst_log_uid = snd (snd (snd k)),
          lst_index_type = it, lst_direction = snap_direction (ic_direction head), lst_index_uom = ic_uom head,
          lst_index_mnemonic = (case mnems of [] \<Rightarrow> '''' | m # ms \<Rightarrow> m), lst_mnemonics = mnems,
          lst_last_index = cursor_from_snap db_dt head it, lst_object_growing = None\<rparr>)"

definition load_index_snapshot :: "'s sched_env \<Rightarrow> 's sched_action" where
  "load_index_snapshot env w =
     (if \<not> se_db_up env (sc_remote w) then (Inl DbError, w)
      else (let snaps = filter (\<lambda>s. ic_server_id s = sc_server_id w) (sc_snapshots w);
                per_log = fold (\<lambda>s d. alist_push (snap_key s) s d) snaps []
            in (Inr (), w\<lparr>sc_store := fold (\<lambda>(k, grp) store. put_log_state (state_of_group (se_db_dt env) k grp) store)
                 per_log (sc_store w)\<rparr>)))"

section \<open>The tick and the life cycle\<close>

definition focus :: "string \<Rightarrow> 's IngestionScheduler \<Rightarrow> 's IngestionScheduler" where
  "focus well_uid w = w\<lparr>sc_focused := Some well_uid\<rparr>"

definition is_viewed :: "'s IngestionScheduler \<Rightarrow> log_header \<Rightarrow> bool" where
  "is_viewed w h = (sc_focused w = Some (lh_uid_well h) \<or> 0 < subscriber_count (lh_uid_well h) (sc_store w))"

definition tick_order :: "'s IngestionScheduler \<Rightarrow> log_header list" where
  "tick_order w = sort_key (\<lambda>h. if is_viewed w h then 0 else 1 :: nat) (map snd (sc_headers w))"

definition SNAPSHOT_EVERY_TICKS :: nat where "SNAPSHOT_EVERY_TICKS = 12"

definition tick :: "'s sched_env \<Rightarrow> 's IngestionScheduler \<Rightarrow> 's IngestionScheduler" where
  "tick env w0 =
     (let w1 = w0\<lparr>sc_tick_count := sc_tick_count w0 + 1\<rparr>;
          w2 = (if \<not> sc_discovered w1 \<or> sc_headers w1 = [] then snd (discover env w1) else w1)
      in if sc_headers w2 = [] then w2
         else (let w3 = fold (ingest_log env) (tick_order w2) w2
               in if sc_tick_count w3 mod SNAPSHOT_EVERY_TICKS = 0 then snd (snapshot_index_state env w3) else w3))"

definition start :: "'s sched_env \<Rightarrow> 's IngestionScheduler \<Rightarrow> 's IngestionScheduler" where
  "start env w = snd (discover env (snd (load_index_snapshot env w)))"

definition stop :: "'s sched_env \<Rightarrow> 's IngestionScheduler \<Rightarrow> 's IngestionScheduler" where
  "stop env w = snd (snapshot_index_state env w)"

end
