(* ===== verification/Ingest.thy ===== *)
theory Ingest
  imports Scheduler
begin

text \<open>
  Incremental ingestion against a growing log: a poll delivers exactly the rows beyond the cursor, and
  over any run of the system every row reaches the durable cache once.
\<close>

section \<open>What one poll should do\<close>

definition log_samples :: "StoredLog \<Rightarrow> store_row list \<Rightarrow> curve_sample list" where
  "log_samples lg rs = spec_samples (log_block lg rs)"

definition beyond_cursor :: "Direction \<Rightarrow> pyval option \<Rightarrow> pyval \<Rightarrow> bool" where
  "beyond_cursor d c i = (case c of None \<Rightarrow> True | Some v \<Rightarrow> newer_than d i v)"

text \<open>The rows beyond the cursor, in ascending order of the index, and the newest index of the log.\<close>

definition new_rows :: "StoredLog \<Rightarrow> pyval option \<Rightarrow> store_row list" where
  "new_rows lg c = filter (\<lambda>p. beyond_cursor (sl_direction lg) c (fst p)) (sort_key fst (sl_rows lg))"

definition log_newest :: "StoredLog \<Rightarrow> pyval option" where
  "log_newest lg = (if sl_rows lg = [] then None else Some (growth_end (sl_direction lg) (fst ` set (sl_rows lg))))"

definition poll_request :: "'s sched_env \<Rightarrow> log_header \<Rightarrow> LogState \<Rightarrow> log_request" where
  "poll_request env h st = ingest_request (se_max_return_nodes env) h st
     (filter (\<lambda>m. m \<noteq> lst_index_mnemonic st) (lst_mnemonics st))"

text \<open>
  A log the scheduler can follow: it has a curve besides the index, the store holds it under the
  identity of the header, the wire carries its rows, one call can fetch all of them, and the cursor is
  an index of the log.
\<close>

definition pollable :: "'s sched_env \<Rightarrow> MockStore \<Rightarrow> log_header \<Rightarrow> LogState \<Rightarrow> StoredLog \<Rightarrow> bool" where
  "pollable env s h st lg =
     (filter (\<lambda>m. m \<noteq> lst_index_mnemonic st) (lst_mnemonics st) \<noteq> [] \<and> request_ok (poll_request env h st) \<and>
      addresses s (poll_request env h st) lg \<and> wire_log lg \<and> \<bar>se_max_return_nodes env\<bar> \<le> 2 ^ 53 \<and>
      (se_max_return_nodes env \<le> 0 \<or>
        (2 \<le> se_max_return_nodes env \<and> int (length (sl_rows lg)) \<le> 1000 * (se_max_return_nodes env - 1) + 1)) \<and>
      (case lst_last_index st of None \<Rightarrow> True | Some c \<Rightarrow> c \<in> fst ` set (sl_rows lg)))"

lemma poll_request_simps [simp]:
  "lr_start (poll_request env h st) = lst_last_index st" "lr_end (poll_request env h st) = None"
  "lr_index_type (poll_request env h st) = lst_index_type st" "lr_direction (poll_request env h st) = lst_direction st"
  "lr_max_return_nodes (poll_request env h st) = Some (se_max_return_nodes env)"
  "lr_uid (poll_request env h st) = lh_uid h" "lr_uid_well (poll_request env h st) = lh_uid_well h"
  "lr_uid_wellbore (poll_request env h st) = lh_uid_wellbore h"
  by (simp_all add: poll_request_def ingest_request_def)

lemma addresses_types: "addresses s rq lg \<Longrightarrow> sl_index_type lg = lr_index_type rq \<and> sl_direction lg = lr_direction rq"
  by (simp add: addresses_def)

lemma sort_ascending:
  "distinct (map fst (sl_rows lg)) \<Longrightarrow> ascending_rows lg None None = sort_key fst (sl_rows lg)"
  by (cases "sl_direction lg") (simp_all add: ascending_rows_def range_rows_def in_range_def growth_rows_def Let_def)

lemma ascending_filter:
  "ascending_rows lg a b = filter (\<lambda>p. in_range (sl_direction lg) a b (fst p)) (sort_key fst (sl_rows lg))"
  by (cases "sl_direction lg") (simp_all add: ascending_rows_def range_rows_def growth_rows_def Let_def rev_filter)

text \<open>The rows beyond a cursor lie in the range that starts at the cursor.\<close>

lemma new_rows_range:
  "filter (\<lambda>p. beyond_cursor (sl_direction lg) c (fst p)) (ascending_rows lg c None) = new_rows lg c"
  by (cases "sl_direction lg"; cases c)
     (auto simp: ascending_filter new_rows_def in_range_def beyond_cursor_def newer_than_def intro!: filter_cong)

lemma keys_decode: "keys_of (map (wire_decode it) rs) = map fst rs"
  by (induction rs) (simp_all add: wire_decode_def)

lemma wire_log_rows:
  assumes "wire_log lg"
  shows "p \<in> set (sl_rows lg) \<Longrightarrow> wire_index (sl_index_type lg) (fst p)"
    and "p \<in> set (sl_rows lg) \<Longrightarrow> good_index (if is_time (sl_index_type lg) then 2 else 0) (fst p)"
    and "p \<in> set (sl_rows lg) \<Longrightarrow> plain_row (wire_decode (sl_index_type lg) p)"
proof -
  show w: "wire_index (sl_index_type lg) (fst p)" if "p \<in> set (sl_rows lg)" for p
    using assms that by (auto simp: wire_log_def wire_row_def list_all_iff)
  then show "p \<in> set (sl_rows lg) \<Longrightarrow> good_index (if is_time (sl_index_type lg) then 2 else 0) (fst p)"
    by (intro wire_index_good)
  show "plain_row (wire_decode (sl_index_type lg) p)" if "p \<in> set (sl_rows lg)"
    using w [OF that]
    by (auto simp: plain_row_def wire_decode_def plain_index_def wire_index_def list_all_iff decode_cell_def Let_def
        split: if_splits option.splits pyval.splits)
qed

text \<open>The newest index of the rows from the cursor on is the newest of the log.\<close>

lemma growth_end_eqI:
  assumes "finite S" "x \<in> S" "\<And>y. y \<in> S \<Longrightarrow> \<not> newer_than d y x"
  shows "growth_end d S = x"
  using assms by (cases d) (auto simp: growth_end_def newer_than_def not_less intro!: Max_eqI Min_eqI)

lemma newest_from_cursor:
  assumes "case c of None \<Rightarrow> True | Some v \<Rightarrow> v \<in> fst ` set (sl_rows lg)" "sl_rows lg \<noteq> []"
  shows "ascending_rows lg c None \<noteq> []"
    and "growth_end (sl_direction lg) (fst ` set (ascending_rows lg c None)) = growth_end (sl_direction lg) (fst ` set (sl_rows lg))"
proof -
  let ?d = "sl_direction lg" and ?K = "fst ` set (sl_rows lg)"
  let ?n = "growth_end ?d ?K"
  have n: "?n \<in> ?K" using assms(2) by (intro growth_end_in) auto
  have top: "\<not> newer_than ?d k ?n" if "k \<in> ?K" for k using that by (intro growth_end_newest) auto
  have "in_range ?d c None ?n"
    using assms(1) top by (auto simp: in_range_def split: option.splits)
  then have m: "?n \<in> fst ` set (ascending_rows lg c None)" using n by (auto simp: ascending_filter)
  then show "ascending_rows lg c None \<noteq> []" by auto
  show "growth_end ?d (fst ` set (ascending_rows lg c None)) = ?n"
    using m top by (intro growth_end_eqI) (auto simp: ascending_filter)
qed

lemma take_in_rows:
  assumes lg: "wire_log lg" and c: "case lst_last_index st of None \<Rightarrow> True | Some v \<Rightarrow> v \<in> fst ` set (sl_rows lg)"
    and d: "lst_direction st = sl_direction lg"
    and rows: "b_rows b = map (wire_decode (sl_index_type lg)) (ascending_rows lg (lst_last_index st) None)"
    and hdr: "ascending_rows lg (lst_last_index st) None \<noteq> [] \<Longrightarrow> b_mnemonics b = sl_mnemonics lg \<and> b_units b = map or_none (sl_units lg)"
  shows "take_in env st b = Inr (log_samples lg (new_rows lg (lst_last_index st)),
     st\<lparr>lst_last_index := log_newest lg, lst_object_growing := Some True\<rparr>)"
proof -
  let ?c = "lst_last_index st" and ?d = "sl_direction lg" and ?dec = "wire_decode (sl_index_type lg)"
  let ?A = "ascending_rows lg ?c None" and ?k = "if is_time (sl_index_type lg) then 2 else 0 :: nat"
  have sub: "set ?A \<subseteq> set (sl_rows lg)" by (auto simp: ascending_filter)
  have ne: "\<forall>r \<in> set (b_rows b). r \<noteq> []" unfolding rows by (auto simp: wire_decode_def)
  have keys: "keys_of (b_rows b) = map fst ?A" unfolding rows by (rule keys_decode)
  have good: "\<forall>v \<in> set (keys_of (b_rows b)). good_index ?k v"
    unfolding keys using sub wire_log_rows(2) [OF lg] by auto
  have dd: "dedupe_boundary b ?c ?d = Inr (b\<lparr>b_rows := map ?dec (new_rows lg ?c)\<rparr>)"
  proof (cases ?c)
    case None
    then show ?thesis using rows new_rows_range [of lg None]
      by (cases b) (simp add: dedupe_boundary_def beyond_cursor_def)
  next
    case (Some v)
    with c obtain q where "q \<in> set (sl_rows lg)" "v = fst q" by auto
    then have "good_index ?k v" using wire_log_rows(2) [OF lg] by auto
    from dedupe_boundary_rows [OF ne good this] show ?thesis
      using new_rows_range [of lg ?c]
      by (simp add: Some rows beyond_rows_def filter_map comp_def wire_decode_def beyond_cursor_def)
  qed
  have ss: "samples (se_pyd env) (b\<lparr>b_rows := map ?dec (new_rows lg ?c)\<rparr>) = Inr (log_samples lg (new_rows lg ?c))"
  proof -
    have pr: "list_all plain_row (map ?dec (new_rows lg ?c))"
      using wire_log_rows(3) [OF lg] by (auto simp: list_all_iff new_rows_def)
    have "spec_samples (b\<lparr>b_rows := map ?dec (new_rows lg ?c)\<rparr>) = log_samples lg (new_rows lg ?c)"
    proof (cases "?A = []")
      case True
      then have "new_rows lg ?c = []" using new_rows_range [of lg ?c] by simp
      then show ?thesis by (simp add: log_samples_def spec_samples_def log_block_def)
    next
      case False
      from hdr [OF this] show ?thesis by (simp add: log_samples_def spec_samples_def log_block_def)
    qed
    with samples_plain [of "b\<lparr>b_rows := map ?dec (new_rows lg ?c)\<rparr>"] pr show ?thesis by simp
  qed
  have ci: "continuation_index b ?d = Inr (if ?A = [] then None else Some (growth_end ?d (set (map fst ?A))))"
    unfolding continuation_index_spec [OF ne good] keys by simp
  have "(case (if ?A = [] then None else Some (growth_end ?d (set (map fst ?A)))) of None \<Rightarrow> ?c | Some v \<Rightarrow> Some v) = log_newest lg"
  proof (cases "sl_rows lg = []")
    case True
    then show ?thesis using c by (auto simp: log_newest_def ascending_filter split: option.splits)
  next
    case False
    from newest_from_cursor [OF c this] show ?thesis by (simp add: log_newest_def False)
  qed
  then show ?thesis by (simp add: take_in_def d dd ss ci)
qed

section \<open>Wire samples\<close>

definition wire_of :: "(int \<Rightarrow> int) \<Rightarrow> curve_sample \<Rightarrow> wire_sample" where
  "wire_of local s = (case sample_to_wire local s of Inr x \<Rightarrow> x)"

lemma sample_to_wire_plain:
  "plain_index (cs_index s) \<Longrightarrow> sample_to_wire local s = Inr (wire_of local s)"
  by (cases "cs_index s") (auto simp: plain_index_def sample_to_wire_def wire_index_float_def wire_of_def)

lemma rfold_push:
  assumes "\<forall>s \<in> set ss. plain_index (cs_index s)"
  shows "rfold (\<lambda>s d. rbind (sample_to_wire local s) (\<lambda>x. Inr (alist_push (cs_mnemonic s) x d))) ss d =
    Inr (fold (\<lambda>s. alist_push (cs_mnemonic s) (wire_of local s)) ss d)"
  using assms by (intro rfold_Inr) (simp add: sample_to_wire_plain)

lemma map_of_fold_push:
  "map_of (fold (\<lambda>s. alist_push (f s) (g s)) ss d) m =
     (if filter (\<lambda>s. f s = m) ss = [] then map_of d m
      else Some ((case map_of d m of None \<Rightarrow> [] | Some vs \<Rightarrow> vs) @ map g (filter (\<lambda>s. f s = m) ss)))"
  by (induction ss arbitrary: d) (auto simp: map_of_alist_push)

lemma log_samples_plain:
  assumes "wire_log lg" "set rs \<subseteq> set (sl_rows lg)" "s \<in> set (log_samples lg rs)"
  shows "plain_index (cs_index s)"
proof -
  from assms(3) obtain r i where "r \<in> set rs" "cs_index s = i" "cell_at (wire_decode (sl_index_type lg) r) 0 = Some i"
    by (auto simp: log_samples_def spec_samples_def log_block_def sample_of_def split: option.splits)
  moreover from this have "plain_row (wire_decode (sl_index_type lg) r)" using assms(1,2) wire_log_rows(3) by blast
  ultimately show ?thesis by (auto simp: plain_row_def wire_decode_def cell_at_def)
qed

section \<open>One poll\<close>

definition polled_state :: "LogState \<Rightarrow> StoredLog \<Rightarrow> LogState" where
  "polled_state st lg = st\<lparr>lst_last_index := log_newest lg, lst_object_growing := Some True\<rparr>"

lemma poll_fetch:
  assumes lx: "xml_codec (se_lxml env)" and svc: "se_service env = store_service (se_lxml env)"
    and p: "pollable env s h st lg"
  shows "\<exists>res. get_log_data (se_lxml env) (se_service env) (poll_request env h st) s = (Inr res, s) \<and>
    take_in env st (ldr_block res) = Inr (log_samples lg (new_rows lg (lst_last_index st)), polled_state st lg)"
proof -
  let ?rq = "poll_request env h st" and ?c = "lst_last_index st"
  have lg: "wire_log lg" and ad: "addresses s ?rq lg" and rq: "request_ok ?rq"
    and c: "case ?c of None \<Rightarrow> True | Some v \<Rightarrow> v \<in> fst ` set (sl_rows lg)"
    using p by (auto simp: pollable_def)
  have it: "sl_index_type lg = lst_index_type st" "sl_direction lg = lst_direction st" using addresses_types [OF ad] by simp_all
  have wb: "map_option wire_bound ?c = ?c" "bound_ok (lr_index_type ?rq) ?c"
    using c wire_log_rows(1) [OF lg] wire_index_sendable by (auto simp: bound_ok_def it split: option.splits)
  have len: "length (range_rows lg ?c None) \<le> length (sl_rows lg)"
    unfolding range_rows_def growth_rows_def Let_def
    by (rule order_trans [OF length_filter_le]) simp
  have n: "fetchable ?rq (length (range_rows lg (map_option wire_bound (lr_start ?rq)) (map_option wire_bound (lr_end ?rq))))"
    using p len by (auto simp: fetchable_def pollable_def wb)
  have mx: "max_ok (lr_max_return_nodes ?rq)" using p by (simp add: max_ok_def pollable_def)
  have b: "bound_ok (lr_index_type ?rq) (lr_start ?rq)" "bound_ok (lr_index_type ?rq) (lr_end ?rq)"
    using wb(2) by (simp_all add: bound_ok_def)
  obtain res where g: "get_log_data (se_lxml env) (store_service (se_lxml env)) ?rq s = (Inr res, s)"
    and rows: "b_rows (ldr_block res) = map (wire_decode (sl_index_type lg)) (ascending_rows lg ?c None)"
    and hdr: "range_rows lg ?c None \<noteq> [] \<Longrightarrow> b_mnemonics (ldr_block res) = sl_mnemonics lg \<and> b_units (ldr_block res) = map or_none (sl_units lg)"
    using get_log_data_rows [OF lx rq ad lg b mx refl n] by (auto simp: wb)
  have "take_in env st (ldr_block res) = Inr (log_samples lg (new_rows lg ?c), polled_state st lg)"
    unfolding polled_state_def
    by (rule take_in_rows [OF lg c it(2) [symmetric] rows]) (use hdr in \<open>simp add: ascending_rows_def split: if_splits\<close>)
  with g svc show ?thesis by auto
qed

text \<open>The state a poll leaves, with the database answering.\<close>

definition polled :: "'s sched_env \<Rightarrow> log_header \<Rightarrow> LogState \<Rightarrow> curve_sample list \<Rightarrow> 's IngestionScheduler \<Rightarrow> 's IngestionScheduler \<Rightarrow> bool" where
  "polled env h st ss w w' =
     (get_log_state (lst_key st) (sc_store w') = Some st \<and>
      (\<forall>k. k \<noteq> lst_key st \<longrightarrow> get_log_state k (sc_store w') = get_log_state k (sc_store w)) \<and>
      (ring_ok (sc_store w) \<longrightarrow> ring_ok (sc_store w') \<and>
        (\<forall>u m. buffer (sc_store w') u m =
           (if u = lh_uid_well h
            then lastn (rb_max_samples (sc_store w)) (buffer (sc_store w) u m @ [s \<leftarrow> ss. cs_mnemonic s = m])
            else buffer (sc_store w) u m))) \<and>
      sc_sample_rows w' = sc_sample_rows w @ map (sample_row (sc_server_id w) h (is_time (lst_index_type st))) ss \<and>
      rb_max_samples (sc_store w') = rb_max_samples (sc_store w) \<and>
      sc_server_id w' = sc_server_id w \<and> sc_headers w' = sc_headers w \<and> sc_discovered w' = sc_discovered w \<and>
      sc_tick_count w' = sc_tick_count w \<and> sc_focused w' = sc_focused w \<and>
      sc_snapshots w' = sc_snapshots w \<and> sc_remote w' = sc_remote w)"

lemma publish_rest:
  "rb_curves (publish u p st) = rb_curves st" "rb_log_states (publish u p st) = rb_log_states st"
  "rb_max_samples (publish u p st) = rb_max_samples st"
proof -
  show "rb_curves (publish u p st) = rb_curves st" "rb_log_states (publish u p st) = rb_log_states st"
    by (simp_all add: publish_def offer_all_rest)
  have "rb_max_samples (fold (offer_to p) qs st) = rb_max_samples st" for qs
    by (induction qs arbitrary: st) (simp_all add: offer_to_def split: option.splits)
  then show "rb_max_samples (publish u p st) = rb_max_samples st" by (simp add: publish_def)
qed

lemma append_log_states: "rb_log_states (ring_append now u l ss st) = rb_log_states st"
proof -
  have "rb_log_states (fold (push_sample u) ss st) = rb_log_states st" by (induction ss arbitrary: st) (simp_all add: push_sample_def)
  then show ?thesis by (simp add: ring_append_def)
qed

lemma get_put_log_state: "get_log_state k (put_log_state st r) = (if k = lst_key st then Some st else get_log_state k r)"
  by (simp add: get_log_state_def put_log_state_def)

lemma buffer_rest [simp]:
  "buffer (put_log_state st r) = buffer r" "buffer (publish u p r) = buffer r"
  by (rule ext, rule ext, simp add: buffer_def put_log_state_def publish_rest)+

lemma put_max [simp]: "rb_max_samples (put_log_state st r) = rb_max_samples r"
  by (simp add: put_log_state_def)

lemma append_buffer:
  "ring_ok r \<Longrightarrow> buffer (ring_append now u l ss r) v m =
     (if v = u then lastn (rb_max_samples r) (buffer r v m @ [s \<leftarrow> ss. cs_mnemonic s = m]) else buffer r v m)"
  unfolding buffer_append using deque.fold_push_items [OF ring_ok_buffer] by auto

lemma lastn_full: "length xs \<le> n \<Longrightarrow> lastn n xs = xs"
  by (simp add: lastn_def)

lemma store_samples_polled:
  assumes "\<forall>s \<in> set ss. plain_index (cs_index s)" "se_db_up env (sc_remote w)"
  shows "\<exists>w'. store_samples env h st ss (w\<lparr>sc_store := put_log_state st (sc_store w)\<rparr>) = (Inr (), w') \<and> polled env h st ss w w'"
proof (cases "ss = []")
  case True
  then show ?thesis
    by (simp add: store_samples_def polled_def get_put_log_state ring_ok_put lastn_full ring_ok_buffer)
next
  case False
  let ?r = "put_log_state st (sc_store w)"
  let ?a = "ring_append (se_clock env (sc_remote w)) (lh_uid_well h) (lh_uid h) ss ?r"
  obtain curves where c: "by_mnemonic (se_local env) ss = Inr curves"
    using rfold_push [OF assms(1), of "se_local env" "[]"] by (simp add: by_mnemonic_def)
  let ?w = "w\<lparr>sc_store := publish (lh_uid_well h) (Data (lh_uid_well h) curves) ?a,
     sc_sample_rows := sc_sample_rows w @ map (sample_row (sc_server_id w) h (is_time (lst_index_type st))) ss\<rparr>"
  have e: "store_samples env h st ss (w\<lparr>sc_store := ?r\<rparr>) = (Inr (), ?w)"
    using assms(2) False c by (simp add: store_samples_def persist_samples_def)
  have gs: "get_log_state k (sc_store ?w) = get_log_state k ?r" for k
    by (simp add: get_log_state_def publish_rest append_log_states)
  have b: "ring_ok (sc_store w) \<Longrightarrow> buffer (sc_store ?w) u m =
       (if u = lh_uid_well h then lastn (rb_max_samples (sc_store w)) (buffer (sc_store w) u m @ [s \<leftarrow> ss. cs_mnemonic s = m])
        else buffer (sc_store w) u m)" for u m
    using append_buffer [OF ring_ok_put, of "sc_store w"] by simp
  have "polled env h st ss w ?w"
    unfolding polled_def gs using b by (simp add: get_put_log_state publish_rest ring_ok_publish ring_ok_append ring_ok_put)
  with e show ?thesis by blast
qed

lemma lst_key_current: "lst_key (current_state h w) = header_key (sc_server_id w) h"
  if "\<And>k st. get_log_state k (sc_store w) = Some st \<Longrightarrow> lst_key st = k"
  using that by (auto simp: current_state_def header_key_def state_from_header_def lst_key_def Let_def split: option.splits)

lemma ingest_polled:
  assumes "xml_codec (se_lxml env)" "se_service env = store_service (se_lxml env)"
    and p: "pollable env (sc_remote w) h (current_state h w) lg" and db: "se_db_up env (sc_remote w)"
  shows "\<exists>w'. do_ingest_log env h w = (Inr (), w') \<and>
    polled env h (polled_state (current_state h w) lg) (log_samples lg (new_rows lg (lst_last_index (current_state h w)))) w w'"
proof -
  let ?st = "current_state h w"
  let ?ss = "log_samples lg (new_rows lg (lst_last_index ?st))"
  have ne: "filter (\<lambda>m. m \<noteq> lst_index_mnemonic ?st) (lst_mnemonics ?st) \<noteq> []" and lg: "wire_log lg"
    using p by (simp_all add: pollable_def)
  have pl: "\<forall>s \<in> set ?ss. plain_index (cs_index s)"
    using log_samples_plain [OF lg, of "new_rows lg (lst_last_index ?st)"] by (auto simp: new_rows_def)
  obtain res where g: "get_log_data (se_lxml env) (se_service env) (poll_request env h ?st) (sc_remote w) = (Inr res, sc_remote w)"
    and t: "take_in env ?st (ldr_block res) = Inr (?ss, polled_state ?st lg)"
    using poll_fetch [OF assms(1,2) p] by blast
  have "do_ingest_log env h w = store_samples env h (polled_state ?st lg) ?ss (w\<lparr>sc_store := put_log_state (polled_state ?st lg) (sc_store w)\<rparr>)"
    using ne g t unfolding do_ingest_log_def Let_def poll_request_def by simp
  with store_samples_polled [OF pl db, of h "polled_state ?st lg"] show ?thesis by simp
qed

section \<open>Polls that may fail\<close>

text \<open>Reading from the store leaves it alone, whatever the outcome.\<close>

definition keeps :: "('a, 's) act \<Rightarrow> bool" where
  "keeps m = (\<forall>s. snd (m s) = s)"

lemma keeps_sbind: "keeps m \<Longrightarrow> (\<And>v. keeps (f v)) \<Longrightarrow> keeps (sbind m f)"
  by (auto simp: keeps_def sbind_def split: prod.splits sum.splits) (metis snd_conv)+

lemma keeps_lift [simp]: "keeps (lift_res r)"
  by (simp add: keeps_def lift_res_def)

lemma keeps_get_from_store: "keeps (get_from_store (store_service lx) ty q opts)"
  unfolding get_from_store_def
  by (intro keeps_sbind) (simp_all add: keeps_def store_service_def lift_res_def split: prod.splits)

lemma witsml_error_keeps: "snd (witsml_error (store_service lx) code supp s) = s"
  by (auto simp: witsml_error_def get_base_msg_def store_service_def Let_def split: option.splits prod.splits)

lemma keeps_fetch_batch: "keeps (fetch_batch lx (store_service lx) rq c)"
  unfolding fetch_batch_def
proof (intro keeps_sbind keeps_lift keeps_get_from_store)
  fix q and v :: "int \<times> string option \<times> string option"
  obtain rc x supp where v: "v = (rc, x, supp)" by (cases v) auto
  show "keeps (case v of (result, xml_out, supp) \<Rightarrow> \<lambda>s.
      if is_error (Some result) then (let (e, s') = witsml_error (store_service lx) (Some result) supp s in (Inl e, s'))
      else (rbind (parse_log_data lx (or_str xml_out '''') (Some (lr_index_type rq)) None) (\<lambda>b. Inr (result, b)), s))"
    using witsml_error_keeps [of lx "Some rc" supp]
    by (auto simp: keeps_def v split: prod.splits) (metis snd_conv)+
qed

lemma keeps_fetch_loop: "keeps (fetch_loop n lx (store_service lx) rq st)"
  by (induction n arbitrary: st) (auto intro!: keeps_sbind keeps_fetch_batch)

lemma get_log_data_keeps: "get_log_data lx (store_service lx) rq s = (r, s') \<Longrightarrow> s' = s"
proof -
  have "keeps (get_log_data lx (store_service lx) rq)"
    unfolding get_log_data_def by (intro keeps_sbind keeps_fetch_loop keeps_lift)
  then show "get_log_data lx (store_service lx) rq s = (r, s') \<Longrightarrow> s' = s" by (auto simp: keeps_def dest: spec [of _ s])
qed

definition keyed :: "RingBufferStore \<Rightarrow> bool" where
  "keyed r = (\<forall>k st. get_log_state k r = Some st \<longrightarrow> lst_key st = k)"

lemma keyedD: "keyed r \<Longrightarrow> get_log_state k r = Some st \<Longrightarrow> lst_key st = k"
  unfolding keyed_def by (drule spec, drule spec, erule mp)

lemma keyed_put: "keyed r \<Longrightarrow> keyed (put_log_state st r)"
  by (simp add: keyed_def get_put_log_state)

lemma keyed_cong: "rb_log_states r' = rb_log_states r \<Longrightarrow> keyed r' = keyed r"
  unfolding keyed_def get_log_state_def by simp

text \<open>
  Whatever a poll does, it touches only what belongs to its log: the state under its key, the buffers
  of its well and rows of the cache with its identity.
\<close>

definition touches_only :: "log_header \<Rightarrow> 's IngestionScheduler \<Rightarrow> 's IngestionScheduler \<Rightarrow> bool" where
  "touches_only h w w' =
     ((\<forall>k. k \<noteq> header_key (sc_server_id w) h \<longrightarrow> get_log_state k (sc_store w') = get_log_state k (sc_store w)) \<and>
      (keyed (sc_store w) \<longrightarrow> keyed (sc_store w')) \<and> (ring_ok (sc_store w) \<longrightarrow> ring_ok (sc_store w')) \<and>
      (\<forall>u m. u \<noteq> lh_uid_well h \<longrightarrow> buffer (sc_store w') u m = buffer (sc_store w) u m) \<and>
      (\<exists>ss t. sc_sample_rows w' = sc_sample_rows w @ map (sample_row (sc_server_id w) h t) ss) \<and>
      sc_server_id w' = sc_server_id w \<and> sc_headers w' = sc_headers w \<and> sc_discovered w' = sc_discovered w \<and>
      sc_tick_count w' = sc_tick_count w \<and> sc_focused w' = sc_focused w \<and>
      sc_snapshots w' = sc_snapshots w \<and> sc_remote w' = sc_remote w)"

lemma touches_states:
  "touches_only h w w' \<Longrightarrow> k \<noteq> header_key (sc_server_id w) h \<Longrightarrow> get_log_state k (sc_store w') = get_log_state k (sc_store w)"
  unfolding touches_only_def by blast

lemma touches_refl: "touches_only h w w"
proof -
  have "\<exists>ss t. sc_sample_rows w = sc_sample_rows w @ map (sample_row (sc_server_id w) h t) ss"
    by (rule exI [of _ "[]"]) simp
  then show ?thesis by (simp add: touches_only_def)
qed

lemma store_samples_touches:
  assumes "lst_key st = header_key (sc_server_id w) h"
  shows "touches_only h w (snd (store_samples env h st ss (w\<lparr>sc_store := put_log_state st (sc_store w)\<rparr>)))"
proof -
  let ?r = "put_log_state st (sc_store w)"
  have none: "\<exists>ss t. sc_sample_rows w = sc_sample_rows w @ map (sample_row (sc_server_id w) h t) ss"
    by (rule exI [of _ "[]"]) simp
  have app: "\<exists>ss t. sc_sample_rows w @ map (sample_row (sc_server_id w) h t') xs = sc_sample_rows w @ map (sample_row (sc_server_id w) h t) ss" for t' xs
    by blast
  have st: "rb_log_states (ring_append n u l xs ?r) = rb_log_states ?r" "rb_log_states (publish v p (ring_append n u l xs ?r)) = rb_log_states ?r"
    for n u l xs v p by (simp_all add: append_log_states publish_rest)
  have oth: "k \<noteq> header_key (sc_server_id w) h \<Longrightarrow> get_log_state k r' = get_log_state k (sc_store w)" if "rb_log_states r' = rb_log_states ?r" for k r'
    using that assms get_put_log_state [of k st "sc_store w"] by (simp add: get_log_state_def)
  have kd: "keyed (sc_store w) \<Longrightarrow> keyed r'" if "rb_log_states r' = rb_log_states ?r" for r'
    using keyed_cong [OF that] keyed_put by blast
  show ?thesis
    using none app oth [OF refl] oth [OF st(1)] oth [OF st(2)] kd [OF refl] kd [OF st(1)] kd [OF st(2)]
    by (cases "by_mnemonic (se_local env) ss")
       (simp_all add: touches_only_def store_samples_def persist_samples_def Let_def ring_ok_put ring_ok_append ring_ok_publish
          buffer_append)
qed

lemma take_in_key: "take_in env st b = Inr (ss, st') \<Longrightarrow> lst_key st' = lst_key st"
  by (auto simp: take_in_def rbind_eq_Inr lst_key_def)

lemma ingest_touches:
  assumes svc: "se_service env = store_service (se_lxml env)" and kd: "keyed (sc_store w)"
  shows "touches_only h w (ingest_log env h w)"
proof -
  let ?st = "current_state h w"
  have key: "lst_key ?st = header_key (sc_server_id w) h" by (rule lst_key_current) (rule keyedD [OF kd])
  show ?thesis
  proof (cases "filter (\<lambda>m. m \<noteq> lst_index_mnemonic ?st) (lst_mnemonics ?st) = []")
    case True
    then show ?thesis by (simp add: ingest_log_def do_ingest_log_def Let_def touches_refl)
  next
    case False
    obtain r s' where g: "get_log_data (se_lxml env) (se_service env) (poll_request env h ?st) (sc_remote w) = (r, s')"
      by (cases "get_log_data (se_lxml env) (se_service env) (poll_request env h ?st) (sc_remote w)")
    then have s': "s' = sc_remote w" using get_log_data_keeps svc by auto
    have eq: "w\<lparr>sc_remote := sc_remote w\<rparr> = w" by simp
    have do_eq: "do_ingest_log env h w = (case r of Inl e \<Rightarrow> (Inl e, w)
        | Inr res \<Rightarrow> (case take_in env ?st (ldr_block res) of Inl e \<Rightarrow> (Inl e, w)
            | Inr (ss, st') \<Rightarrow> store_samples env h st' ss (w\<lparr>sc_store := put_log_state st' (sc_store w)\<rparr>)))"
      using False g unfolding do_ingest_log_def Let_def poll_request_def s' by (simp add: eq split: sum.splits)
    show ?thesis
      unfolding ingest_log_def do_eq
      using store_samples_touches [of _ w h env] key
      by (auto simp: touches_refl dest!: take_in_key split: sum.splits)
  qed
qed

end
