(* ===== verification/Run.thy ===== *)
theory Run
  imports Ingest
begin

text \<open>
  Runs of the whole ingestion side: polls of the discovered logs, growth of the logs at the server, and
  the other operations on the shared store, in any order. The invariant ties the durable cache to the
  cursor of every log.
\<close>

section \<open>Growth\<close>

definition log_at :: "MockStore \<Rightarrow> log_header \<Rightarrow> StoredLog \<Rightarrow> bool" where
  "log_at s h lg = (filter (\<lambda>l. sl_uid l = lh_uid h \<and> sl_uid_well l = lh_uid_well h \<and> sl_uid_wellbore l = lh_uid_wellbore h)
     (map snd (ms_logs s)) = [lg])"

text \<open>A growing log keeps its header and its rows, and gets rows beyond all it has.\<close>

definition grown :: "StoredLog \<Rightarrow> StoredLog \<Rightarrow> bool" where
  "grown lg lg' = (sl_index_type lg' = sl_index_type lg \<and> sl_direction lg' = sl_direction lg \<and>
     sl_curves lg' = sl_curves lg \<and> set (sl_rows lg) \<subseteq> set (sl_rows lg') \<and>
     (\<forall>p \<in> set (sl_rows lg'). p \<in> set (sl_rows lg) \<or> (\<forall>q \<in> set (sl_rows lg). newer_than (sl_direction lg) (fst p) (fst q))))"

definition fits :: "'s sched_env \<Rightarrow> StoredLog \<Rightarrow> bool" where
  "fits env lg = (wire_log lg \<and> (se_max_return_nodes env \<le> 0 \<or>
     (2 \<le> se_max_return_nodes env \<and> int (length (sl_rows lg)) \<le> 1000 * (se_max_return_nodes env - 1) + 1)))"

definition store_grows :: "'s sched_env \<Rightarrow> log_header list \<Rightarrow> MockStore \<Rightarrow> MockStore \<Rightarrow> bool" where
  "store_grows env H s s' = (\<forall>h \<in> set H. \<forall>lg. log_at s h lg \<longrightarrow> (\<exists>lg'. log_at s' h lg' \<and> grown lg lg' \<and> fits env lg'))"

section \<open>Steps\<close>

text \<open>\<open>H\<close> are the headers of the logs that can be followed; any other log may be polled too, with any outcome.\<close>

inductive sched_step :: "MockStore sched_env \<Rightarrow> log_header list \<Rightarrow> MockStore IngestionScheduler \<Rightarrow> MockStore IngestionScheduler \<Rightarrow> bool"
  for env H where
  Poll: "h \<in> set H \<Longrightarrow> sched_step env H w (ingest_log env h w)"
| PollOther: "header_key 0 h \<notin> header_key 0 ` set H \<Longrightarrow> sched_step env H w (ingest_log env h w)"
| Grow: "store_grows env H (sc_remote w) s' \<Longrightarrow> sched_step env H w (w\<lparr>sc_remote := s'\<rparr>)"
| Subscribe: "sched_step env H w (w\<lparr>sc_store := snd (subscribe u n (sc_store w))\<rparr>)"
| Unsubscribe: "sched_step env H w (w\<lparr>sc_store := unsubscribe u q (sc_store w)\<rparr>)"
| Receive: "queue_get q (sc_store w) = Some (p, st') \<Longrightarrow> sched_step env H w (w\<lparr>sc_store := st'\<rparr>)"
| Focus: "sched_step env H w (focus u w)"
| Snapshot: "sched_step env H w (snd (snapshot_index_state env w))"

abbreviation sched_run :: "MockStore sched_env \<Rightarrow> log_header list \<Rightarrow> MockStore IngestionScheduler \<Rightarrow> MockStore IngestionScheduler \<Rightarrow> bool" where
  "sched_run env H \<equiv> (sched_step env H)\<^sup>*\<^sup>*"

section \<open>The invariant\<close>

definition cache_rows :: "log_header \<Rightarrow> 's IngestionScheduler \<Rightarrow> CurveSampleRow list" where
  "cache_rows h w = filter (\<lambda>r. cr_server_id r = sc_server_id w \<and> cr_well_uid r = lh_uid_well h \<and>
     cr_wellbore_uid r = lh_uid_wellbore h \<and> cr_log_uid r = lh_uid h) (sc_sample_rows w)"

definition cursor_rows :: "StoredLog \<Rightarrow> pyval option \<Rightarrow> store_row set" where
  "cursor_rows lg c = {p \<in> set (sl_rows lg). \<not> beyond_cursor (sl_direction lg) c (fst p)}"

text \<open>The cache holds the samples of the rows \<open>D\<close> of the log, in the order they were delivered.\<close>

definition cached :: "log_header \<Rightarrow> 's IngestionScheduler \<Rightarrow> StoredLog \<Rightarrow> store_row list \<Rightarrow> bool" where
  "cached h w lg D = (cache_rows h w = map (sample_row (sc_server_id w) h (is_time (sl_index_type lg))) (log_samples lg D) \<and>
     distinct (map fst D) \<and> set D = cursor_rows lg (lst_last_index (current_state h w)))"

definition sched_inv :: "MockStore sched_env \<Rightarrow> log_header list \<Rightarrow> MockStore IngestionScheduler \<Rightarrow> bool" where
  "sched_inv env H w = (ring_ok (sc_store w) \<and> keyed (sc_store w) \<and>
     (\<forall>h \<in> set H. \<exists>lg D. log_at (sc_remote w) h lg \<and> pollable env (sc_remote w) h (current_state h w) lg \<and> cached h w lg D))"

definition service_ok :: "MockStore sched_env \<Rightarrow> bool" where
  "service_ok env = (xml_codec (se_lxml env) \<and> se_service env = store_service (se_lxml env) \<and> (\<forall>s. se_db_up env s))"

text \<open>Headers of different logs have different identities.\<close>

definition identities :: "log_header list \<Rightarrow> bool" where
  "identities H = (\<forall>h \<in> set H. \<forall>h' \<in> set H. header_key 0 h = header_key 0 h' \<longrightarrow> h = h')"

lemma log_samples_append: "log_samples lg (D @ D') = log_samples lg D @ log_samples lg D'"
  by (simp add: log_samples_def spec_samples_def log_block_def)

lemma log_samples_grown: "grown lg lg' \<Longrightarrow> log_samples lg' = log_samples lg"
  by (rule ext) (simp add: grown_def log_samples_def spec_samples_def log_block_def sl_mnemonics_def sl_units_def)

lemma pollable_log_at: "pollable env s h st lg \<Longrightarrow> log_at s h lg"
  by (simp add: pollable_def addresses_def log_at_def)

lemma log_at_unique: "log_at s h lg \<Longrightarrow> log_at s h lg' \<Longrightarrow> lg' = lg"
  by (simp add: log_at_def)

lemma pollable_grown:
  assumes "pollable env s h st lg" "log_at s' h lg'" "grown lg lg'" "fits env lg'"
  shows "pollable env s' h st lg'"
  using assms by (auto simp: pollable_def addresses_def log_at_def grown_def fits_def split: option.splits)

lemma cursor_rows_grown:
  assumes "grown lg lg'" "case c of None \<Rightarrow> True | Some v \<Rightarrow> v \<in> fst ` set (sl_rows lg)"
  shows "cursor_rows lg' c = cursor_rows lg c"
  using assms by (fastforce simp: cursor_rows_def grown_def beyond_cursor_def split: option.splits)

lemma pollable_polled:
  assumes "pollable env s h st lg"
  shows "pollable env s h (polled_state st lg) lg"
proof -
  have rq: "request_ok (poll_request env h (polled_state st lg)) = request_ok (poll_request env h st)"
    by (simp add: request_ok_def poll_request_def ingest_request_def polled_state_def)
  have "case log_newest lg of None \<Rightarrow> True | Some c \<Rightarrow> c \<in> fst ` set (sl_rows lg)"
    by (auto simp: log_newest_def growth_end_in)
  with assms rq show ?thesis
    unfolding pollable_def addresses_def by (simp add: polled_state_def)
qed

text \<open>A poll delivers the rows beyond the cursor; with those before it they are all rows up to the newest.\<close>

lemma polled_rows:
  assumes dist: "distinct (map fst (sl_rows lg))" and D: "distinct (map fst D)" "set D = cursor_rows lg c"
  shows "distinct (map fst (D @ new_rows lg c))" "set (D @ new_rows lg c) = cursor_rows lg (log_newest lg)"
proof -
  let ?d = "sl_direction lg"
  have N: "set (new_rows lg c) = {p \<in> set (sl_rows lg). beyond_cursor ?d c (fst p)}" by (auto simp: new_rows_def)
  have "distinct (map fst (sort_key fst (sl_rows lg)))" using dist by (metis distinct_map distinct_sort inj_on_def set_sort)
  then have "distinct (map fst (new_rows lg c))" unfolding new_rows_def by (simp add: distinct_map_filter)
  moreover have "fst ` set D \<inter> fst ` set (new_rows lg c) = {}"
    unfolding D(2) N cursor_rows_def by auto
  ultimately show "distinct (map fst (D @ new_rows lg c))" using D(1) by simp
  have "\<not> beyond_cursor ?d (log_newest lg) (fst p)" if "p \<in> set (sl_rows lg)" for p
  proof -
    from that have "sl_rows lg \<noteq> []" by auto
    then show ?thesis using that growth_end_newest [of "fst ` set (sl_rows lg)" "fst p" ?d]
      by (simp add: log_newest_def beyond_cursor_def)
  qed
  then have "cursor_rows lg (log_newest lg) = set (sl_rows lg)" by (auto simp: cursor_rows_def)
  then show "set (D @ new_rows lg c) = cursor_rows lg (log_newest lg)"
    using D(2) N by (auto simp: cursor_rows_def)
qed

lemma current_state_cong:
  "sc_server_id w' = sc_server_id w \<Longrightarrow> get_log_state (header_key (sc_server_id w) h) (sc_store w') = get_log_state (header_key (sc_server_id w) h) (sc_store w)
    \<Longrightarrow> current_state h w' = current_state h w"
  by (simp add: current_state_def split: option.splits)

lemma cached_cong:
  "sc_server_id w' = sc_server_id w \<Longrightarrow> cache_rows h w' = cache_rows h w \<Longrightarrow> current_state h w' = current_state h w
    \<Longrightarrow> cached h w' = cached h w"
  by (intro ext) (simp add: cached_def)

lemma current_state_remote [simp]: "current_state h (w\<lparr>sc_remote := s'\<rparr>) = current_state h w"
  by (rule current_state_cong) simp_all

lemma grow_inv:
  assumes inv: "sched_inv env H w" and g: "store_grows env H (sc_remote w) s'"
  shows "sched_inv env H (w\<lparr>sc_remote := s'\<rparr>)"
proof -
  have "\<exists>lg D. log_at s' h lg \<and> pollable env s' h (current_state h w) lg \<and> cached h (w\<lparr>sc_remote := s'\<rparr>) lg D"
    if h: "h \<in> set H" for h
  proof -
    from inv h obtain lg D where l: "log_at (sc_remote w) h lg"
      and p: "pollable env (sc_remote w) h (current_state h w) lg" and c: "cached h w lg D"
      by (auto simp: sched_inv_def)
    from g h l obtain lg' where g': "log_at s' h lg'" "grown lg lg'" "fits env lg'" by (auto simp: store_grows_def)
    have "cursor_rows lg' (lst_last_index (current_state h w)) = cursor_rows lg (lst_last_index (current_state h w))"
      using cursor_rows_grown [OF g'(2)] p by (simp add: pollable_def)
    then have "cached h (w\<lparr>sc_remote := s'\<rparr>) lg' D"
      using c g'(2) log_samples_grown [OF g'(2)]
      by (simp add: cached_def cache_rows_def current_state_remote) (simp add: grown_def)
    with g'(1) pollable_grown [OF p g'] show ?thesis by blast
  qed
  with inv show ?thesis by (auto simp: sched_inv_def)
qed

lemma cache_rows_polled:
  assumes "polled env h st ss w w'"
  shows "cache_rows h' w' = cache_rows h' w @
    (if header_key 0 h' = header_key 0 h then map (sample_row (sc_server_id w) h (is_time (lst_index_type st))) ss else [])"
proof -
  have f: "filter (\<lambda>r. cr_server_id r = sid \<and> cr_well_uid r = lh_uid_well h' \<and> cr_wellbore_uid r = lh_uid_wellbore h' \<and> cr_log_uid r = lh_uid h')
      (map (sample_row sid h t) xs) = (if header_key 0 h' = header_key 0 h then map (sample_row sid h t) xs else [])" for sid t xs
    by (induction xs) (auto simp: sample_row_def header_key_def)
  show ?thesis using assms by (simp add: cache_rows_def polled_def f)
qed

lemma polled_states:
  assumes "polled env h st ss w w'"
  shows "get_log_state k (sc_store w') = (if k = lst_key st then Some st else get_log_state k (sc_store w))"
proof -
  from assms have s: "get_log_state (lst_key st) (sc_store w') = Some st"
    and o: "\<forall>k. k \<noteq> lst_key st \<longrightarrow> get_log_state k (sc_store w') = get_log_state k (sc_store w)"
    unfolding polled_def by blast+
  show ?thesis
  proof (cases "k = lst_key st")
    case False
    then show ?thesis using o [rule_format, of k] by simp
  qed (simp add: s)
qed

lemma poll_inv:
  assumes svc: "service_ok env" and ids: "identities H" and inv: "sched_inv env H w" and h: "h \<in> set H"
  shows "sched_inv env H (ingest_log env h w)"
proof -
  let ?st = "current_state h w"
  from inv h obtain lg D where l: "log_at (sc_remote w) h lg" and p: "pollable env (sc_remote w) h ?st lg" and c: "cached h w lg D"
    by (auto simp: sched_inv_def)
  let ?st' = "polled_state ?st lg" and ?ss = "log_samples lg (new_rows lg (lst_last_index ?st))"
  obtain w' where w': "do_ingest_log env h w = (Inr (), w')" and P: "polled env h ?st' ?ss w w'"
    using ingest_polled [OF _ _ p] svc by (auto simp: service_ok_def)
  have kd: "keyed (sc_store w)" using inv by (simp add: sched_inv_def)
  have "lst_key ?st = header_key (sc_server_id w) h"
    by (rule lst_key_current) (rule keyedD [OF kd])
  then have key: "lst_key ?st' = header_key (sc_server_id w) h" by (simp add: lst_key_def polled_state_def)
  have k': "keyed (sc_store w')"
    unfolding keyed_def
  proof (intro allI impI)
    fix k st
    assume "get_log_state k (sc_store w') = Some st"
    then have "(if k = lst_key ?st' then Some ?st' else get_log_state k (sc_store w)) = Some st"
      by (simp only: polled_states [OF P])
    then show "lst_key st = k" by (cases "k = lst_key ?st'") (simp_all add: keyedD [OF kd])
  qed
  have sid: "sc_server_id w' = sc_server_id w" using P by (simp add: polled_def)
  have st': "current_state h w' = ?st'" by (simp add: current_state_def [of h w'] sid polled_states [OF P] key)
  have ty: "lst_index_type ?st = sl_index_type lg" using p by (simp add: pollable_def addresses_def)
  have "\<exists>lg D. log_at (sc_remote w') h' lg \<and> pollable env (sc_remote w') h' (current_state h' w') lg \<and> cached h' w' lg D"
    if h': "h' \<in> set H" for h'
  proof (cases "h' = h")
    case True
    have dist: "distinct (map fst (sl_rows lg))" using p by (simp add: pollable_def wire_log_def)
    have "cache_rows h w' = map (sample_row (sc_server_id w) h (is_time (sl_index_type lg))) (log_samples lg (D @ new_rows lg (lst_last_index ?st)))"
      unfolding cache_rows_polled [OF P] log_samples_append
      using c ty by (simp add: cached_def polled_state_def)
    with polled_rows [OF dist, of D] c P st' have "cached h w' lg (D @ new_rows lg (lst_last_index ?st))"
      by (simp add: cached_def polled_def polled_state_def)
    moreover have "pollable env (sc_remote w') h (current_state h w') lg"
      using pollable_polled [OF p] P st' by (simp add: polled_def)
    moreover have "sc_remote w' = sc_remote w" using P by (simp add: polled_def)
    ultimately show ?thesis using True l by auto
  next
    case False
    then have k: "header_key 0 h' \<noteq> header_key 0 h" using ids h h' by (auto simp: identities_def)
    then have "header_key (sc_server_id w) h' \<noteq> lst_key ?st'" unfolding key by (auto simp: header_key_def)
    then have cs: "current_state h' w' = current_state h' w"
      using P by (intro current_state_cong) (simp add: polled_def, simp add: polled_states [OF P])
    have "cached h' w' = cached h' w"
      using P k cs by (intro cached_cong) (simp_all add: polled_def cache_rows_polled [OF P])
    moreover have "sc_remote w' = sc_remote w" using P by (simp add: polled_def)
    ultimately show ?thesis using inv h' cs by (auto simp: sched_inv_def)
  qed
  moreover have "ring_ok (sc_store w')" using P inv by (simp add: polled_def sched_inv_def)
  ultimately show ?thesis using k' by (simp add: sched_inv_def ingest_log_def w')
qed

text \<open>The other steps touch neither cursors nor the cache.\<close>

lemma frame_inv:
  assumes "sched_inv env H w" "ring_ok (sc_store w')" "rb_log_states (sc_store w') = rb_log_states (sc_store w)"
    "sc_server_id w' = sc_server_id w" "sc_sample_rows w' = sc_sample_rows w" "sc_remote w' = sc_remote w"
  shows "sched_inv env H w'"
proof -
  have g: "get_log_state k (sc_store w') = get_log_state k (sc_store w)" for k using assms(3) by (simp add: get_log_state_def)
  then have cs: "current_state h w' = current_state h w" for h using assms(4) by (intro current_state_cong) simp_all
  have "cached h w' = cached h w" for h
    using assms(4,5) cs by (intro cached_cong) (simp_all add: cache_rows_def)
  with assms g cs show ?thesis by (simp add: sched_inv_def keyed_def)
qed

lemma snapshot_frame:
  "sc_store (snd (snapshot_index_state env w)) = sc_store w" "sc_server_id (snd (snapshot_index_state env w)) = sc_server_id w"
  "sc_sample_rows (snd (snapshot_index_state env w)) = sc_sample_rows w" "sc_remote (snd (snapshot_index_state env w)) = sc_remote w"
  "sc_headers (snd (snapshot_index_state env w)) = sc_headers w"
  by (simp_all add: snapshot_index_state_def Let_def split: prod.splits)

lemma subs_states:
  "rb_log_states (snd (subscribe u n r)) = rb_log_states r" "rb_log_states (unsubscribe u q r) = rb_log_states r"
  "queue_get q r = Some (p, r') \<Longrightarrow> rb_log_states r' = rb_log_states r"
  by (auto simp: subscribe_def unsubscribe_def queue_get_def Let_def split: option.splits list.splits)

lemma other_inv:
  assumes svc: "service_ok env" and inv: "sched_inv env H w" and h: "header_key 0 h \<notin> header_key 0 ` set H"
  shows "sched_inv env H (ingest_log env h w)"
proof -
  let ?w = "ingest_log env h w"
  have t: "touches_only h w ?w" using svc inv by (intro ingest_touches) (simp_all add: service_ok_def sched_inv_def)
  have f: "sc_server_id ?w = sc_server_id w" "sc_remote ?w = sc_remote w" using t by (simp_all add: touches_only_def)
  have "current_state h' ?w = current_state h' w \<and> cached h' ?w = cached h' w" if "h' \<in> set H" for h'
  proof -
    from h that have k: "header_key 0 h' \<noteq> header_key 0 h" by (metis imageI)
    then have "header_key (sc_server_id w) h' \<noteq> header_key (sc_server_id w) h" by (auto simp: header_key_def)
    then have c: "current_state h' ?w = current_state h' w" using f touches_states [OF t] by (intro current_state_cong) blast+
    obtain ss b where rows: "sc_sample_rows ?w = sc_sample_rows w @ map (sample_row (sc_server_id w) h b) ss"
      using t unfolding touches_only_def by blast
    have "cache_rows h' ?w = cache_rows h' w"
      using k by (simp add: cache_rows_def f rows filter_map comp_def) (auto simp: sample_row_def header_key_def filter_empty_conv)
    with c f show ?thesis using cached_cong by blast
  qed
  moreover have "ring_ok (sc_store ?w)" "keyed (sc_store ?w)" using t inv by (simp_all add: touches_only_def sched_inv_def)
  ultimately show ?thesis using inv f by (simp add: sched_inv_def)
qed

lemma step_inv:
  assumes "sched_step env H w w'" "service_ok env" "identities H" "sched_inv env H w"
  shows "sched_inv env H w'"
  using assms
proof (induction rule: sched_step.induct)
  case (Poll h w)
  then show ?case by (intro poll_inv)
next
  case (PollOther h w)
  then show ?case by (intro other_inv)
next
  case (Grow w s')
  then show ?case by (intro grow_inv)
next
  case (Subscribe w u n)
  then show ?case
    by (intro frame_inv [OF Subscribe(3)]) (simp_all add: subs_states ring_ok_subscribe sched_inv_def)
next
  case (Unsubscribe w u q)
  then show ?case
    by (intro frame_inv [OF Unsubscribe(3)]) (simp_all add: subs_states ring_ok_unsubscribe sched_inv_def)
next
  case (Receive q w p st')
  have "ring_ok st'" using Receive ring_ok_queue_get by (auto simp: sched_inv_def)
  then show ?case using subs_states(3) [OF Receive(1)] by (intro frame_inv [OF Receive(4)]) simp_all
next
  case (Focus u w)
  then show ?case by (intro frame_inv [OF Focus(3)]) (simp_all add: focus_def sched_inv_def)
next
  case (Snapshot w)
  then show ?case by (intro frame_inv [OF Snapshot(3)]) (simp_all add: snapshot_frame sched_inv_def)
qed

lemma run_inv:
  "sched_run env H w w' \<Longrightarrow> service_ok env \<Longrightarrow> identities H \<Longrightarrow> sched_inv env H w \<Longrightarrow> sched_inv env H w'"
  by (induction rule: rtranclp_induct) (auto intro: step_inv)

section \<open>The state discovery leaves\<close>

text \<open>A fresh scheduler that has been told the headers \<open>H\<close>.\<close>

definition discovered :: "int \<Rightarrow> nat \<Rightarrow> 's \<Rightarrow> log_header list \<Rightarrow> 's IngestionScheduler" where
  "discovered sid n s H = (fst (fold note_header H (new_scheduler sid (new_ring_store n) s, False)))\<lparr>sc_discovered := True\<rparr>"

definition noted :: "'s IngestionScheduler \<Rightarrow> 's IngestionScheduler \<Rightarrow> bool" where
  "noted w w' = (sc_server_id w' = sc_server_id w \<and> sc_sample_rows w' = sc_sample_rows w \<and> sc_remote w' = sc_remote w \<and>
     (keyed (sc_store w) \<longrightarrow> keyed (sc_store w')) \<and> (ring_ok (sc_store w) \<longrightarrow> ring_ok (sc_store w')) \<and>
     buffer (sc_store w') = buffer (sc_store w) \<and>
     (\<forall>k st. get_log_state k (sc_store w) = Some st \<longrightarrow> get_log_state k (sc_store w') = Some st))"

lemma noted_refl: "noted w w" and noted_trans: "noted w w' \<Longrightarrow> noted w' w'' \<Longrightarrow> noted w w''"
  by (auto simp: noted_def)

lemma state_from_header_key: "lst_key (state_from_header sid h) = header_key sid h"
  by (simp add: state_from_header_def lst_key_def header_key_def Let_def)

lemma note_header_noted: "noted w (fst (note_header h (w, b)))"
proof (cases "lh_uid h = []")
  case True
  then show ?thesis by (simp add: note_header_def noted_refl)
next
  case False
  have "get_log_state k (put_log_state (state_from_header sid h) r) = Some st"
    if "get_log_state k r = Some st" "get_log_state (header_key sid h) r = None" for k r st sid
    using that by (auto simp: get_put_log_state state_from_header_key)
  with False show ?thesis
    by (simp add: note_header_def noted_def Let_def keyed_put ring_ok_put)
qed

lemma fold_noted:
  assumes "\<And>x w b. noted w (fst (f x (w, b)))"
  shows "noted w (fst (fold f xs (w, b)))"
proof (induction xs arbitrary: w b)
  case (Cons x xs)
  obtain w' b' where e: "f x (w, b) = (w', b')" by (cases "f x (w, b)")
  with assms [of w x b] have "noted w w'" by simp
  moreover have "noted w' (fst (fold f xs (w', b')))" by (rule Cons.IH)
  ultimately show ?case by (simp add: e noted_trans)
qed (simp add: noted_refl)

text \<open>The state of a log is what its header gives, before and after its header is noted.\<close>

lemma note_header_current:
  assumes "header_key 0 h' = header_key 0 h \<longrightarrow> h' = h"
  shows "current_state h (fst (note_header h' (w, b))) = current_state h w"
proof -
  have "header_key (sc_server_id w) h' = header_key (sc_server_id w) h \<longrightarrow> h' = h" using assms by (auto simp: header_key_def)
  then show ?thesis
    by (auto simp: note_header_def current_state_def Let_def get_put_log_state state_from_header_key split: option.splits)
qed

lemma note_headers_current:
  assumes "\<forall>h' \<in> set H. header_key 0 h' = header_key 0 h \<longrightarrow> h' = h"
  shows "current_state h (fst (fold note_header H (w, b))) = current_state h w"
  using assms
proof (induction H arbitrary: w b)
  case (Cons x H)
  obtain w1 b1 where e: "note_header x (w, b) = (w1, b1)" by (cases "note_header x (w, b)")
  with note_header_current [of x h w b] Cons show ?case by simp
qed simp

definition note_topology :: "int \<Rightarrow> log_header \<Rightarrow> (LogKey \<times> log_header) list \<Rightarrow> (LogKey \<times> log_header) list" where
  "note_topology sid h d = (if lh_uid h = [] then d else AList.update (header_key sid h) h d)"

lemma note_headers_topology:
  "sc_headers (fst (fold note_header H (w, b))) = fold (note_topology (sc_server_id w)) H (sc_headers w)"
proof (induction H arbitrary: w b)
  case (Cons h H)
  obtain w1 b1 where e: "note_header h (w, b) = (w1, b1)" by (cases "note_header h (w, b)")
  then have "sc_server_id w1 = sc_server_id w \<and> sc_headers w1 = note_topology (sc_server_id w) h (sc_headers w)"
    by (auto simp: note_header_def Let_def note_topology_def split: if_splits)
  with e Cons.IH [of w1 b1] show ?case by simp
qed simp

lemma set_update:
  "distinct (map fst al) \<Longrightarrow> set (AList.update k v al) = {p \<in> set al. fst p \<noteq> k} \<union> {(k, v)}"
  by (induction al) (auto simp: image_iff)

lemma topology_set:
  assumes "identities H"
  shows "distinct (map fst (fold (note_topology sid) H [])) \<and>
    set (fold (note_topology sid) H []) = (\<lambda>h. (header_key sid h, h)) ` {h \<in> set H. lh_uid h \<noteq> []}"
  using assms
proof (induction H rule: rev_induct)
  case (snoc h H)
  then have "identities H" by (auto simp: identities_def)
  from snoc.IH [OF this] have d: "distinct (map fst (fold (note_topology sid) H []))"
    and s: "set (fold (note_topology sid) H []) = (\<lambda>h. (header_key sid h, h)) ` {h \<in> set H. lh_uid h \<noteq> []}" by simp_all
  have "header_key sid x = header_key sid h \<longrightarrow> x = h" if "x \<in> set H" for x
    using snoc.prems that by (auto simp: identities_def header_key_def)
  then have key: "header_key sid x = header_key sid h \<longleftrightarrow> x = h" if "x \<in> set H" for x using that by blast
  let ?d = "fold (note_topology sid) H []"
  show ?case
  proof (cases "lh_uid h = []")
    case True
    then have "fold (note_topology sid) (H @ [h]) [] = ?d" by (simp add: note_topology_def [of sid h])
    with d s True show ?thesis by auto
  next
    case False
    then have e: "fold (note_topology sid) (H @ [h]) [] = AList.update (header_key sid h) h ?d"
      by (simp add: note_topology_def [of sid h])
    have "{p \<in> set ?d. fst p \<noteq> header_key sid h} = (\<lambda>h. (header_key sid h, h)) ` {x \<in> set H. lh_uid x \<noteq> [] \<and> x \<noteq> h}"
      unfolding s using key by auto
    with d False show ?thesis unfolding e set_update [OF d] by (auto simp: distinct_update)
  qed
qed simp

lemma discovered_facts:
  assumes "identities H" "\<forall>h \<in> set H. lh_uid h \<noteq> []"
  shows "noted (new_scheduler sid (new_ring_store n) s) (discovered sid n s H)"
    and "h \<in> set H \<Longrightarrow> current_state h (discovered sid n s H) = state_from_header sid h"
    and "set (map snd (sc_headers (discovered sid n s H))) = set H" "sc_discovered (discovered sid n s H)"
proof -
  let ?init = "new_scheduler sid (new_ring_store n) s"
  let ?w = "fst (fold note_header H (?init, False))"
  have n: "noted ?init ?w" by (rule fold_noted [where f = note_header]) (rule note_header_noted)
  then show "noted ?init (discovered sid n s H)" by (simp add: noted_def discovered_def)
  show "current_state h (discovered sid n s H) = state_from_header sid h" if h: "h \<in> set H"
  proof -
    have "current_state h (discovered sid n s H) = current_state h ?w"
      by (rule current_state_cong) (simp_all add: discovered_def)
    also have "\<dots> = current_state h ?init"
      by (rule note_headers_current) (use assms(1) h in \<open>simp add: identities_def\<close>)
    finally show ?thesis by (simp add: current_state_def new_scheduler_def new_ring_store_def get_log_state_def)
  qed
  have "set (sc_headers ?w) = (\<lambda>h. (header_key sid h, h)) ` set H"
  proof -
    have "{h \<in> set H. lh_uid h \<noteq> []} = set H" using assms(2) by auto
    then show ?thesis using topology_set [OF assms(1), of sid] by (simp add: note_headers_topology new_scheduler_def)
  qed
  then show "set (map snd (sc_headers (discovered sid n s H))) = set H"
    by (simp add: discovered_def image_image)
  show "sc_discovered (discovered sid n s H)" by (simp add: discovered_def)
qed

text \<open>The logs in \<open>H\<close> can be followed from their headers.\<close>

definition can_follow :: "MockStore sched_env \<Rightarrow> int \<Rightarrow> MockStore \<Rightarrow> log_header list \<Rightarrow> bool" where
  "can_follow env sid s H = (identities H \<and> (\<forall>h \<in> set H. lh_uid h \<noteq> [] \<and> (\<exists>lg. pollable env s h (state_from_header sid h) lg)))"

lemma discovered_inv:
  assumes "can_follow env sid s H"
  shows "sched_inv env H (discovered sid n s H)"
proof -
  let ?w = "discovered sid n s H"
  have ids: "identities H" "\<forall>h \<in> set H. lh_uid h \<noteq> []" using assms by (auto simp: can_follow_def)
  note f = discovered_facts [OF ids, where sid = sid and n = n and s = s]
  have r: "sc_remote ?w = s" "sc_sample_rows ?w = []" "sc_server_id ?w = sid" "ring_ok (sc_store ?w)" "keyed (sc_store ?w)"
    using f(1) ring_ok_new by (simp_all add: noted_def new_scheduler_def keyed_def get_log_state_def new_ring_store_def)
  have "\<exists>lg D. log_at s h lg \<and> pollable env s h (current_state h ?w) lg \<and> cached h ?w lg D" if h: "h \<in> set H" for h
  proof -
    from assms h obtain lg where p: "pollable env s h (state_from_header sid h) lg" by (auto simp: can_follow_def)
    have "lst_last_index (state_from_header sid h) = None" by (simp add: state_from_header_def Let_def)
    then have "cached h ?w lg []"
      by (simp add: cached_def cache_rows_def r f(2) [OF h] cursor_rows_def beyond_cursor_def log_samples_def spec_samples_def log_block_def)
    with p pollable_log_at [OF p] show ?thesis by (auto simp: f(2) [OF h])
  qed
  with r show ?thesis by (simp add: sched_inv_def)
qed

lemma run_discovered:
  assumes "service_ok env" "can_follow env sid s H" "sched_run env H (discovered sid n s H) w"
  shows "sched_inv env H w"
  using run_inv [OF assms(3,1)] assms(2) discovered_inv [OF assms(2)] by (auto simp: can_follow_def)

text \<open>What no step changes.\<close>

lemma ingest_keeps:
  assumes "service_ok env" "sched_inv env H w"
  shows "sc_server_id (ingest_log env h w) = sc_server_id w" "sc_headers (ingest_log env h w) = sc_headers w"
    "sc_discovered (ingest_log env h w) = sc_discovered w" "sc_remote (ingest_log env h w) = sc_remote w"
  using ingest_touches [of env w h] assms by (simp_all add: touches_only_def service_ok_def sched_inv_def)

lemma step_keeps:
  assumes "sched_step env H w w'" "service_ok env" "sched_inv env H w"
  shows "sc_server_id w' = sc_server_id w \<and> sc_headers w' = sc_headers w \<and> sc_discovered w' = sc_discovered w"
  using assms
  by (induction rule: sched_step.induct)
     (simp_all add: ingest_keeps focus_def snapshot_frame snapshot_index_state_def Let_def split: prod.splits)

lemma run_keeps:
  assumes "sched_run env H w w'" "service_ok env" "identities H" "sched_inv env H w"
  shows "sc_server_id w' = sc_server_id w \<and> sc_headers w' = sc_headers w \<and> sc_discovered w' = sc_discovered w"
  using assms
proof (induction rule: rtranclp_induct)
  case (step w' w'')
  then show ?case using step_keeps [OF step(2)] run_inv [OF step(1)] by simp
qed simp

section \<open>Cursors\<close>

definition cursor_le :: "Direction \<Rightarrow> pyval option \<Rightarrow> pyval option \<Rightarrow> bool" where
  "cursor_le d c c' = (case c of None \<Rightarrow> True | Some v \<Rightarrow> (case c' of None \<Rightarrow> False | Some v' \<Rightarrow> \<not> newer_than d v v'))"

lemma cursor_le_refl: "cursor_le d c c"
  by (simp add: cursor_le_def split: option.splits)

lemma cursor_le_trans: "cursor_le d a b \<Longrightarrow> cursor_le d b c \<Longrightarrow> cursor_le d a c"
  by (auto simp: cursor_le_def newer_than_def split: option.splits if_splits)

lemma newest_le: "case c of None \<Rightarrow> True | Some v \<Rightarrow> v \<in> fst ` set (sl_rows lg) \<Longrightarrow> cursor_le (sl_direction lg) c (log_newest lg)"
  by (auto simp: cursor_le_def log_newest_def growth_end_newest split: option.splits)

text \<open>What a poll of a followed log does to the states.\<close>

lemma poll_state:
  assumes "service_ok env" "sched_inv env H w" "h \<in> set H"
  obtains lg where "log_at (sc_remote w) h lg" "pollable env (sc_remote w) h (current_state h w) lg"
    "current_state h (ingest_log env h w) = polled_state (current_state h w) lg"
proof -
  from assms obtain lg where l: "log_at (sc_remote w) h lg" and p: "pollable env (sc_remote w) h (current_state h w) lg"
    by (auto simp: sched_inv_def)
  obtain w' where w': "do_ingest_log env h w = (Inr (), w')"
    and P: "polled env h (polled_state (current_state h w) lg) (log_samples lg (new_rows lg (lst_last_index (current_state h w)))) w w'"
    using ingest_polled [OF _ _ p] assms(1) by (auto simp: service_ok_def)
  have kd: "keyed (sc_store w)" using assms(2) by (simp add: sched_inv_def)
  have "lst_key (current_state h w) = header_key (sc_server_id w) h" by (rule lst_key_current) (rule keyedD [OF kd])
  then have key: "lst_key (polled_state (current_state h w) lg) = header_key (sc_server_id w) h" by (simp add: lst_key_def polled_state_def)
  have sid: "sc_server_id w' = sc_server_id w" using P by (simp add: polled_def)
  have "current_state h w' = polled_state (current_state h w) lg"
    by (simp add: current_state_def [of h w'] sid polled_states [OF P] key)
  with l p w' show ?thesis by (intro that) (simp_all add: ingest_log_def)
qed

lemma other_state:
  assumes "service_ok env" "sched_inv env H w" "header_key 0 h' \<noteq> header_key 0 h"
  shows "current_state h' (ingest_log env h w) = current_state h' w"
proof (rule current_state_cong)
  have t: "touches_only h w (ingest_log env h w)" using assms by (intro ingest_touches) (simp_all add: service_ok_def sched_inv_def)
  from assms(3) have "header_key (sc_server_id w) h' \<noteq> header_key (sc_server_id w) h" by (auto simp: header_key_def)
  then show "get_log_state (header_key (sc_server_id w) h') (sc_store (ingest_log env h w)) = get_log_state (header_key (sc_server_id w) h') (sc_store w)"
    by (rule touches_states [OF t])
  show "sc_server_id (ingest_log env h w) = sc_server_id w" using assms(1,2) by (rule ingest_keeps)
qed

lemma frame_state:
  "rb_log_states (sc_store w') = rb_log_states (sc_store w) \<Longrightarrow> sc_server_id w' = sc_server_id w \<Longrightarrow> current_state h w' = current_state h w"
  by (rule current_state_cong) (simp_all add: get_log_state_def)

lemma step_cursor:
  assumes "sched_step env H w w'" "service_ok env" "identities H" "sched_inv env H w" "h \<in> set H"
  shows "lst_direction (current_state h w') = lst_direction (current_state h w) \<and>
    cursor_le (lst_direction (current_state h w)) (lst_last_index (current_state h w)) (lst_last_index (current_state h w'))"
proof -
  have same: ?thesis if "current_state h w' = current_state h w" using that by (simp add: cursor_le_refl)
  show ?thesis
    using assms(1)
  proof cases
    case (Poll h')
    show ?thesis
    proof (cases "h' = h")
      case True
      obtain lg where p: "pollable env (sc_remote w) h (current_state h w) lg"
        and st: "current_state h (ingest_log env h w) = polled_state (current_state h w) lg"
        using poll_state [OF assms(2,4,5)] by metis
      have "sl_direction lg = lst_direction (current_state h w)" using p by (simp add: pollable_def addresses_def)
      then have "cursor_le (lst_direction (current_state h w)) (lst_last_index (current_state h w)) (log_newest lg)"
        using newest_le [where c = "lst_last_index (current_state h w)" and lg = lg] p by (simp add: pollable_def)
      then show ?thesis using Poll True st by (simp add: polled_state_def)
    next
      case False
      then have "header_key 0 h \<noteq> header_key 0 h'" using assms(3,5) Poll by (auto simp: identities_def)
      then show ?thesis using other_state [OF assms(2,4)] Poll same by simp
    qed
  next
    case (PollOther h')
    then have "header_key 0 h \<noteq> header_key 0 h'" using assms(5) by (metis imageI)
    then show ?thesis using other_state [OF assms(2,4)] PollOther same by simp
  next
    case (Receive q p st')
    then show ?thesis by (intro same frame_state) (simp_all add: subs_states(3))
  next
    case (Grow s')
    then show ?thesis by (intro same) simp
  next
    case (Subscribe u n)
    then show ?thesis by (intro same frame_state) (simp_all add: subs_states)
  next
    case (Unsubscribe u q)
    then show ?thesis by (intro same frame_state) (simp_all add: subs_states)
  next
    case (Focus u)
    then show ?thesis by (intro same frame_state) (simp_all add: focus_def)
  next
    case Snapshot
    then show ?thesis by (intro same frame_state) (simp_all add: snapshot_frame)
  qed
qed

lemma run_cursor:
  assumes "sched_run env H w w'" "service_ok env" "identities H" "sched_inv env H w" "h \<in> set H"
  shows "lst_direction (current_state h w') = lst_direction (current_state h w) \<and>
    cursor_le (lst_direction (current_state h w)) (lst_last_index (current_state h w)) (lst_last_index (current_state h w'))"
  using assms
proof (induction rule: rtranclp_induct)
  case base
  show ?case by (simp add: cursor_le_refl)
next
  case (step w' w'')
  from step_cursor [OF step(2,4,5) run_inv [OF step(1,4,5,6)] step(7)] step.IH [OF step(4-7)]
  show ?case using cursor_le_trans by metis
qed

section \<open>The tick\<close>

text \<open>The order is stable: the viewed logs first, each group in discovery order.\<close>

lemma zero_one_split:
  "sorted (map f xs) \<Longrightarrow> \<forall>x \<in> set xs. f x = 0 \<or> f x = (1 :: nat) \<Longrightarrow> xs = filter (\<lambda>x. f x = 0) xs @ filter (\<lambda>x. f x = 1) xs"
proof (induction xs)
  case (Cons x xs)
  then show ?case
  proof (cases "f x = 0")
    case False
    have "\<forall>y \<in> set xs. f y = 1"
    proof
      fix y
      assume "y \<in> set xs"
      with Cons.prems have "f x \<le> f y" "f y = 0 \<or> f y = 1" by auto
      with False show "f y = 1" by auto
    qed
    then show ?thesis using False Cons.prems by (simp add: filter_empty_conv)
  qed simp
qed simp

lemma tick_order_split:
  "tick_order w = filter (is_viewed w) (map snd (sc_headers w)) @ filter (\<lambda>h. \<not> is_viewed w h) (map snd (sc_headers w))"
proof -
  let ?f = "\<lambda>h. if is_viewed w h then 0 else 1 :: nat"
  have st: "filter (\<lambda>h. ?f h = k) (tick_order w) = filter (\<lambda>h. ?f h = k) (map snd (sc_headers w))" for k
    unfolding tick_order_def by (rule sort_key_stable)
  have v: "(\<lambda>h. ?f h = 0) = is_viewed w" "(\<lambda>h. ?f h = 1) = (\<lambda>h. \<not> is_viewed w h)" by (rule ext, simp)+
  have "tick_order w = filter (\<lambda>h. ?f h = 0) (tick_order w) @ filter (\<lambda>h. ?f h = 1) (tick_order w)"
    by (rule zero_one_split) (simp_all add: tick_order_def)
  then show ?thesis unfolding st unfolding v .
qed

definition caught_up :: "MockStore sched_env \<Rightarrow> log_header \<Rightarrow> MockStore IngestionScheduler \<Rightarrow> bool" where
  "caught_up env h w = (\<exists>lg. log_at (sc_remote w) h lg \<and> lst_last_index (current_state h w) = log_newest lg)"

lemma fold_polls:
  assumes svc: "service_ok env" and ids: "identities H" and inv: "sched_inv env H w"
    and hs: "\<forall>h \<in> set hs. h \<in> set H \<or> header_key 0 h \<notin> header_key 0 ` set H"
  shows "sched_inv env H (fold (ingest_log env) hs w) \<and> sc_remote (fold (ingest_log env) hs w) = sc_remote w \<and>
    sc_server_id (fold (ingest_log env) hs w) = sc_server_id w \<and>
    (\<forall>h \<in> set hs \<inter> set H. caught_up env h (fold (ingest_log env) hs w))"
  using hs
proof (induction hs rule: rev_induct)
  case (snoc x hs)
  let ?w = "fold (ingest_log env) hs w"
  have i: "sched_inv env H ?w" "sc_remote ?w = sc_remote w" "sc_server_id ?w = sc_server_id w"
    "\<forall>h \<in> set hs \<inter> set H. caught_up env h ?w" using snoc by simp_all
  have rem: "sc_remote (ingest_log env x ?w) = sc_remote ?w" "sc_server_id (ingest_log env x ?w) = sc_server_id ?w"
    using ingest_keeps [OF svc i(1)] by simp_all
  have inv': "sched_inv env H (ingest_log env x ?w)"
    using snoc.prems poll_inv [OF svc ids i(1)] other_inv [OF svc i(1)] by auto
  have "caught_up env h (ingest_log env x ?w)" if h: "h \<in> set (hs @ [x])" "h \<in> set H" for h
  proof (cases "h = x")
    case True
    with h(2) have "x \<in> set H" by simp
    from poll_state [OF svc i(1) this] obtain lg where "log_at (sc_remote ?w) x lg"
      "current_state x (ingest_log env x ?w) = polled_state (current_state x ?w) lg" by metis
    then show ?thesis unfolding caught_up_def rem True by (auto simp: polled_state_def)
  next
    case False
    then have "caught_up env h ?w" using h i(4) by auto
    moreover have "header_key 0 h \<noteq> header_key 0 x"
    proof (cases "x \<in> set H")
      case True
      then show ?thesis using ids h(2) False unfolding identities_def by blast
    next
      case xH: False
      then have "header_key 0 x \<notin> header_key 0 ` set H" using snoc.prems by simp
      then show ?thesis using h(2) by (metis imageI)
    qed
    ultimately show ?thesis unfolding caught_up_def rem using other_state [OF svc i(1)] by simp
  qed
  then show ?case using inv' rem i by simp
qed (use inv in simp)

lemma tick_polls:
  assumes "sc_discovered w" "sc_headers w \<noteq> []"
  shows "\<exists>w1. (w1 = w\<lparr>sc_tick_count := sc_tick_count w + 1\<rparr>) \<and>
    (let w3 = fold (ingest_log env) (tick_order w1) w1
     in tick env w = (if sc_tick_count w3 mod SNAPSHOT_EVERY_TICKS = 0 then snd (snapshot_index_state env w3) else w3))"
  using assms by (simp add: tick_def Let_def)

lemma cursor_rows_newest: "cursor_rows lg (log_newest lg) = set (sl_rows lg)"
proof -
  have "\<not> beyond_cursor (sl_direction lg) (log_newest lg) (fst p)" if "p \<in> set (sl_rows lg)" for p
  proof -
    from that have "sl_rows lg \<noteq> []" by auto
    then show ?thesis using that growth_end_newest [of "fst ` set (sl_rows lg)" "fst p"]
      by (simp add: log_newest_def beyond_cursor_def)
  qed
  then show ?thesis by (auto simp: cursor_rows_def)
qed

lemma tick_catches:
  assumes svc: "service_ok env" and ids: "identities H" and inv: "sched_inv env H w" and d: "sc_discovered w"
    and hs: "set H \<subseteq> set (map snd (sc_headers w))" "\<forall>h \<in> set (map snd (sc_headers w)). h \<in> set H \<or> header_key 0 h \<notin> header_key 0 ` set H"
    and h: "h \<in> set H"
  shows "\<exists>lg D. log_at (sc_remote w) h lg \<and>
     cache_rows h (tick env w) = map (sample_row (sc_server_id w) h (is_time (sl_index_type lg))) (log_samples lg D) \<and>
     distinct (map fst D) \<and> set D = set (sl_rows lg)"
proof -
  define w1 where "w1 = w\<lparr>sc_tick_count := sc_tick_count w + 1\<rparr>"
  define w3 where "w3 = fold (ingest_log env) (tick_order w1) w1"
  have i1: "sched_inv env H w1" unfolding w1_def by (rule frame_inv [OF inv]) (use inv in \<open>simp_all add: sched_inv_def\<close>)
  have o: "set (tick_order w1) = set (map snd (sc_headers w))" by (simp add: tick_order_def w1_def)
  have f: "sched_inv env H w3" "sc_remote w3 = sc_remote w" "sc_server_id w3 = sc_server_id w" "\<forall>h \<in> set (tick_order w1) \<inter> set H. caught_up env h w3"
    using fold_polls [OF svc ids i1, of "tick_order w1"] hs(2) o by (simp_all add: w3_def) (simp_all add: w1_def)
  have ne: "sc_headers w \<noteq> []" using hs(1) h by auto
  have t: "tick env w = (if sc_tick_count w3 mod SNAPSHOT_EVERY_TICKS = 0 then snd (snapshot_index_state env w3) else w3)"
    using tick_polls [OF d ne, of env] unfolding Let_def w3_def w1_def by auto
  have cr: "cache_rows h (tick env w) = cache_rows h w3" unfolding t by (simp add: cache_rows_def snapshot_frame)
  from h hs(1) o have "caught_up env h w3" using f(4) by auto
  then obtain lg where lg: "log_at (sc_remote w3) h lg" "lst_last_index (current_state h w3) = log_newest lg"
    by (auto simp: caught_up_def)
  from f(1) h obtain lg' D where "log_at (sc_remote w3) h lg'" "cached h w3 lg' D" by (auto simp: sched_inv_def)
  then have "cached h w3 lg D" using log_at_unique [OF lg(1)] by simp
  then show ?thesis using lg f(2,3) cr by (auto simp: cached_def cursor_rows_newest)
qed

section \<open>An example\<close>

definition ex_header :: log_header where
  "ex_header = \<lparr>lh_uid = ''L1'', lh_uid_well = ''W1'', lh_uid_wellbore = ''B1'', lh_name = None, lh_name_well = None,
     lh_name_wellbore = None, lh_index_type = MEASURED_DEPTH, lh_index_curve = Some ''DEPT'', lh_direction = INCREASING,
     lh_object_growing = Some True, lh_null_value = None, lh_index_uom = Some ''m'', lh_start_index = None, lh_end_index = None,
     lh_start_datetime_index = None, lh_end_datetime_index = None,
     lh_curves = map (\<lambda>m. \<lparr>lci_uid = None, lci_mnemonic = m, lci_unit = None, lci_curve_description = None, lci_null_value = None,
       lci_type_log_data = None, lci_min_index = None, lci_max_index = None, lci_min_datetime_index = None,
       lci_max_datetime_index = None\<rparr>) [''DEPT'', ''ROP'']\<rparr>"

definition ex_env :: "MockStore sched_env" where
  "ex_env = \<lparr>se_lxml = ref_lxml, se_service = store_service ref_lxml, se_pyd = (\<lambda>s. None), se_local = (\<lambda>u. u),
     se_max_return_nodes = 1000, se_clock = (\<lambda>s. DT True 0), se_db_up = (\<lambda>s. True), se_db_dt = (\<lambda>d. d)\<rparr>"

lemma ex_service: "service_ok ex_env"
  using ref_lxml_codec by (simp add: service_ok_def ex_env_def)

lemma ex_state: "state_from_header 1 ex_header =
  \<lparr>lst_server_id = 1, lst_well_uid = ''W1'', lst_wellbore_uid = ''B1'', lst_log_uid = ''L1'', lst_index_type = MEASURED_DEPTH,
    lst_direction = INCREASING, lst_index_uom = Some ''m'', lst_index_mnemonic = ''DEPT'', lst_mnemonics = [''DEPT'', ''ROP''],
    lst_last_index = None, lst_object_growing = Some True\<rparr>"
  by (simp add: state_from_header_def ex_header_def lh_mnemonics_def Let_def)

lemma ex_pollable: "pollable ex_env ex_store ex_header (state_from_header 1 ex_header) ex_log"
proof -
  have rq: "poll_request ex_env ex_header (state_from_header 1 ex_header) = ex_request None (Some 1000)"
    unfolding poll_request_def ingest_request_def ex_state ex_request_def by (simp add: ex_env_def) (simp add: ex_header_def)
  have "length (sl_rows ex_log) = 3" by (simp add: ex_log_def)
  moreover have "filter (\<lambda>m. m \<noteq> lst_index_mnemonic (state_from_header 1 ex_header)) (lst_mnemonics (state_from_header 1 ex_header)) \<noteq> []"
    "lst_last_index (state_from_header 1 ex_header) = None" by (simp_all add: ex_state)
  ultimately show ?thesis
    unfolding pollable_def rq using ex_request_ok ex_addressed ex_log_wire by (simp add: ex_env_def)
qed

lemma ex_follow: "can_follow ex_env 1 ex_store [ex_header]"
  using ex_pollable by (auto simp: can_follow_def identities_def) (simp add: ex_header_def)

abbreviation ex_start :: "MockStore IngestionScheduler" where
  "ex_start \<equiv> discovered 1 100 ex_store [ex_header]"

lemma ex_run: "sched_run ex_env [ex_header] ex_start (ingest_log ex_env ex_header (focus ''W1'' ex_start))"
proof -
  have "sched_step ex_env [ex_header] ex_start (focus ''W1'' ex_start)" by (rule sched_step.Focus)
  moreover have "sched_step ex_env [ex_header] (focus ''W1'' ex_start) (ingest_log ex_env ex_header (focus ''W1'' ex_start))"
    by (rule sched_step.Poll) simp
  ultimately show ?thesis by (meson converse_rtranclp_into_rtranclp r_into_rtranclp)
qed

section \<open>Properties\<close>

text \<open>
  C7. One poll. For a log the scheduler can follow, polling succeeds, whatever the number of truncated
  answers: the buffers of the well get, per curve, the samples of exactly the rows beyond the cursor, in
  order and within their bound; the same samples go to the durable cache; the cursor becomes the newest
  index of the log; the state of every other log, the other wells and the server are untouched.
\<close>

theorem poll_delivers_new_rows:
  assumes "service_ok env" "ring_ok (sc_store w)" "keyed (sc_store w)" "pollable env (sc_remote w) h (current_state h w) lg"
  shows "\<exists>w' ss. do_ingest_log env h w = (Inr (), w') \<and> ss = log_samples lg (new_rows lg (lst_last_index (current_state h w))) \<and>
    lst_last_index (current_state h w') = log_newest lg \<and> sc_remote w' = sc_remote w \<and>
    (\<forall>u m. buffer (sc_store w') u m = (if u = lh_uid_well h
       then lastn (rb_max_samples (sc_store w)) (buffer (sc_store w) u m @ [s \<leftarrow> ss. cs_mnemonic s = m]) else buffer (sc_store w) u m)) \<and>
    sc_sample_rows w' = sc_sample_rows w @ map (sample_row (sc_server_id w) h (is_time (sl_index_type lg))) ss \<and>
    (\<forall>k. k \<noteq> header_key (sc_server_id w) h \<longrightarrow> get_log_state k (sc_store w') = get_log_state k (sc_store w))"
proof -
  let ?st = "current_state h w"
  let ?ss = "log_samples lg (new_rows lg (lst_last_index ?st))"
  obtain w' where w': "do_ingest_log env h w = (Inr (), w')" and P: "polled env h (polled_state ?st lg) ?ss w w'"
    using ingest_polled [OF _ _ assms(4)] assms(1) by (auto simp: service_ok_def)
  have "lst_key ?st = header_key (sc_server_id w) h" by (rule lst_key_current) (rule keyedD [OF assms(3)])
  then have key: "lst_key (polled_state ?st lg) = header_key (sc_server_id w) h" by (simp add: lst_key_def polled_state_def)
  have sid: "sc_server_id w' = sc_server_id w" using P by (simp add: polled_def)
  have st': "current_state h w' = polled_state ?st lg" by (simp add: current_state_def [of h w'] sid polled_states [OF P] key)
  have ty: "lst_index_type ?st = sl_index_type lg" using assms(4) by (simp add: pollable_def addresses_def)
  have o: "\<forall>k. k \<noteq> header_key (sc_server_id w) h \<longrightarrow> get_log_state k (sc_store w') = get_log_state k (sc_store w)"
    by (simp add: polled_states [OF P] key)
  show ?thesis
    using P w' st' o ty assms(2) by (intro exI [of _ w'] exI [of _ ?ss]) (simp add: polled_def polled_state_def)
qed

theorem poll_delivers_new_rows_witness:
  "\<exists>w'. do_ingest_log ex_env ex_header ex_start = (Inr (), w') \<and> lst_last_index (current_state ex_header w') = log_newest ex_log"
proof -
  have inv: "sched_inv ex_env [ex_header] ex_start" by (rule discovered_inv [OF ex_follow])
  have ids: "identities [ex_header]" "\<forall>h \<in> set [ex_header]. lh_uid h \<noteq> []" using ex_follow by (simp_all add: can_follow_def)
  have st: "current_state ex_header ex_start = state_from_header 1 ex_header" "sc_remote ex_start = ex_store"
    using discovered_facts(1,2) [OF ids, where sid = 1 and n = 100 and s = ex_store] by (simp_all add: noted_def new_scheduler_def)
  have p: "pollable ex_env (sc_remote ex_start) ex_header (current_state ex_header ex_start) ex_log"
    unfolding st by (rule ex_pollable)
  have "ring_ok (sc_store ex_start)" "keyed (sc_store ex_start)" using inv by (simp_all add: sched_inv_def)
  from poll_delivers_new_rows [OF ex_service this p] show ?thesis by blast
qed





text \<open>
  C18. The cursor of a log never moves back, in the growth direction of the log, whatever happens in a run;
  in particular no growth, failure or restart of a subscription makes the scheduler fetch history again.
\<close>

theorem cursor_never_moves_back:
  assumes "service_ok env" "can_follow env sid s H" "sched_run env H (discovered sid n s H) w" "sched_run env H w w'" "h \<in> set H"
  shows "cursor_le (lst_direction (current_state h w)) (lst_last_index (current_state h w)) (lst_last_index (current_state h w'))"
  using run_cursor [OF assms(4,1) _ run_discovered [OF assms(1-3)] assms(5)] assms(2) by (simp add: can_follow_def)

theorem cursor_never_moves_back_witness:
  "cursor_le (lst_direction (current_state ex_header ex_start)) (lst_last_index (current_state ex_header ex_start))
     (lst_last_index (current_state ex_header (ingest_log ex_env ex_header (focus ''W1'' ex_start))))"
  by (rule cursor_never_moves_back [OF ex_service ex_follow rtranclp.rtrancl_refl ex_run]) simp

text \<open>
  The order of a tick: the logs of viewed wells (focused or with a subscriber) come first, and each
  of the two groups keeps the order of discovery; every log of the topology is there as often as in it.
\<close>

theorem tick_order_viewed_first:
  "tick_order w = filter (is_viewed w) (map snd (sc_headers w)) @ filter (\<lambda>h. \<not> is_viewed w h) (map snd (sc_headers w))"
  by (rule tick_order_split)

end
