(* ===== verification/IndexCache.thy ===== *)
theory IndexCache
  imports Run
begin

text \<open>
  The index cache across a restart: what \<^verbatim>\<open>_snapshot_index_state\<close> writes and what
  \<^verbatim>\<open>_load_index_snapshot\<close> makes of it, and discovery on top of restored states.
\<close>

section \<open>Writing\<close>

definition written :: "LogState \<Rightarrow> IndexCacheSnapshot \<Rightarrow> bool" where
  "written st r = (write_snapshot st r = r)"

lemma write_key [simp]: "uq_key (write_snapshot st r) = uq_key r" "snap_key (write_snapshot st r) = snap_key r"
  by (simp_all add: write_snapshot_def uq_key_def snap_key_def Let_def)

lemma write_written [simp]: "written st (write_snapshot st r)"
  by (simp add: written_def write_snapshot_def Let_def)

lemma blank_key [simp]: "uq_key (blank_snapshot st m) = (lst_key st, m)" "snap_key (blank_snapshot st m) = lst_key st"
  by (simp_all add: blank_snapshot_def uq_key_def snap_key_def lst_key_def)

lemma row_of_key: "lst_server_id st = sid \<Longrightarrow> row_of sid st m = (\<lambda>r. uq_key r = (lst_key st, m))"
  by (rule ext) (auto simp: row_of_def uq_key_def snap_key_def lst_key_def)

lemma update_last_none: "\<forall>x \<in> set xs. \<not> p x \<Longrightarrow> update_last p g xs = xs"
  by (induction xs) (auto simp: list_ex_iff)

lemma update_last_map:
  "distinct (map f xs) \<Longrightarrow> update_last (\<lambda>x. f x = k) g xs = map (\<lambda>x. if f x = k then g x else x) xs"
proof (induction xs)
  case (Cons x xs)
  show ?case
  proof (cases "f x = k")
    case True
    have n: "\<forall>y \<in> set xs. f y \<noteq> k"
    proof
      fix y
      assume "y \<in> set xs"
      then have "f y \<in> f ` set xs" by (rule imageI)
      then show "f y \<noteq> k" using Cons.prems True by auto
    qed
    then have "map (\<lambda>x. if f x = k then g x else x) xs = xs" by (intro map_idI) auto
    with n True show ?thesis by (simp add: list_ex_iff)
  next
    case False
    have "xs = map (\<lambda>x. if f x = k then g x else x) xs" if "\<not> list_ex (\<lambda>x. f x = k) xs"
      using that by (intro map_idI [symmetric]) (auto simp: list_ex_iff)
    with Cons False show ?thesis by auto
  qed
qed simp

text \<open>What a state does to the row it finds, and the rows it adds.\<close>

definition state_mnems :: "LogState \<Rightarrow> string list" where
  "state_mnems st = (if lst_mnemonics st = [] then [lst_index_mnemonic st] else lst_mnemonics st)"

definition rewrite_row :: "LogState \<Rightarrow> string set \<Rightarrow> IndexCacheSnapshot \<Rightarrow> IndexCacheSnapshot" where
  "rewrite_row st ms r = (if snap_key r = lst_key st \<and> ic_mnemonic r \<in> ms \<and> ic_mnemonic r \<noteq> [] then write_snapshot st r else r)"

definition new_snapshots :: "IndexCacheSnapshot list \<Rightarrow> LogState \<Rightarrow> string list \<Rightarrow> IndexCacheSnapshot list" where
  "new_snapshots ex st ms = map (\<lambda>m. write_snapshot st (blank_snapshot st m))
     (filter (\<lambda>m. m \<noteq> [] \<and> (lst_key st, m) \<notin> uq_key ` set ex) ms)"

lemma write_mnemonic [simp]: "ic_mnemonic (write_snapshot st r) = ic_mnemonic r"
  by (simp add: write_snapshot_def Let_def)

lemma rewrite_keys [simp]: "uq_key (rewrite_row st ms r) = uq_key r" "snap_key (rewrite_row st ms r) = snap_key r"
  "ic_mnemonic (rewrite_row st ms r) = ic_mnemonic r"
  by (simp_all add: rewrite_row_def)

lemma rewrite_set: "uq_key ` set (map (rewrite_row st ms) ex) = uq_key ` set ex"
  by (force simp: image_image)

lemma new_snapshots_cong: "uq_key ` set ex = uq_key ` set ex' \<Longrightarrow> new_snapshots ex = new_snapshots ex'"
  by (intro ext) (simp add: new_snapshots_def)

lemma rewrite_twice: "rewrite_row st ms (rewrite_row st {m} r) = rewrite_row st (insert m ms) r"
  using write_written [of st r] by (auto simp: rewrite_row_def written_def)

lemma upsert_curve_eq:
  assumes "lst_server_id st = sid" "distinct (map uq_key ex)"
  shows "upsert_curve sid st m (ex, ad) = (map (rewrite_row st {m}) ex, ad @ new_snapshots ex st [m])"
proof -
  have u: "update_last (row_of sid st m) (write_snapshot st) ex = map (\<lambda>r. if uq_key r = (lst_key st, m) then write_snapshot st r else r) ex"
    unfolding row_of_key [OF assms(1)] by (rule update_last_map) (rule assms(2))
  have r: "rewrite_row st {m} = (\<lambda>r. if uq_key r = (lst_key st, m) \<and> m \<noteq> [] then write_snapshot st r else r)"
    by (rule ext) (auto simp: rewrite_row_def uq_key_def)
  have n: "ex = map (\<lambda>r. if uq_key r = (lst_key st, m) then write_snapshot st r else r) ex" if "\<forall>r \<in> set ex. uq_key r \<noteq> (lst_key st, m)"
    using that by (intro map_idI [symmetric]) auto
  show ?thesis
  proof (cases "list_ex (row_of sid st m) ex")
    case True
    then have "(lst_key st, m) \<in> uq_key ` set ex" unfolding row_of_key [OF assms(1)] by (force simp: list_ex_iff)
    with True u show ?thesis by (simp add: upsert_curve_def r new_snapshots_def)
  next
    case False
    then have "\<forall>r \<in> set ex. uq_key r \<noteq> (lst_key st, m)" unfolding row_of_key [OF assms(1)] by (simp add: list_ex_iff)
    with False n show ?thesis by (auto simp: upsert_curve_def r new_snapshots_def image_iff)
  qed
qed

lemma upsert_curves_eq:
  assumes "lst_server_id st = sid" "distinct (map uq_key ex)"
  shows "fold (upsert_curve sid st) ms (ex, ad) = (map (rewrite_row st (set ms)) ex, ad @ new_snapshots ex st ms)"
  using assms(2)
proof (induction ms arbitrary: ex ad)
  case Nil
  have "map (rewrite_row st {}) ex = ex" by (rule map_idI) (simp add: rewrite_row_def)
  then show ?case by (simp add: new_snapshots_def)
next
  case (Cons m ms)
  let ?ex = "map (rewrite_row st {m}) ex"
  have d: "distinct (map uq_key ?ex)" using Cons.prems by (simp add: comp_def)
  have n: "new_snapshots ?ex st ms = new_snapshots ex st ms" using new_snapshots_cong [OF rewrite_set] by metis
  show ?case
    by (simp add: upsert_curve_eq [OF assms(1) Cons.prems] Cons.IH [OF d] n rewrite_twice) (simp add: new_snapshots_def)
qed

definition state_rewrite :: "LogState \<Rightarrow> IndexCacheSnapshot \<Rightarrow> IndexCacheSnapshot" where
  "state_rewrite st r = (if lst_last_index st = None then r else rewrite_row st (set (state_mnems st)) r)"

definition state_news :: "IndexCacheSnapshot list \<Rightarrow> LogState \<Rightarrow> IndexCacheSnapshot list" where
  "state_news ex st = (if lst_last_index st = None then [] else new_snapshots ex st (state_mnems st))"

lemma state_rewrite_key [simp]: "uq_key (state_rewrite st r) = uq_key r" "snap_key (state_rewrite st r) = snap_key r"
  by (simp_all add: state_rewrite_def)

lemma upsert_states_eq:
  assumes "\<forall>st \<in> set sts. lst_server_id st = sid" "distinct (map uq_key ex)"
  shows "fold (upsert_state sid) sts (ex, ad) = (map (fold state_rewrite sts) ex, ad @ concat (map (state_news ex) sts))"
  using assms
proof (induction sts arbitrary: ex ad)
  case (Cons st sts)
  let ?ex = "map (state_rewrite st) ex"
  have d: "distinct (map uq_key ?ex)" using Cons.prems by (simp add: comp_def)
  have "uq_key ` set ?ex = uq_key ` set ex" by (force simp: image_image)
  then have n: "state_news ?ex = state_news ex" unfolding state_news_def using new_snapshots_cong by metis
  have one: "upsert_state sid st (ex, ad) = (?ex, ad @ state_news ex st)"
  proof (cases "lst_last_index st")
    case None
    have "map (state_rewrite st) ex = ex" by (rule map_idI) (simp add: state_rewrite_def None)
    then show ?thesis by (simp add: upsert_state_def state_news_def None)
  next
    case (Some c)
    have "state_rewrite st = rewrite_row st (set (state_mnems st))" by (rule ext) (simp add: state_rewrite_def Some)
    then show ?thesis
      using upsert_curves_eq [of st sid ex "state_mnems st" ad] Cons.prems
      by (simp add: upsert_state_def state_news_def Some state_mnems_def)
  qed
  have "\<forall>st \<in> set sts. lst_server_id st = sid" using Cons.prems by simp
  from Cons.IH [OF this d] show ?case by (simp add: one n comp_def)
qed simp

lemma fold_rewrite_key [simp]: "snap_key (fold state_rewrite sts r) = snap_key r" "uq_key (fold state_rewrite sts r) = uq_key r"
  by (induction sts arbitrary: r) simp_all

lemma fold_rewrite_other: "\<forall>st \<in> set sts. lst_key st \<noteq> snap_key r \<Longrightarrow> fold state_rewrite sts r = r"
  by (induction sts) (auto simp: state_rewrite_def rewrite_row_def)

lemma fold_rewrite_own:
  assumes "distinct (map lst_key sts)" "st \<in> set sts" "lst_key st = snap_key r"
  shows "fold state_rewrite sts r = state_rewrite st r"
proof -
  from assms(2) obtain xs ys where s: "sts = xs @ st # ys" by (meson split_list)
  with assms have x: "\<forall>t \<in> set xs. lst_key t \<noteq> snap_key r" and y: "\<forall>t \<in> set ys. lst_key t \<noteq> snap_key (state_rewrite st r)"
    by (auto simp: image_iff)
  show ?thesis by (simp add: s fold_rewrite_other [OF x] fold_rewrite_other [OF y])
qed

text \<open>The rows of the table after a snapshot that went through.\<close>

definition server_states :: "'s IngestionScheduler \<Rightarrow> LogState list" where
  "server_states w = filter (\<lambda>st. lst_server_id st = sc_server_id w) (log_states (sc_store w))"

lemma snapshot_rows:
  assumes "snapshot_index_state env w = (Inr (), w')" "distinct (map uq_key (sc_snapshots w))" "server_states w \<noteq> []"
  shows "sc_snapshots w' = map (fold state_rewrite (server_states w)) (sc_snapshots w) @
      concat (map (state_news (sc_snapshots w)) (server_states w))"
proof -
  have sid: "\<forall>st \<in> set (server_states w). lst_server_id st = sc_server_id w" by (simp add: server_states_def)
  show ?thesis
    using assms(1,3) upsert_states_eq [OF sid assms(2), of "[]"]
    by (auto simp: snapshot_index_state_def Let_def server_states_def split: if_splits)
qed

lemma snapshot_group:
  assumes snap: "snapshot_index_state env w = (Inr (), w')" and ex: "distinct (map uq_key (sc_snapshots w))"
    and keys: "distinct (map lst_key (server_states w))" and st: "st \<in> set (server_states w)" and c: "lst_last_index st \<noteq> None"
    and m: "lst_mnemonics st \<noteq> []" "[] \<notin> set (lst_mnemonics st)"
    and fresh: "\<forall>r \<in> set (sc_snapshots w). snap_key r = lst_key st \<longrightarrow> ic_mnemonic r \<in> set (lst_mnemonics st)"
  shows "r \<in> set (sc_snapshots w') \<Longrightarrow> snap_key r = lst_key st \<Longrightarrow> written st r \<and> ic_mnemonic r \<in> set (lst_mnemonics st)"
    and "ic_mnemonic ` {r \<in> set (sc_snapshots w'). snap_key r = lst_key st} = set (lst_mnemonics st)"
proof -
  have ne: "server_states w \<noteq> []" using st by auto
  note rows = snapshot_rows [OF snap ex ne]
  have ms: "state_mnems st = lst_mnemonics st" using m by (simp add: state_mnems_def)
  have own: "t = st" if "t \<in> set (server_states w)" "lst_key t = lst_key st" for t
    using keys st that by (metis distinct_map inj_onD)
  have old: "fold state_rewrite (server_states w) r = write_snapshot st r \<and> ic_mnemonic r \<in> set (lst_mnemonics st)"
    if "r \<in> set (sc_snapshots w)" "snap_key r = lst_key st" for r
  proof -
    from fresh that have "ic_mnemonic r \<in> set (lst_mnemonics st)" by blast
    moreover from this m(2) have "ic_mnemonic r \<noteq> []" by auto
    ultimately show ?thesis
      using fold_rewrite_own [OF keys st, of r] that(2) c by (simp add: state_rewrite_def rewrite_row_def ms)
  qed
  have new: "r \<in> set (state_news (sc_snapshots w) st) \<longleftrightarrow> (\<exists>m \<in> set (lst_mnemonics st). (lst_key st, m) \<notin> uq_key ` set (sc_snapshots w) \<and>
      r = write_snapshot st (blank_snapshot st m))" for r
    using c m(2) by (auto simp: state_news_def new_snapshots_def ms)
  have nk: "r \<in> set (state_news (sc_snapshots w) t) \<Longrightarrow> snap_key r = lst_key t" for r t
    by (auto simp: state_news_def new_snapshots_def split: if_splits)
  have mem: "r \<in> set (sc_snapshots w') \<and> snap_key r = lst_key st \<longleftrightarrow>
      (\<exists>q \<in> set (sc_snapshots w). snap_key q = lst_key st \<and> r = write_snapshot st q) \<or> r \<in> set (state_news (sc_snapshots w) st)" for r
  proof
    assume r: "r \<in> set (sc_snapshots w') \<and> snap_key r = lst_key st"
    then consider q where "q \<in> set (sc_snapshots w)" "r = fold state_rewrite (server_states w) q"
      | t where "t \<in> set (server_states w)" "r \<in> set (state_news (sc_snapshots w) t)" unfolding rows by auto
    then show "(\<exists>q \<in> set (sc_snapshots w). snap_key q = lst_key st \<and> r = write_snapshot st q) \<or> r \<in> set (state_news (sc_snapshots w) st)"
      using r old nk own by cases (auto, metis)
  next
    assume "(\<exists>q \<in> set (sc_snapshots w). snap_key q = lst_key st \<and> r = write_snapshot st q) \<or> r \<in> set (state_news (sc_snapshots w) st)"
    then show "r \<in> set (sc_snapshots w') \<and> snap_key r = lst_key st"
      unfolding rows using old st nk by (auto simp: image_iff) metis
  qed
  show "written st r \<and> ic_mnemonic r \<in> set (lst_mnemonics st)" if "r \<in> set (sc_snapshots w')" "snap_key r = lst_key st" for r
    using mem [of r] that old new [of r] by (auto simp: blank_snapshot_def)
  show "ic_mnemonic ` {r \<in> set (sc_snapshots w'). snap_key r = lst_key st} = set (lst_mnemonics st)"
  proof
    show "ic_mnemonic ` {r \<in> set (sc_snapshots w'). snap_key r = lst_key st} \<subseteq> set (lst_mnemonics st)"
      using mem old new by (auto simp: blank_snapshot_def)
    show "set (lst_mnemonics st) \<subseteq> ic_mnemonic ` {r \<in> set (sc_snapshots w'). snap_key r = lst_key st}"
    proof
      fix m
      assume m: "m \<in> set (lst_mnemonics st)"
      show "m \<in> ic_mnemonic ` {r \<in> set (sc_snapshots w'). snap_key r = lst_key st}"
      proof (cases "(lst_key st, m) \<in> uq_key ` set (sc_snapshots w)")
        case True
        then obtain q where "q \<in> set (sc_snapshots w)" "snap_key q = lst_key st" "ic_mnemonic q = m" by (auto simp: uq_key_def)
        then have "write_snapshot st q \<in> {r \<in> set (sc_snapshots w'). snap_key r = lst_key st}" using mem by blast
        then show ?thesis using \<open>ic_mnemonic q = m\<close> by (intro image_eqI [of _ _ "write_snapshot st q"]) simp_all
      next
        case False
        then have "write_snapshot st (blank_snapshot st m) \<in> set (state_news (sc_snapshots w) st)" using new m by blast
        then have "write_snapshot st (blank_snapshot st m) \<in> {r \<in> set (sc_snapshots w'). snap_key r = lst_key st}" using mem by blast
        then show ?thesis by (intro image_eqI [of _ _ "write_snapshot st (blank_snapshot st m)"]) (simp_all add: blank_snapshot_def)
      qed
    qed
  qed
qed

section \<open>Reading back\<close>

lemma index_type_roundtrip: "index_type_of (Some (it_value it)) = it"
proof -
  have "list_all (\<lambda>it. index_type_of (Some (it_value it)) = it) [DATE_TIME, ELAPSED_TIME, MEASURED_DEPTH, VERTICAL_DEPTH, OTHER]"
    by code_simp
  then show ?thesis by (cases it; simp only: list.pred_inject simp_thms)
qed

lemma direction_roundtrip: "snap_direction (Some (dir_value d)) = d"
proof -
  have "list_all (\<lambda>d. snap_direction (Some (dir_value d)) = d) [INCREASING, DECREASING]" by code_simp
  then show ?thesis by (cases d) simp_all
qed

lemma fold_put:
  assumes "distinct (map fst ps)" "\<And>k g. lst_key (f k g) = k"
  shows "get_log_state k (fold (\<lambda>(k, g) r. put_log_state (f k g) r) ps r) =
    (case map_of ps k of Some g \<Rightarrow> Some (f k g) | None \<Rightarrow> get_log_state k r)"
  using assms(1)
proof (induction ps arbitrary: r)
  case (Cons p ps)
  obtain k' g where p: "p = (k', g)" by (cases p)
  have "map_of ps k' = None" using Cons.prems by (simp add: p map_of_eq_None_iff)
  with Cons show ?case by (auto simp: p get_put_log_state assms(2) split: option.splits)
qed simp

lemma distinct_push: "distinct (map fst d) \<Longrightarrow> distinct (map fst (fold (\<lambda>s. alist_push (f s) (g s)) ss d))"
  by (induction ss arbitrary: d) (simp_all add: alist_push_def distinct_update)

text \<open>What loading makes of the rows of one log.\<close>

lemma load_state:
  assumes up: "se_db_up env (sc_remote w)" and k: "fst k = sc_server_id w"
    and g: "filter (\<lambda>r. snap_key r = k) (sc_snapshots w) \<noteq> []"
  shows "get_log_state k (sc_store (snd (load_index_snapshot env w))) =
    Some (state_of_group (se_db_dt env) k (filter (\<lambda>r. snap_key r = k) (sc_snapshots w)))"
proof -
  let ?snaps = "filter (\<lambda>s. ic_server_id s = sc_server_id w) (sc_snapshots w)"
  let ?per = "fold (\<lambda>s. alist_push (snap_key s) s) ?snaps []"
  have "filter (\<lambda>r. ic_server_id r = sc_server_id w \<and> snap_key r = k) (sc_snapshots w) = filter (\<lambda>r. snap_key r = k) (sc_snapshots w)"
    using k by (intro filter_cong) (auto simp: snap_key_def)
  then have f: "filter (\<lambda>r. snap_key r = k) ?snaps = filter (\<lambda>r. snap_key r = k) (sc_snapshots w)"
    by (simp only: filter_filter)
  have m: "map_of ?per k = Some (filter (\<lambda>r. snap_key r = k) (sc_snapshots w))"
    using map_of_fold_push [of snap_key "\<lambda>s. s" ?snaps "[]" k] g unfolding f by simp
  have d: "distinct (map fst ?per)" by (rule distinct_push) simp
  have "get_log_state k (fold (\<lambda>(k, g) r. put_log_state (state_of_group (se_db_dt env) k g) r) ?per (sc_store w)) =
    Some (state_of_group (se_db_dt env) k (filter (\<lambda>r. snap_key r = k) (sc_snapshots w)))"
    by (subst fold_put [OF d]) (simp_all add: m state_of_group_def lst_key_def Let_def)
  then show ?thesis using up by (simp add: load_index_snapshot_def Let_def)
qed

definition cursor_typed :: "LogState \<Rightarrow> bool" where
  "cursor_typed st = (case lst_last_index st of None \<Rightarrow> True
     | Some v \<Rightarrow> if is_time (lst_index_type st) then (\<exists>d. v = VDt d) else (\<exists>x. v = VFloat x))"

fun db_value :: "(datetime \<Rightarrow> datetime) \<Rightarrow> pyval \<Rightarrow> pyval" where
  "db_value f (VDt d) = VDt (f d)"
| "db_value f v = v"

lemma written_state:
  assumes "written st (hd g)" "cursor_typed st"
  shows "lst_index_type (state_of_group f k g) = lst_index_type st" "lst_direction (state_of_group f k g) = lst_direction st"
    "lst_index_uom (state_of_group f k g) = lst_index_uom st"
    "lst_last_index (state_of_group f k g) = map_option (db_value f) (lst_last_index st)"
proof -
  obtain h where h: "hd g = h" by simp
  have w: "ic_direction h = Some (dir_value (lst_direction st))" "ic_index_type h = Some (it_value (lst_index_type st))"
    "ic_uom h = lst_index_uom st" "ic_last_index_float h = (if is_time (lst_index_type st) then None else as_float (lst_last_index st))"
    "ic_last_index_dt h = index_dt (is_time (lst_index_type st)) (lst_last_index st)"
    using assms(1) unfolding h written_def by (cases h; simp add: write_snapshot_def Let_def)+
  show "lst_index_type (state_of_group f k g) = lst_index_type st" "lst_direction (state_of_group f k g) = lst_direction st"
    "lst_index_uom (state_of_group f k g) = lst_index_uom st"
    by (simp_all add: state_of_group_def Let_def h w index_type_roundtrip direction_roundtrip)
  show "lst_last_index (state_of_group f k g) = map_option (db_value f) (lst_last_index st)"
    using assms(2)
    by (auto simp: state_of_group_def Let_def h w index_type_roundtrip cursor_from_snap_def cursor_typed_def as_float_def index_dt_def
        split: option.splits if_splits)
qed

section \<open>Discovery\<close>

definition discovery_safe :: "'s IngestionScheduler \<Rightarrow> 's IngestionScheduler \<Rightarrow> bool" where
  "discovery_safe w w' =
     ((\<forall>k st. get_log_state k (sc_store w) = Some st \<longrightarrow> get_log_state k (sc_store w') = Some st) \<and>
      rb_curves (sc_store w') = rb_curves (sc_store w) \<and> rb_queues (sc_store w') = rb_queues (sc_store w) \<and>
      rb_subscribers (sc_store w') = rb_subscribers (sc_store w) \<and> sc_sample_rows w' = sc_sample_rows w \<and>
      sc_snapshots w' = sc_snapshots w \<and> sc_server_id w' = sc_server_id w)"

lemma safe_refl: "discovery_safe w w" and safe_trans: "discovery_safe w w' \<Longrightarrow> discovery_safe w' w'' \<Longrightarrow> discovery_safe w w''"
  by (auto simp: discovery_safe_def)

lemma safe_steps:
  "discovery_safe w w' \<Longrightarrow> discovery_safe w (w'\<lparr>sc_remote := r\<rparr>)"
  "discovery_safe w w' \<Longrightarrow> discovery_safe w (w'\<lparr>sc_discovered := b\<rparr>)"
  "discovery_safe w w' \<Longrightarrow> discovery_safe w (w'\<lparr>sc_store := set_well_meta u n x (sc_store w')\<rparr>)"
  by (simp_all add: discovery_safe_def set_well_meta_def get_log_state_def)

lemma note_header_safe: "discovery_safe w (fst (note_header h (w, b)))"
proof (cases "lh_uid h = []")
  case True
  then show ?thesis by (simp add: note_header_def safe_refl)
next
  case False
  have "get_log_state k (put_log_state (state_from_header sid h) r) = Some st"
    if "get_log_state k r = Some st" "get_log_state (header_key sid h) r = None" for k r st sid
    using that by (auto simp: get_put_log_state state_from_header_key)
  with False show ?thesis by (simp add: note_header_def discovery_safe_def Let_def put_log_state_def)
qed

lemma fold_safe:
  assumes "\<And>x w b. discovery_safe w (fst (f x (w, b)))"
  shows "discovery_safe w (fst (fold f xs (w, b)))"
proof (induction xs arbitrary: w b)
  case (Cons x xs)
  obtain w' b' where e: "f x (w, b) = (w', b')" by (cases "f x (w, b)")
  with assms [of w x b] have "discovery_safe w w'" by simp
  moreover have "discovery_safe w' (fst (fold f xs (w', b')))" by (rule Cons.IH)
  ultimately show ?case by (simp add: e safe_trans)
qed (simp add: safe_refl)

lemma discover_safe: "discovery_safe w (snd (discover env w))"
proof -
  have wb: "discovery_safe w (fst (discover_wellbore env wl b (w, a)))" for wl b w a
  proof -
    obtain x r where e: "fetch_log_headers env (w_uid wl) (wb_uid b) (sc_remote w) = (x, r)"
      by (cases "fetch_log_headers env (w_uid wl) (wb_uid b) (sc_remote w)")
    have "discovery_safe w (fst (fold note_header hs (w\<lparr>sc_remote := r\<rparr>, a)))" for hs
      by (rule safe_trans [OF safe_steps(1) [OF safe_refl] fold_safe [of note_header, OF note_header_safe]])
    then show ?thesis by (cases x) (simp_all add: discover_wellbore_def e safe_steps safe_refl)
  qed
  have wl: "discovery_safe w (fst (discover_well env wl (w, a)))" for wl w a
  proof -
    let ?w = "w\<lparr>sc_store := set_well_meta (w_uid wl) (w_name wl) (w_region wl) (sc_store w)\<rparr>"
    obtain x r where e: "fetch_wellbores env (w_uid wl) (sc_remote w) = (x, r)"
      by (cases "fetch_wellbores env (w_uid wl) (sc_remote w)")
    have m: "discovery_safe w (?w\<lparr>sc_remote := r\<rparr>)" by (intro safe_steps safe_refl)
    have "discovery_safe w (fst (fold (discover_wellbore env wl) ws (?w\<lparr>sc_remote := r\<rparr>, a)))" for ws
      by (rule safe_trans [OF m fold_safe [of "discover_wellbore env wl", OF wb]])
    then show ?thesis using m by (cases x) (simp_all add: discover_well_def e Let_def)
  qed
  have all: "discovery_safe w (fst (fold (discover_well env) wells (w\<lparr>sc_remote := r\<rparr>, False)))" for wells r
    by (rule safe_trans [OF safe_steps(1) [OF safe_refl] fold_safe [of "discover_well env", OF wl]])
  have "discovery_safe w w'" if "fold (discover_well env) wells (w\<lparr>sc_remote := r\<rparr>, False) = (w', b)" for wells r w' b
    using all [of wells r] that by simp
  then show ?thesis
    by (auto simp: discover_def safe_steps safe_refl split: prod.splits sum.splits)
qed

section \<open>Properties\<close>

text \<open>A restarted scheduler, with the tables of the one before.\<close>

definition restarted :: "'s IngestionScheduler \<Rightarrow> nat \<Rightarrow> 's IngestionScheduler" where
  "restarted w n = (new_scheduler (sc_server_id w) (new_ring_store n) (sc_remote w))
     \<lparr>sc_snapshots := sc_snapshots w, sc_sample_rows := sc_sample_rows w\<rparr>"

text \<open>
  C12. A restart resumes where the snapshot was taken. For a log state with a cursor, whose curves cover the
  rows the table already has for the log, a snapshot that goes through followed by loading in a fresh
  scheduler gives a state with the same index type, direction and unit, the same curves (now in
  alphabetical order) and the same cursor, up to what the database makes of a datetime.
\<close>

theorem snapshot_restores_cursor:
  assumes "snapshot_index_state env w = (Inr (), w')" "distinct (map uq_key (sc_snapshots w))"
    "distinct (map lst_key (server_states w))" "st \<in> set (server_states w)" "lst_last_index st = Some c" "cursor_typed st"
    "lst_mnemonics st \<noteq> []" "[] \<notin> set (lst_mnemonics st)"
    "\<forall>r \<in> set (sc_snapshots w). snap_key r = lst_key st \<longrightarrow> ic_mnemonic r \<in> set (lst_mnemonics st)"
    "se_db_up env (sc_remote w')"
  shows "\<exists>st'. get_log_state (lst_key st) (sc_store (snd (load_index_snapshot env (restarted w' n)))) = Some st' \<and>
    lst_index_type st' = lst_index_type st \<and> lst_direction st' = lst_direction st \<and> lst_index_uom st' = lst_index_uom st \<and>
    lst_mnemonics st' = sorted_set (lst_mnemonics st) \<and> lst_last_index st' = Some (db_value (se_db_dt env) c)"
proof -
  let ?g = "filter (\<lambda>r. snap_key r = lst_key st) (sc_snapshots w')"
  have c: "lst_last_index st \<noteq> None" using assms(5) by simp
  note G = snapshot_group [OF assms(1-4) c assms(7-9)]
  have sid: "lst_server_id st = sc_server_id w" using assms(4) by (simp add: server_states_def)
  have sid': "sc_server_id w' = sc_server_id w" using snapshot_frame(2) [of env w] assms(1) by simp
  have ms: "set (map ic_mnemonic ?g) = set (lst_mnemonics st)" using G(2) by auto
  then have ne: "?g \<noteq> []" using assms(7) by (metis list.simps(8) set_empty)
  then have "hd ?g \<in> set ?g" by (rule hd_in_set)
  then have wr: "written st (hd ?g)" using G(1) by auto
  let ?st = "state_of_group (se_db_dt env) (lst_key st) ?g"
  have "get_log_state (lst_key st) (sc_store (snd (load_index_snapshot env (restarted w' n)))) = Some ?st"
    using load_state [of env "restarted w' n" "lst_key st"] assms(10) ne sid sid'
    by (simp add: restarted_def new_scheduler_def lst_key_def)
  moreover have "lst_mnemonics ?st = sorted_set (lst_mnemonics st)"
    using ms by (simp add: state_of_group_def Let_def) (rule sorted_distinct_set_unique, simp_all)
  ultimately show ?thesis using written_state [OF wr assms(6)] assms(5) by simp
qed

definition ex_cursor_state :: LogState where
  "ex_cursor_state = (state_from_header 1 ex_header)\<lparr>lst_last_index := Some (VFloat (Fin 3))\<rparr>"

definition ex_before_stop :: "MockStore IngestionScheduler" where
  "ex_before_stop = new_scheduler 1 (put_log_state ex_cursor_state (new_ring_store 5)) ex_store"

theorem snapshot_restores_cursor_witness:
  "\<exists>st'. get_log_state (lst_key ex_cursor_state) (sc_store (snd (load_index_snapshot ex_env
      (restarted (snd (snapshot_index_state ex_env ex_before_stop)) 5)))) = Some st' \<and>
    lst_mnemonics st' = sorted_set [''DEPT'', ''ROP''] \<and> lst_last_index st' = Some (VFloat (Fin 3))"
proof -
  have s: "ex_cursor_state =
    \<lparr>lst_server_id = 1, lst_well_uid = ''W1'', lst_wellbore_uid = ''B1'', lst_log_uid = ''L1'', lst_index_type = MEASURED_DEPTH,
     lst_direction = INCREASING, lst_index_uom = Some ''m'', lst_index_mnemonic = ''DEPT'', lst_mnemonics = [''DEPT'', ''ROP''],
     lst_last_index = Some (VFloat (Fin 3)), lst_object_growing = Some True\<rparr>"
    by (simp add: ex_cursor_state_def ex_state)
  have st: "server_states ex_before_stop = [ex_cursor_state]" "sc_snapshots ex_before_stop = []"
    by (simp_all add: server_states_def ex_before_stop_def new_scheduler_def log_states_def put_log_state_def new_ring_store_def s)
  have news: "state_news [] ex_cursor_state = [write_snapshot ex_cursor_state (blank_snapshot ex_cursor_state ''DEPT''),
      write_snapshot ex_cursor_state (blank_snapshot ex_cursor_state ''ROP'')]"
    by (simp add: state_news_def new_snapshots_def state_mnems_def s)
  have up: "fold (upsert_state 1) [ex_cursor_state] ([], []) = ([], state_news [] ex_cursor_state)"
    using upsert_states_eq [of "[ex_cursor_state]" 1 "[]" "[]"] by (simp add: s)
  have r: "snapshot_index_state ex_env ex_before_stop = (Inr (), ex_before_stop\<lparr>sc_snapshots := state_news [] ex_cursor_state\<rparr>)" (is "_ = (_, ?w)")
    using st up news unfolding snapshot_index_state_def server_states_def
    by (simp add: ex_env_def ex_before_stop_def new_scheduler_def)
  have "\<exists>st'. get_log_state (lst_key ex_cursor_state) (sc_store (snd (load_index_snapshot ex_env (restarted ?w 5)))) = Some st' \<and>
    lst_index_type st' = lst_index_type ex_cursor_state \<and> lst_direction st' = lst_direction ex_cursor_state \<and>
    lst_index_uom st' = lst_index_uom ex_cursor_state \<and>
    lst_mnemonics st' = sorted_set (lst_mnemonics ex_cursor_state) \<and> lst_last_index st' = Some (db_value (se_db_dt ex_env) (VFloat (Fin 3)))"
    by (rule snapshot_restores_cursor [OF r]) (simp_all add: st, simp_all add: s cursor_typed_def is_time.simps ex_env_def)
  then show ?thesis using r by (auto simp: s)
qed

text \<open>
  C32. Discovery is idempotent on what matters: whatever the server answers, and even when it fails half
  way, discovering again keeps every log state (restored or running) with its cursor, the buffered
  samples, the subscribers and their queues, and both tables.
\<close>

theorem discover_preserves_states:
  "discovery_safe w (snd (discover env w))"
  by (rule discover_safe)

end
