(* ===== verification/Hub.thy ===== *)
theory Hub
  imports Scheduler
begin

text \<open>
  \<^verbatim>\<open>backend/app/ws/hub.py\<close>: the live WebSocket endpoint. Every socket runs the endpoint's loop on its own
  variables; sockets share the warm store, and the scheduler they focus. A step is what the event loop
  runs between two awaits that wait for the outside: a message handled, a queued payload forwarded, a
  socket opened or closed. Whether a frame could be sent is part of the step, because a send that raises
  ends the endpoint (or only the forwarding task, when it happens there). The token is decoded and not
  used, so that it takes no part.
\<close>

section \<open>Frames and sockets\<close>

datatype frame = SnapshotFrame string wire_curves | PongFrame | PayloadFrame payload

text \<open>A message from the browser: not a dictionary, or its type and its \<^verbatim>\<open>wellUid\<close> when that is a text.\<close>

datatype ws_message = NotDict | Message "string option" "string option"

record ws_conn =
  wc_open :: bool
  wc_well :: "string option"
  wc_queue :: "nat option"
  wc_drain :: "nat option"
  wc_sent :: "frame list"

definition new_conn :: ws_conn where
  "new_conn = \<lparr>wc_open = True, wc_well = None, wc_queue = None, wc_drain = None, wc_sent = []\<rparr>"

record hub =
  hb_store :: RingBufferStore
  hb_focused :: "string option"
  hb_conns :: "(nat \<times> ws_conn) list"

definition snapshot_frame :: "(int \<Rightarrow> int) \<Rightarrow> string \<Rightarrow> RingBufferStore \<Rightarrow> frame res" where
  "snapshot_frame local well_uid st =
     rbind (rmap (\<lambda>(m, ss). rbind (rmap (sample_to_wire local) ss) (\<lambda>ws. Inr (m, ws))) (get_recent well_uid None None (Some 300) st))
       (\<lambda>curves. Inr (SnapshotFrame well_uid curves))"

section \<open>The endpoint\<close>

definition stop_drain :: "ws_conn \<Rightarrow> ws_conn" where
  "stop_drain c = c\<lparr>wc_drain := None\<rparr>"

definition release :: "ws_conn \<Rightarrow> RingBufferStore \<Rightarrow> ws_conn \<times> RingBufferStore" where
  "release c st =
     (let c' = stop_drain c;
          st' = (case (wc_well c', wc_queue c') of (Some u, Some q) \<Rightarrow> unsubscribe u q st | _ \<Rightarrow> st)
      in (c'\<lparr>wc_well := None, wc_queue := None\<rparr>, st'))"

text \<open>The \<^verbatim>\<open>finally\<close> of the endpoint.\<close>

definition close_conn :: "ws_conn \<Rightarrow> RingBufferStore \<Rightarrow> ws_conn \<times> RingBufferStore" where
  "close_conn c st = (let (c', st') = release c st in (c'\<lparr>wc_open := False\<rparr>, st'))"

text \<open>
  Subscribing: off the previous well, on the queue of the new one, the snapshot, the focus, and only
  then the forwarding task. An exception in between ends the endpoint.
\<close>

definition subscribe_conn :: "(int \<Rightarrow> int) \<Rightarrow> bool \<Rightarrow> string \<Rightarrow> ws_conn \<Rightarrow> hub \<Rightarrow> ws_conn \<times> hub" where
  "subscribe_conn local sent well_uid c hb =
     (let (c1, st1) = release c (hb_store hb);
          (q, st2) = subscribe well_uid 256 st1;
          c2 = c1\<lparr>wc_well := Some well_uid, wc_queue := Some q\<rparr>
      in case snapshot_frame local well_uid st2 of
           Inr f \<Rightarrow>
             if sent then (c2\<lparr>wc_sent := wc_sent c2 @ [f], wc_drain := Some q\<rparr>, hb\<lparr>hb_store := st2, hb_focused := Some well_uid\<rparr>)
             else (let (c3, st3) = close_conn c2 st2 in (c3, hb\<lparr>hb_store := st3\<rparr>))
         | Inl e \<Rightarrow> (let (c3, st3) = close_conn c2 st2 in (c3, hb\<lparr>hb_store := st3\<rparr>)))"

definition receive_conn :: "(int \<Rightarrow> int) \<Rightarrow> bool \<Rightarrow> ws_message \<Rightarrow> ws_conn \<Rightarrow> hub \<Rightarrow> ws_conn \<times> hub" where
  "receive_conn local sent msg c hb = (case msg of
      NotDict \<Rightarrow> (c, hb)
    | Message ty well_uid \<Rightarrow>
        if ty = Some ''subscribe'' then
          (case or_none well_uid of Some u \<Rightarrow> subscribe_conn local sent u c hb | None \<Rightarrow> (c, hb))
        else if ty = Some ''unsubscribe'' then
          (let (c', st') = release c (hb_store hb) in (c', hb\<lparr>hb_store := st'\<rparr>))
        else if ty = Some ''ping'' then
          (if sent then (c\<lparr>wc_sent := wc_sent c @ [PongFrame]\<rparr>, hb)
           else (let (c', st') = close_conn c (hb_store hb) in (c', hb\<lparr>hb_store := st'\<rparr>)))
        else (c, hb))"

text \<open>The forwarding task: the oldest payload goes out; when it cannot be sent, it is lost and the task ends.\<close>

definition drain_conn :: "bool \<Rightarrow> ws_conn \<Rightarrow> hub \<Rightarrow> (ws_conn \<times> hub) option" where
  "drain_conn sent c hb = (case wc_drain c of
      None \<Rightarrow> None
    | Some q \<Rightarrow> (case queue_get q (hb_store hb) of
        None \<Rightarrow> None
      | Some (p, st') \<Rightarrow> Some (if sent then c\<lparr>wc_sent := wc_sent c @ [PayloadFrame p]\<rparr> else c\<lparr>wc_drain := None\<rparr>,
                              hb\<lparr>hb_store := st'\<rparr>)))"

section \<open>All sockets\<close>

definition conn :: "nat \<Rightarrow> hub \<Rightarrow> ws_conn option" where
  "conn i hb = map_of (hb_conns hb) i"

definition set_conn :: "nat \<Rightarrow> ws_conn \<times> hub \<Rightarrow> hub" where
  "set_conn i p = (snd p)\<lparr>hb_conns := AList.update i (fst p) (hb_conns (snd p))\<rparr>"

inductive hub_step :: "(int \<Rightarrow> int) \<Rightarrow> hub \<Rightarrow> hub \<Rightarrow> bool" for local where
  Connect: "conn i hb = None \<Longrightarrow> hub_step local hb (set_conn i (new_conn, hb))"
| Message: "conn i hb = Some c \<Longrightarrow> wc_open c \<Longrightarrow> hub_step local hb (set_conn i (receive_conn local sent msg c hb))"
| Forward: "conn i hb = Some c \<Longrightarrow> drain_conn sent c hb = Some r \<Longrightarrow> hub_step local hb (set_conn i r)"
| Disconnect: "conn i hb = Some c \<Longrightarrow> wc_open c \<Longrightarrow> close_conn c (hb_store hb) = (c', st') \<Longrightarrow>
    hub_step local hb (set_conn i (c', hb\<lparr>hb_store := st'\<rparr>))"
| Publish: "hub_step local hb (hb\<lparr>hb_store := publish u p (ring_append now u l ss (hb_store hb))\<rparr>)"

abbreviation hub_run :: "(int \<Rightarrow> int) \<Rightarrow> hub \<Rightarrow> hub \<Rightarrow> bool" where
  "hub_run local \<equiv> (hub_step local)\<^sup>*\<^sup>*"

definition new_hub :: "nat \<Rightarrow> hub" where
  "new_hub n = \<lparr>hb_store = new_ring_store n, hb_focused = None, hb_conns = []\<rparr>"

inductive_cases hub_stepE: "hub_step local hb hb'"

section \<open>No subscription leaks\<close>

text \<open>What one socket holds, as pairs of a well and a queue.\<close>

definition holds :: "ws_conn \<Rightarrow> (string \<times> nat) option" where
  "holds c = (case (wc_well c, wc_queue c) of (Some u, Some q) \<Rightarrow> Some (u, q) | _ \<Rightarrow> None)"

definition conn_ok :: "ws_conn \<Rightarrow> bool" where
  "conn_ok c = ((wc_well c = None) = (wc_queue c = None) \<and> (wc_open c \<or> wc_queue c = None) \<and>
     (wc_drain c = None \<or> wc_drain c = wc_queue c))"

text \<open>The links between sockets and queues, and the queues of the wells: the two sides of the subscriptions.\<close>

definition links :: "hub \<Rightarrow> nat \<Rightarrow> (string \<times> nat) option" where
  "links hb i = (case conn i hb of None \<Rightarrow> None | Some c \<Rightarrow> holds c)"

definition links_ok :: "(nat \<Rightarrow> (string \<times> nat) option) \<Rightarrow> (string \<Rightarrow> nat list) \<Rightarrow> nat \<Rightarrow> bool" where
  "links_ok W S n = ((\<forall>u. distinct (S u)) \<and> (\<forall>u q. q \<in> set (S u) \<longleftrightarrow> (\<exists>i. W i = Some (u, q))) \<and>
     (\<forall>i j u v q. W i = Some (u, q) \<longrightarrow> W j = Some (v, q) \<longrightarrow> i = j) \<and> (\<forall>i u q. W i = Some (u, q) \<longrightarrow> q < n))"

definition hub_inv :: "hub \<Rightarrow> bool" where
  "hub_inv hb = ((\<forall>i c. conn i hb = Some c \<longrightarrow> conn_ok c) \<and>
     links_ok (links hb) (\<lambda>u. subs_of u (hb_store hb)) (rb_next_queue (hb_store hb)))"

lemma links_off:
  assumes "links_ok W S n"
  shows "links_ok (W(i := None)) (\<lambda>v. case W i of None \<Rightarrow> S v | Some (u, q) \<Rightarrow> if v = u then filter (\<lambda>x. x \<noteq> q) (S v) else S v) n"
proof (cases "W i")
  case None
  then have "W(i := None) = W" by auto
  with assms None show ?thesis by simp
next
  case (Some p)
  obtain u q where p: "W i = Some (u, q)" using Some by (cases p) auto
  have own: "W j = Some (v, q) \<longleftrightarrow> j = i \<and> v = u" for j v using assms p unfolding links_ok_def by (metis option.inject prod.inject)
  have m: "x \<in> set (if v = u then filter (\<lambda>x. x \<noteq> q) (S v) else S v) \<longleftrightarrow> (\<exists>j. (W(i := None)) j = Some (v, x))" for v x
  proof -
    have e: "((W(i := None)) j = Some y) = (j \<noteq> i \<and> W j = Some y)" for j y by simp
    have "x \<in> set (S v) \<longleftrightarrow> (\<exists>j. W j = Some (v, x))" using assms unfolding links_ok_def by blast
    moreover have "j \<noteq> i" if "W j = Some (v, x)" "v \<noteq> u \<or> x \<noteq> q" for j using p that by auto
    moreover have "j = i" if "W j = Some (u, q)" for j using own that by simp
    ultimately show ?thesis
    proof (cases "v = u \<and> x = q")
      case True
      then show ?thesis unfolding e using own by simp
    next
      case False
      then have "x \<in> set (if v = u then filter (\<lambda>x. x \<noteq> q) (S v) else S v) \<longleftrightarrow> x \<in> set (S v)" by auto
      also have "\<dots> \<longleftrightarrow> (\<exists>j. j \<noteq> i \<and> W j = Some (v, x))"
        using False \<open>x \<in> set (S v) \<longleftrightarrow> (\<exists>j. W j = Some (v, x))\<close> \<open>\<And>j. W j = Some (v, x) \<Longrightarrow> v \<noteq> u \<or> x \<noteq> q \<Longrightarrow> j \<noteq> i\<close> by blast
      finally show ?thesis unfolding e .
    qed
  qed
  have d: "distinct (if v = u then filter (\<lambda>x. x \<noteq> q) (S v) else S v)" for v using assms by (simp add: links_ok_def)
  have sub: "(W(i := None)) j = Some y \<Longrightarrow> W j = Some y" for j y by (simp split: if_splits)
  have inj: "a = b" if "(W(i := None)) a = Some (v, x)" "(W(i := None)) b = Some (w, x)" for a b v w x
    using assms sub [OF that(1)] sub [OF that(2)] unfolding links_ok_def by blast
  have lt: "x < n" if "(W(i := None)) a = Some (v, x)" for a v x using assms sub [OF that] unfolding links_ok_def by blast
  show ?thesis unfolding links_ok_def p option.case prod.case using d m inj lt by blast
qed

lemma links_on:
  assumes "links_ok W S n" "W i = None"
  shows "links_ok (W(i := Some (u, n))) (\<lambda>v. if v = u then S v @ [n] else S v) (Suc n)"
proof -
  have fresh: "W j \<noteq> Some (v, n)" for j v using assms(1) unfolding links_ok_def by (metis less_irrefl)
  have mem: "x \<in> set (S v) \<longleftrightarrow> (\<exists>j. W j = Some (v, x))" for v x using assms(1) unfolding links_ok_def by blast
  have lt: "W j = Some (v, x) \<Longrightarrow> x < n" for j v x using assms(1) unfolding links_ok_def by blast
  have m: "x \<in> set (if v = u then S v @ [n] else S v) \<longleftrightarrow> (\<exists>j. (W(i := Some (u, n))) j = Some (v, x))" for v x
  proof -
    have e: "((W(i := Some (u, n))) j = Some y) = ((j = i \<and> y = (u, n)) \<or> (j \<noteq> i \<and> W j = Some y))" for j y by auto
    have "W j = Some y \<Longrightarrow> j \<noteq> i" for j y using assms(2) by auto
    then show ?thesis unfolding e using mem [of x v] by auto
  qed
  have d: "distinct (if v = u then S v @ [n] else S v)" for v
    using assms(1) mem [of n v] fresh unfolding links_ok_def by auto
  have old: "j = i \<and> x = n \<or> W j = Some (v, x)" if "(W(i := Some (u, n))) j = Some (v, x)" for j v x
    using that by (simp split: if_splits)
  have inj: "a = b" if "(W(i := Some (u, n))) a = Some (v, x)" "(W(i := Some (u, n))) b = Some (w, x)" for a b v w x
  proof -
    have "W a = Some (v, x) \<Longrightarrow> W b = Some (w, x) \<Longrightarrow> a = b" using assms(1) unfolding links_ok_def by blast
    then show ?thesis using old [OF that(1)] old [OF that(2)] fresh by blast
  qed
  have lt: "x < Suc n" if "(W(i := Some (u, n))) a = Some (v, x)" for a v x using old [OF that] lt by fastforce
  show ?thesis unfolding links_ok_def using d m inj lt by blast
qed

lemma conn_set: "conn j (set_conn i (c, hb)) = (if j = i then Some c else conn j hb)"
  by (simp add: conn_def set_conn_def)

lemma store_set [simp]: "hb_store (set_conn i (c, hb)) = hb_store hb"
  by (simp add: set_conn_def)

lemma conn_store [simp]: "conn j (hb\<lparr>hb_store := st\<rparr>) = conn j hb" "conn j (hb\<lparr>hb_store := st, hb_focused := f\<rparr>) = conn j hb"
  by (simp_all add: conn_def)

lemma subs_unsubscribe: "subs_of v (unsubscribe u q st) = (if v = u then filter (\<lambda>x. x \<noteq> q) (subs_of v st) else subs_of v st)"
  by (auto simp: subs_of_def unsubscribe_def split: option.splits)

lemma subs_subscribe:
  "subs_of v (snd (subscribe u n st)) = (if v = u then subs_of v st @ [rb_next_queue st] else subs_of v st)"
  "fst (subscribe u n st) = rb_next_queue st" "rb_next_queue (snd (subscribe u n st)) = Suc (rb_next_queue st)"
  by (auto simp: subs_of_def subscribe_def Let_def)

lemma next_unsubscribe [simp]: "rb_next_queue (unsubscribe u q st) = rb_next_queue st"
  by (simp add: unsubscribe_def split: option.splits)

text \<open>Changes that concern one socket, by what it held before and holds after.\<close>

definition off :: "(string \<times> nat) option \<Rightarrow> RingBufferStore \<Rightarrow> RingBufferStore" where
  "off h st = (case h of None \<Rightarrow> st | Some (u, q) \<Rightarrow> unsubscribe u q st)"

lemma release_eq: "release c st = (c\<lparr>wc_drain := None, wc_well := None, wc_queue := None\<rparr>, off (holds c) st)"
  by (simp add: release_def stop_drain_def off_def holds_def Let_def split: option.splits)

lemma links_set: "links (set_conn i (c, hb)) = (links hb)(i := holds c)"
  by (rule ext) (simp add: links_def conn_set)

lemma links_store [simp]: "links (hb\<lparr>hb_store := st\<rparr>) = links hb" "links (hb\<lparr>hb_store := st, hb_focused := f\<rparr>) = links hb"
  by (simp_all add: links_def fun_eq_iff)

lemma hub_inv_set:
  assumes "hub_inv hb" "conn_ok c'" "links_ok ((links hb)(i := holds c')) (\<lambda>u. subs_of u st') (rb_next_queue st')"
  shows "hub_inv (set_conn i (c', hb\<lparr>hb_store := st', hb_focused := f\<rparr>))"
  using assms by (auto simp: hub_inv_def conn_set links_set)

lemma hub_inv_off:
  assumes "hub_inv hb" "conn i hb = Some c" "conn_ok c'" "holds c' = None" "st' = off (holds c) (hb_store hb)"
  shows "hub_inv (set_conn i (c', hb\<lparr>hb_store := st', hb_focused := f\<rparr>))"
proof (rule hub_inv_set [OF assms(1,3)])
  have l: "links hb i = holds c" using assms(2) by (simp add: links_def)
  have s: "(\<lambda>u. subs_of u st') = (\<lambda>v. case links hb i of None \<Rightarrow> subs_of v (hb_store hb)
      | Some (u, q) \<Rightarrow> if v = u then filter (\<lambda>x. x \<noteq> q) (subs_of v (hb_store hb)) else subs_of v (hb_store hb))"
    unfolding l assms(5) by (auto simp: off_def subs_unsubscribe fun_eq_iff split: option.splits prod.splits)
  have n: "rb_next_queue st' = rb_next_queue (hb_store hb)" by (simp add: assms(5) off_def split: option.splits prod.splits)
  show "links_ok ((links hb)(i := holds c')) (\<lambda>u. subs_of u st') (rb_next_queue st')"
    unfolding s n assms(4) by (rule links_off) (use assms(1) in \<open>simp add: hub_inv_def\<close>)
qed

lemma hub_inv_same:
  assumes "hub_inv hb" "conn_ok c'" "holds c' = links hb i"
    "\<And>u. subs_of u st' = subs_of u (hb_store hb)" "rb_next_queue st' = rb_next_queue (hb_store hb)"
  shows "hub_inv (set_conn i (c', hb\<lparr>hb_store := st', hb_focused := f\<rparr>))"
proof (rule hub_inv_set [OF assms(1,2)])
  have "(links hb)(i := holds c') = links hb" by (simp add: assms(3))
  then show "links_ok ((links hb)(i := holds c')) (\<lambda>u. subs_of u st') (rb_next_queue st')"
    using assms(1) by (simp add: hub_inv_def assms(4,5))
qed

lemma hub_inv_on:
  assumes inv: "hub_inv hb" and c: "conn i hb = Some c" "holds c = None" and ok: "conn_ok c'"
    and h: "holds c' = Some (u, rb_next_queue (hb_store hb))"
  shows "hub_inv (set_conn i (c', hb\<lparr>hb_store := snd (subscribe u n (hb_store hb)), hb_focused := f\<rparr>))"
proof (rule hub_inv_set [OF inv ok])
  have l: "links hb i = None" using c by (simp add: links_def)
  have "links_ok (links hb) (\<lambda>u. subs_of u (hb_store hb)) (rb_next_queue (hb_store hb))" using inv by (simp add: hub_inv_def)
  from links_on [OF this l]
  show "links_ok ((links hb)(i := holds c')) (\<lambda>v. subs_of v (snd (subscribe u n (hb_store hb)))) (rb_next_queue (snd (subscribe u n (hb_store hb))))"
    by (simp add: h subs_subscribe)
qed

lemma conn_ok_cleared [simp]: "conn_ok (c\<lparr>wc_drain := None, wc_well := None, wc_queue := None\<rparr>)"
  "conn_ok (c\<lparr>wc_open := b, wc_drain := None, wc_well := None, wc_queue := None\<rparr>)"
  by (simp_all add: conn_ok_def)

lemma close_inv:
  assumes "hub_inv hb" "conn i hb = Some c" "close_conn c (hb_store hb) = (c', st')"
  shows "hub_inv (set_conn i (c', hb\<lparr>hb_store := st'\<rparr>))"
proof -
  have e: "c' = c\<lparr>wc_open := False, wc_drain := None, wc_well := None, wc_queue := None\<rparr>" "st' = off (holds c) (hb_store hb)"
    using assms(3) by (auto simp: close_conn_def release_eq Let_def)
  have "hub_inv (set_conn i (c', hb\<lparr>hb_store := st', hb_focused := hb_focused hb\<rparr>))"
    by (rule hub_inv_off [OF assms(1,2)]) (simp_all add: e holds_def)
  then show ?thesis by simp
qed

lemma release_inv:
  assumes "hub_inv hb" "conn i hb = Some c" "release c (hb_store hb) = (c', st')"
  shows "hub_inv (set_conn i (c', hb\<lparr>hb_store := st'\<rparr>))" "holds c' = None" "conn_ok c'" "wc_open c' = wc_open c"
proof -
  have e: "c' = c\<lparr>wc_drain := None, wc_well := None, wc_queue := None\<rparr>" "st' = off (holds c) (hb_store hb)"
    using assms(3) by (auto simp: release_eq)
  have "hub_inv (set_conn i (c', hb\<lparr>hb_store := st', hb_focused := hb_focused hb\<rparr>))"
    by (rule hub_inv_off [OF assms(1,2)]) (simp_all add: e holds_def)
  then show "hub_inv (set_conn i (c', hb\<lparr>hb_store := st'\<rparr>))" by simp
  show "holds c' = None" "conn_ok c'" "wc_open c' = wc_open c" unfolding e by (simp_all add: holds_def)
qed

lemma set_set: "set_conn i (c2, (set_conn i (c1, hb))\<lparr>hb_store := st, hb_focused := f\<rparr>) = set_conn i (c2, hb\<lparr>hb_store := st, hb_focused := f\<rparr>)"
proof -
  have "AList.update i c2 (AList.update i c1 xs) = AList.update i c2 xs" for xs :: "(nat \<times> ws_conn) list"
    by (induction xs) auto
  then show ?thesis by (simp add: set_conn_def)
qed

lemma subscribe_inv:
  assumes "hub_inv hb" "conn i hb = Some c" "wc_open c"
  shows "hub_inv (set_conn i (subscribe_conn local sent u c hb))"
proof -
  obtain c1 st1 where r: "release c (hb_store hb) = (c1, st1)" by (cases "release c (hb_store hb)")
  note R = release_inv [OF assms(1,2) r]
  let ?hb1 = "set_conn i (c1, hb\<lparr>hb_store := st1\<rparr>)"
  let ?q = "rb_next_queue st1"
  obtain st2 where sub: "subscribe u 256 st1 = (?q, st2)" by (metis prod.collapse subs_subscribe(2))
  let ?c2 = "c1\<lparr>wc_well := Some u, wc_queue := Some ?q\<rparr>"
  have d1: "wc_drain c1 = None" using r by (auto simp: release_eq)
  have c1: "conn i ?hb1 = Some c1" "hb_store ?hb1 = st1" by (simp_all add: conn_set)
  have on: "hub_inv (set_conn i (c', hb\<lparr>hb_store := st2, hb_focused := f\<rparr>))"
    if "c' = ?c2\<lparr>wc_sent := fs, wc_drain := dr\<rparr>" "dr = None \<or> dr = Some ?q" for c' fs dr f
  proof -
    have "conn_ok c'" "holds c' = Some (u, ?q)" using that R(4) assms(3) by (auto simp: conn_ok_def holds_def)
    then have "hub_inv (set_conn i (c', ?hb1\<lparr>hb_store := st2, hb_focused := f\<rparr>))"
      using hub_inv_on [OF R(1) c1(1) R(2), where c' = c' and u = u and n = 256 and f = f] c1(2) sub by simp
    then show ?thesis
      using set_set [where i = i and ?c2.0 = c' and ?c1.0 = c1 and hb = "hb\<lparr>hb_store := st1\<rparr>" and st = st2 and f = f] by simp
  qed
  show ?thesis
  proof (cases "sent \<and> (\<exists>f. snapshot_frame local u st2 = Inr f)")
    case True
    then obtain f where f: "snapshot_frame local u st2 = Inr f" by auto
    have "subscribe_conn local sent u c hb = (?c2\<lparr>wc_sent := wc_sent ?c2 @ [f], wc_drain := Some ?q\<rparr>, hb\<lparr>hb_store := st2, hb_focused := Some u\<rparr>)"
      using True f by (simp add: subscribe_conn_def r sub)
    then show ?thesis using on [OF refl] by simp
  next
    case False
    let ?hb2 = "set_conn i (?c2, hb\<lparr>hb_store := st2, hb_focused := hb_focused hb\<rparr>)"
    have c2: "?c2 = ?c2\<lparr>wc_sent := wc_sent c1, wc_drain := None\<rparr>" using d1 by (cases c1) simp
    have i2: "hub_inv ?hb2" by (rule on [OF c2]) simp
    obtain c3 st3 where cl: "close_conn ?c2 st2 = (c3, st3)" by (cases "close_conn ?c2 st2")
    have "hub_inv (set_conn i (c3, ?hb2\<lparr>hb_store := st3\<rparr>))"
      by (rule close_inv [OF i2]) (simp add: conn_set, use cl in simp)
    then have "hub_inv (set_conn i (c3, hb\<lparr>hb_store := st3\<rparr>))"
      using set_set [where i = i and ?c2.0 = c3 and ?c1.0 = ?c2 and hb = "hb\<lparr>hb_store := st2, hb_focused := hb_focused hb\<rparr>"
          and st = st3 and f = "hb_focused hb"]
      by (simp add: set_conn_def)
    moreover have "subscribe_conn local sent u c hb = (c3, hb\<lparr>hb_store := st3\<rparr>)"
      using False cl by (auto simp: subscribe_conn_def r sub Let_def split: sum.splits)
    ultimately show ?thesis by simp
  qed
qed

lemma publish_subs: "subs_of v (publish u p (ring_append now w l ss st)) = subs_of v st"
  "rb_next_queue (publish u p (ring_append now w l ss st)) = rb_next_queue st"
proof -
  have a: "rb_subscribers (fold (push_sample w) ss st) = rb_subscribers st \<and> rb_next_queue (fold (push_sample w) ss st) = rb_next_queue st"
    by (induction ss arbitrary: st) (simp_all add: push_sample_def)
  have o: "rb_next_queue (fold (offer_to p) qs st) = rb_next_queue st" for qs st
    by (induction qs arbitrary: st) (simp_all add: offer_to_def split: option.splits)
  show "subs_of v (publish u p (ring_append now w l ss st)) = subs_of v st"
    "rb_next_queue (publish u p (ring_append now w l ss st)) = rb_next_queue st"
    using a offer_all_rest o by (simp_all add: publish_def subs_of_def ring_append_def)
qed

lemma get_subs: "queue_get q st = Some (p, st') \<Longrightarrow> subs_of v st' = subs_of v st \<and> rb_next_queue st' = rb_next_queue st"
  by (auto simp: queue_get_def subs_of_def split: option.splits list.splits)

lemma hub_step_inv:
  assumes "hub_step local hb hb'" "hub_inv hb"
  shows "hub_inv hb'"
  using assms
proof (induction rule: hub_step.induct)
  case (Connect i hb)
  have "hub_inv (set_conn i (new_conn, hb\<lparr>hb_store := hb_store hb, hb_focused := hb_focused hb\<rparr>))"
    by (rule hub_inv_same [OF Connect.prems]) (use Connect in \<open>simp_all add: new_conn_def conn_ok_def holds_def links_def\<close>)
  then show ?case by simp
next
  case (Message i hb c sent msg)
  have ok: "conn_ok c" using Message unfolding hub_inv_def by blast
  have same: "hub_inv (set_conn i (c', hb))" if "conn_ok c'" "holds c' = holds c" for c'
    using hub_inv_same [OF Message.prems that(1), of i "hb_store hb" "hb_focused hb"] Message(1) that(2) by (simp add: links_def)
  have cl: "hub_inv (set_conn i (case close_conn c (hb_store hb) of (c', st') \<Rightarrow> (c', hb\<lparr>hb_store := st'\<rparr>)))"
    using close_inv [OF Message.prems Message(1)] by (cases "close_conn c (hb_store hb)") simp
  have rl: "hub_inv (set_conn i (case release c (hb_store hb) of (c', st') \<Rightarrow> (c', hb\<lparr>hb_store := st'\<rparr>)))"
    using release_inv(1) [OF Message.prems Message(1)] by (cases "release c (hb_store hb)") simp
  have sb: "hub_inv (set_conn i (subscribe_conn local sent u c hb))" for u
    using Message by (intro subscribe_inv)
  have pg: "hub_inv (set_conn i (c\<lparr>wc_sent := fs\<rparr>, hb))" for fs
    using ok by (intro same) (simp_all add: conn_ok_def holds_def)
  show ?case
    unfolding receive_conn_def Let_def
    using same [OF ok refl] cl rl sb pg by (auto split: ws_message.split option.split)
next
  case (Forward i hb c sent r)
  then obtain q p st' where q: "wc_drain c = Some q" "queue_get q (hb_store hb) = Some (p, st')"
    and r: "r = (if sent then c\<lparr>wc_sent := wc_sent c @ [PayloadFrame p]\<rparr> else c\<lparr>wc_drain := None\<rparr>, hb\<lparr>hb_store := st'\<rparr>)"
    by (auto simp: drain_conn_def split: option.splits)
  have ok: "conn_ok c" using Forward unfolding hub_inv_def by blast
  let ?c = "if sent then c\<lparr>wc_sent := wc_sent c @ [PayloadFrame p]\<rparr> else c\<lparr>wc_drain := None\<rparr>"
  have "hub_inv (set_conn i (?c, hb\<lparr>hb_store := st', hb_focused := hb_focused hb\<rparr>))"
    by (rule hub_inv_same [OF Forward.prems]) (use Forward(1) ok get_subs [OF q(2)] in \<open>auto simp: conn_ok_def holds_def links_def\<close>)
  then show ?case unfolding r by simp
next
  case (Disconnect i hb c c' st')
  then show ?case by (intro close_inv)
next
  case (Publish hb u p now l ss)
  let ?st = "publish u p (ring_append now u l ss (hb_store hb))"
  have "\<forall>i c. conn i hb = Some c \<longrightarrow> conn_ok c"
    and l: "links_ok (links hb) (\<lambda>v. subs_of v (hb_store hb)) (rb_next_queue (hb_store hb))"
    using Publish unfolding hub_inv_def by blast+
  moreover have "links_ok (links hb) (\<lambda>v. subs_of v ?st) (rb_next_queue ?st)"
    unfolding publish_subs by (rule l)
  moreover have "hb_store (hb\<lparr>hb_store := ?st\<rparr>) = ?st" by simp
  ultimately show ?case unfolding hub_inv_def conn_store links_store by presburger
qed

lemma hub_run_inv: "hub_run local (new_hub n) hb \<Longrightarrow> hub_inv hb"
proof (induction rule: rtranclp_induct)
  case base
  have "links (new_hub n) = (\<lambda>i. None)" by (rule ext) (simp add: links_def conn_def new_hub_def)
  moreover have "subs_of u (hb_store (new_hub n)) = []" "conn i (new_hub n) = None" for u i
    by (simp_all add: new_hub_def new_ring_store_def subs_of_def conn_def)
  moreover have "links_ok (\<lambda>i. None) (\<lambda>u. []) k" for k by (simp add: links_ok_def)
  ultimately show ?case by (simp add: hub_inv_def)
next
  case (step hb hb')
  show ?case using hub_step_inv [OF step(2)] step(3) by simp
qed

section \<open>What a subscriber receives\<close>

text \<open>A queue between a publisher and its reader: what was delivered, and the queue after a run of events.\<close>

datatype queue_event = Offer payload | Take

fun queue_run :: "queue_event list \<Rightarrow> payload list \<times> sub_queue \<Rightarrow> payload list \<times> sub_queue" where
  "queue_run [] s = s"
| "queue_run (Offer p # es) (out, q) = queue_run es (out, offer p q)"
| "queue_run (Take # es) (out, q) = (case sq_items q of
     [] \<Rightarrow> queue_run es (out, q) | p # ps \<Rightarrow> queue_run es (out @ [p], q\<lparr>sq_items := ps\<rparr>))"

definition offered :: "queue_event list \<Rightarrow> payload list" where
  "offered es = concat (map (\<lambda>e. case e of Offer p \<Rightarrow> [p] | Take \<Rightarrow> []) es)"

lemma subseq_offer:
  assumes "0 < sq_maxsize q" "length (sq_items q) \<le> sq_maxsize q"
  shows "subseq (sq_items (offer p q)) (sq_items q @ [p])"
proof -
  have "sq_items (offer p q) = lastn (sq_maxsize q) (sq_items q @ [p])"
    using subq.push_items [of q "sq_maxsize q" p] assms by simp
  then show ?thesis using lastn_suffix [of "sq_maxsize q" "sq_items q @ [p]"] by (simp add: suffix_imp_subseq)
qed

lemma queue_run_subseq:
  assumes "0 < sq_maxsize q" "length (sq_items q) \<le> sq_maxsize q" "queue_run es (out, q) = (out', q')"
  shows "\<exists>more. out' = out @ more \<and> subseq (more @ sq_items q') (sq_items q @ offered es)"
  using assms
proof (induction es arbitrary: out q)
  case (Cons e es)
  show ?case
  proof (cases e)
    case (Offer p)
    have m: "0 < sq_maxsize (offer p q)" "length (sq_items (offer p q)) \<le> sq_maxsize (offer p q)"
      using subq.push_valid [of q "sq_maxsize q" p] Cons.prems by auto
    have r: "queue_run es (out, offer p q) = (out', q')" using Cons.prems(3) Offer by simp
    from Cons.IH [OF m r] obtain more where e: "out' = out @ more" and s: "subseq (more @ sq_items q') (sq_items (offer p q) @ offered es)" by auto
    have "subseq (sq_items (offer p q) @ offered es) ((sq_items q @ [p]) @ offered es)"
      by (rule list_emb_append_mono [OF subseq_offer [OF Cons.prems(1,2)]]) simp
    with s have "subseq (more @ sq_items q') (sq_items q @ offered (e # es))"
      by (simp add: Offer offered_def)
    with e show ?thesis by blast
  next
    case Take
    show ?thesis
    proof (cases "sq_items q")
      case Nil
      then show ?thesis using Cons.IH [OF Cons.prems(1,2)] Cons.prems(3) Take by (simp add: offered_def)
    next
      case (Cons p ps)
      let ?q = "q\<lparr>sq_items := ps\<rparr>"
      have m: "0 < sq_maxsize ?q" "length (sq_items ?q) \<le> sq_maxsize ?q" using Cons.prems Cons by simp_all
      have r: "queue_run es (out @ [p], ?q) = (out', q')" using Cons.prems(3) Take Cons by simp
      from Cons.IH [OF m r] obtain more where e: "out' = (out @ [p]) @ more"
        and s: "subseq (more @ sq_items q') (ps @ offered es)" by auto
      then have "out' = out @ (p # more)" "subseq ((p # more) @ sq_items q') (sq_items q @ offered (e # es))"
        by (simp_all add: Take Cons offered_def)
      then show ?thesis by blast
    qed
  qed
qed (simp add: offered_def)

section \<open>Properties\<close>

text \<open>
  C9. Subscriptions never leak. In every state a run of the hub can reach, through any interleaving of
  connects, messages, snapshots or pongs that cannot be sent, forwarding, disconnects and publishing, the
  queues subscribed to a well are exactly the queues of the open sockets that view it, each once, and
  no two sockets share a queue; a closed socket holds none. So each socket has at most one subscription.
\<close>

theorem hub_no_leaked_subscription:
  assumes "hub_run local (new_hub n) hb"
  shows "distinct (subs_of u (hb_store hb)) \<and>
    (q \<in> set (subs_of u (hb_store hb)) \<longleftrightarrow> (\<exists>i c. conn i hb = Some c \<and> wc_open c \<and> wc_well c = Some u \<and> wc_queue c = Some q)) \<and>
    (\<forall>i j c d. conn i hb = Some c \<longrightarrow> conn j hb = Some d \<longrightarrow> wc_queue c = Some q \<longrightarrow> wc_queue d = Some q \<longrightarrow> i = j)"
proof -
  have inv: "hub_inv hb" by (rule hub_run_inv [OF assms])
  have ok: "conn i hb = Some c \<Longrightarrow> conn_ok c" for i c using inv unfolding hub_inv_def by blast
  have h: "holds c = Some (v, x) \<longleftrightarrow> wc_well c = Some v \<and> wc_queue c = Some x" for c v x
    by (simp add: holds_def split: option.splits)
  have op: "wc_open c" if "conn i hb = Some c" "wc_queue c = Some x" for i c x using ok [OF that(1)] that(2) by (simp add: conn_ok_def)
  have wl: "\<exists>v. holds c = Some (v, x)" if "conn i hb = Some c" "wc_queue c = Some x" for i c x
    using ok [OF that(1)] that(2) h by (auto simp: conn_ok_def)
  have l: "links hb i = Some y \<longleftrightarrow> (\<exists>c. conn i hb = Some c \<and> holds c = Some y)" for i y
    by (simp add: links_def split: option.splits)
  have L: "links_ok (links hb) (\<lambda>u. subs_of u (hb_store hb)) (rb_next_queue (hb_store hb))" using inv by (simp add: hub_inv_def)
  have d: "distinct (subs_of u (hb_store hb))" using L by (simp add: links_ok_def)
  have m: "q \<in> set (subs_of u (hb_store hb)) \<longleftrightarrow> (\<exists>i. links hb i = Some (u, q))" using L unfolding links_ok_def by blast
  have inj: "links hb i = Some (v, q) \<Longrightarrow> links hb j = Some (w, q) \<Longrightarrow> i = j" for i j v w using L unfolding links_ok_def by blast
  have "q \<in> set (subs_of u (hb_store hb)) \<longleftrightarrow> (\<exists>i c. conn i hb = Some c \<and> wc_open c \<and> wc_well c = Some u \<and> wc_queue c = Some q)"
    unfolding m l h using op by blast
  moreover have "i = j" if "conn i hb = Some c" "conn j hb = Some e" "wc_queue c = Some q" "wc_queue e = Some q" for i j c e
    using wl [OF that(1,3)] wl [OF that(2,4)] inj l that(1,2) by blast
  ultimately show ?thesis using d by blast
qed

definition ex_hub :: hub where
  "ex_hub = set_conn 0 (receive_conn (\<lambda>t. t) True (Message (Some ''subscribe'') (Some ''W'')) new_conn (set_conn 0 (new_conn, new_hub 5)))"

lemma ex_hub_run: "hub_run (\<lambda>t. t) (new_hub 5) ex_hub"
proof -
  have "conn 0 (new_hub 5) = None" by (simp add: conn_def new_hub_def)
  then have "hub_step (\<lambda>t. t) (new_hub 5) (set_conn 0 (new_conn, new_hub 5))" by (rule hub_step.Connect)
  moreover have "hub_step (\<lambda>t. t) (set_conn 0 (new_conn, new_hub 5)) ex_hub"
    unfolding ex_hub_def by (rule hub_step.Message) (simp_all add: conn_set new_conn_def)
  ultimately show ?thesis by (meson converse_rtranclp_into_rtranclp r_into_rtranclp)
qed

theorem hub_no_leaked_subscription_witness:
  "(\<exists>i c. conn i ex_hub = Some c \<and> wc_open c \<and> wc_well c = Some ''W'' \<and> wc_queue c = Some 0)"
proof -
  have "subs_of ''W'' (hb_store ex_hub) = [0]" by code_simp
  then have "0 \<in> set (subs_of ''W'' (hb_store ex_hub))" by simp
  then show ?thesis using hub_no_leaked_subscription [OF ex_hub_run, of "''W''" 0] by blast
qed

text \<open>
  Live deltas arrive in order and at most once. Whatever the order in which payloads are published
  and forwarded, what a subscriber has received followed by what still waits in its queue is a
  subsequence of what was published since it subscribed: overflow drops the oldest, nothing is
  duplicated or reordered.
\<close>

theorem deliveries_in_order:
  assumes "0 < n" "queue_run es ([], \<lparr>sq_maxsize = n, sq_items = []\<rparr>) = (out, q)"
  shows "subseq (out @ sq_items q) (offered es)"
  using queue_run_subseq [OF _ _ assms(2)] assms(1) by auto

theorem deliveries_in_order_witness:
  "subseq [Data ''b'' [], Data ''c'' []] [Data ''a'' [], Data ''b'' [], Data ''c'' []]"
proof -
  have "subseq ([Data ''b'' [], Data ''c'' []] @ sq_items \<lparr>sq_maxsize = 1, sq_items = []\<rparr>)
      (offered [Offer (Data ''a'' []), Offer (Data ''b'' []), Take, Offer (Data ''c'' []), Take])"
    by (rule deliveries_in_order [of 1]) (simp_all add: offer_def queue_full_def)
  then show ?thesis by (simp add: offered_def)
qed

end
