(* ===== verification/StoreApi.thy ===== *)
theory StoreApi
  imports LogFetch
begin

text \<open>
  \<^verbatim>\<open>backend/app/api/discovery.py\<close> and \<^verbatim>\<open>backend/app/api/store_write.py\<close>: the HTTP endpoints over the
  store. An endpoint is a step that answers or raises; an HTTP error is the exception
  \<^const>\<open>HTTPException\<close> with its status and detail, any other exception is a 500 of the framework. The
  request bodies are records whose fields pydantic has checked; logging has no effect.
\<close>

section \<open>Errors of the gateway\<close>

text \<open>\<^verbatim>\<open>str(exc)\<close> of a \<^verbatim>\<open>WitsmlError\<close>: the trailing colons and blanks are cut.\<close>

definition rstrip_of :: "char set \<Rightarrow> string \<Rightarrow> string" where
  "rstrip_of cs s = rev (dropWhile (\<lambda>c. c \<in> cs) (rev s))"

definition witsml_text :: "int option \<Rightarrow> string \<Rightarrow> string" where
  "witsml_text rc msg = rstrip_of {CHR '':'', CHR '' ''}
     (''WITSML error '' @ (case rc of None \<Rightarrow> ''None'' | Some n \<Rightarrow> show_int n) @ '': '' @ msg)"

definition bad_gateway :: "string \<Rightarrow> exn" where
  "bad_gateway detail = HTTPException 502 detail"

definition bad_request :: "string \<Rightarrow> exn" where
  "bad_request detail = HTTPException 400 detail"

text \<open>The two handlers around every call: an error the store reported, and any other exception.\<close>

definition gateway :: "string \<Rightarrow> string \<Rightarrow> ('a, 's) act \<Rightarrow> ('a, 's) act" where
  "gateway reported unreachable m s = (case m s of
      (Inr v, s') \<Rightarrow> (Inr v, s')
    | (Inl (WitsmlError rc msg), s') \<Rightarrow> (Inl (bad_gateway (reported @ '': '' @ witsml_text rc msg)), s')
    | (Inl e, s') \<Rightarrow> (Inl (bad_gateway (unreachable @ ''.'')), s'))"

definition no_detail :: "string option \<Rightarrow> string" where
  "no_detail supp = or_str supp ''no detail provided by server''"

section \<open>Discovery\<close>

definition api_query :: "'s service \<Rightarrow> string \<Rightarrow> QbeQuery \<Rightarrow> (string, 's) act" where
  "api_query svc what q =
     sbind (gateway (''WITSML store error while fetching '' @ what) (''Failed to reach WITSML store while fetching '' @ what)
       (get_from_store svc (qq_wml_type q) (qq_query_xml q) (qq_options_in q))) (\<lambda>(return_code, xml_out, supp).
     lift_res (case xml_out of
         Some x \<Rightarrow> if is_success (Some return_code) then Inr x
           else Inl (bad_gateway (''WITSML store returned code '' @ show_int return_code @ '' while fetching '' @ what
                  @ '': '' @ no_detail supp))
       | None \<Rightarrow> Inl (bad_gateway (''WITSML store returned code '' @ show_int return_code @ '' while fetching '' @ what
                  @ '': '' @ no_detail supp))))"

definition api_get_version :: "'s service \<Rightarrow> (string, 's) act" where
  "api_get_version svc = gateway ''WITSML store error reading version'' ''Failed to reach WITSML store for version''
     (get_version svc)"

definition api_get_cap :: "lxml \<Rightarrow> 's service \<Rightarrow> (ServerCap, 's) act" where
  "api_get_cap lx svc = gateway ''WITSML store error reading capabilities'' ''Failed to reach WITSML store for capabilities''
     (get_cap lx svc)"

text \<open>A listing builds its query, fetches, and parses what came back.\<close>

definition listing :: "'s service \<Rightarrow> string \<Rightarrow> QbeQuery res \<Rightarrow> (string \<Rightarrow> 'a list res) \<Rightarrow> ('a list, 's) act" where
  "listing svc what query parse = sbind (lift_res query) (\<lambda>q. sbind (api_query svc what q) (\<lambda>xml. lift_res (parse xml)))"

definition list_wells :: "lxml \<Rightarrow> 's service \<Rightarrow> (well list, 's) act" where
  "list_wells lx svc = listing svc ''wells'' (well_query lx None ID_ONLY) (parse_wells lx)"

definition list_wellbores :: "lxml \<Rightarrow> 's service \<Rightarrow> string \<Rightarrow> (wellbore list, 's) act" where
  "list_wellbores lx svc well_uid = listing svc (''wellbores for well '' @ well_uid)
     (wellbore_query lx well_uid None ID_ONLY) (parse_wellbores lx)"

definition list_logs :: "lxml \<Rightarrow> 's service \<Rightarrow> string \<Rightarrow> string \<Rightarrow> (log_header list, 's) act" where
  "list_logs lx svc well_uid wellbore_uid = listing svc (''logs for wellbore '' @ wellbore_uid)
     (log_header_query lx well_uid wellbore_uid None) (parse_log_headers lx)"

definition list_mudlogs :: "lxml \<Rightarrow> 's service \<Rightarrow> string \<Rightarrow> string \<Rightarrow> (mud_log list, 's) act" where
  "list_mudlogs lx svc well_uid wellbore_uid = listing svc (''mudLogs for wellbore '' @ wellbore_uid)
     (mudlog_query lx well_uid wellbore_uid None None None ''m'' ANY_PART) (parse_mudlogs lx)"

text \<open>The wellbores of one well of the tree: an HTTP error leaves the well without children.\<close>

fun tree_wells :: "lxml \<Rightarrow> 's service \<Rightarrow> well list \<Rightarrow> (well list, 's) act" where
  "tree_wells lx svc [] s = (Inr [], s)"
| "tree_wells lx svc (wl # wls) s =
     (case list_wellbores lx svc (w_uid wl) s of
        (Inr wbs, s') \<Rightarrow> sbind (tree_wells lx svc wls) (\<lambda>ws. lift_res (Inr (wl\<lparr>w_wellbores := wbs\<rparr> # ws))) s'
      | (Inl (HTTPException c d), s') \<Rightarrow>
          sbind (tree_wells lx svc wls) (\<lambda>ws. lift_res (Inr (wl\<lparr>w_wellbores := []\<rparr> # ws))) s'
      | (Inl e, s') \<Rightarrow> (Inl e, s'))"

definition get_tree :: "lxml \<Rightarrow> 's service \<Rightarrow> (well list, 's) act" where
  "get_tree lx svc = sbind (list_wells lx svc) (tree_wells lx svc)"

section \<open>Request bodies\<close>

record WellBody =
  wlb_uid :: string
  wlb_name :: "string option"
  wlb_field :: "string option"
  wlb_region :: "string option"
  wlb_country :: "string option"
  wlb_operator :: "string option"
  wlb_time_zone :: "string option"
  wlb_status_well :: "string option"

record WellboreBody =
  wbb_uid :: string
  wbb_uid_well :: string
  wbb_name :: "string option"
  wbb_name_well :: "string option"
  wbb_status_wellbore :: "string option"

record CurveBody =
  cvb_mnemonic :: string
  cvb_unit :: "string option"
  cvb_curve_description :: "string option"
  cvb_type_log_data :: "string option"

record LogBody =
  lgb_uid :: string
  lgb_uid_well :: string
  lgb_uid_wellbore :: string
  lgb_name :: "string option"
  lgb_name_well :: "string option"
  lgb_name_wellbore :: "string option"
  lgb_index_type :: string
  lgb_index_curve :: "string option"
  lgb_direction :: string
  lgb_null_value :: "string option"
  lgb_index_uom :: "string option"
  lgb_curves :: "CurveBody list"

section \<open>Builders\<close>

text \<open>\<^verbatim>\<open>if v is not None: _sub(parent, tag, v)\<close>.\<close>

definition given :: "string \<Rightarrow> string option \<Rightarrow> node list" where
  "given tag v = (case v of None \<Rightarrow> [] | Some t \<Rightarrow> [leaf tag t])"

definition well_tree :: "WellBody \<Rightarrow> node" where
  "well_tree b = new_root ''wells'' [el ''well'' [(''uid'', wlb_uid b)] None
     (given ''name'' (wlb_name b) @ given ''field'' (wlb_field b) @ given ''region'' (wlb_region b)
      @ given ''country'' (wlb_country b) @ given ''operator'' (wlb_operator b)
      @ given ''timeZone'' (wlb_time_zone b) @ given ''statusWell'' (wlb_status_well b))]"

definition wellbore_tree :: "WellboreBody \<Rightarrow> node" where
  "wellbore_tree b = new_root ''wellbores'' [el ''wellbore'' [(''uid'', wbb_uid b), (''uidWell'', wbb_uid_well b)] None
     (given ''nameWell'' (wbb_name_well b) @ given ''name'' (wbb_name b)
      @ given ''statusWellbore'' (wbb_status_wellbore b))]"

definition curve_tree :: "CurveBody \<Rightarrow> node" where
  "curve_tree c = el ''logCurveInfo'' [(''uid'', cvb_mnemonic c)] None
     ([leaf ''mnemonic'' (cvb_mnemonic c)] @ given ''unit'' (cvb_unit c)
      @ given ''curveDescription'' (cvb_curve_description c) @ given ''typeLogData'' (cvb_type_log_data c))"

definition default_index_curve :: "LogBody \<Rightarrow> string option" where
  "default_index_curve b = (case or_none (lgb_index_curve b) of Some c \<Rightarrow> Some c
     | None \<Rightarrow> (case lgb_curves b of [] \<Rightarrow> None | c # cs \<Rightarrow> Some (cvb_mnemonic c)))"

definition log_tree :: "LogBody \<Rightarrow> node" where
  "log_tree b = new_root ''logs'' [el ''log''
     [(''uid'', lgb_uid b), (''uidWell'', lgb_uid_well b), (''uidWellbore'', lgb_uid_wellbore b)] None
     (given ''nameWell'' (lgb_name_well b) @ given ''nameWellbore'' (lgb_name_wellbore b) @ given ''name'' (lgb_name b)
      @ [leaf ''indexType'' (lgb_index_type b)] @ given ''indexCurve'' (default_index_curve b)
      @ [leaf ''direction'' (lgb_direction b)] @ given ''nullValue'' (lgb_null_value b) @ map curve_tree (lgb_curves b))]"

definition build_well_xml :: "lxml \<Rightarrow> WellBody \<Rightarrow> string res" where
  "build_well_xml lx b = serialize lx (well_tree b)"

definition build_wellbore_xml :: "lxml \<Rightarrow> WellboreBody \<Rightarrow> string res" where
  "build_wellbore_xml lx b = serialize lx (wellbore_tree b)"

definition build_log_xml :: "lxml \<Rightarrow> LogBody \<Rightarrow> string res" where
  "build_log_xml lx b = serialize lx (log_tree b)"

section \<open>Writes\<close>

text \<open>The answer of a write: \<^verbatim>\<open>returnCode\<close> and \<^verbatim>\<open>message\<close>.\<close>

definition write_result :: "string \<Rightarrow> int \<times> string option \<Rightarrow> (int \<times> string) res" where
  "write_result what r = (case r of (return_code, supp) \<Rightarrow>
     if is_success (Some return_code) then Inr (return_code, or_str supp '''')
     else Inl (bad_request (''WITSML store returned code '' @ show_int return_code @ '' on '' @ what @ '': '' @ no_detail supp)))"

definition api_add :: "'s service \<Rightarrow> string \<Rightarrow> string \<Rightarrow> string \<Rightarrow> (int \<times> string, 's) act" where
  "api_add svc wml_type xml_in what =
     sbind (gateway (''WITSML store error while adding '' @ what) (''Failed to reach WITSML store while adding '' @ what)
       (add_to_store svc wml_type xml_in '''')) (\<lambda>r. lift_res (write_result (''add '' @ what) r))"

definition api_update :: "'s service \<Rightarrow> string \<Rightarrow> string \<Rightarrow> string \<Rightarrow> (int \<times> string, 's) act" where
  "api_update svc wml_type xml_in what =
     sbind (gateway (''WITSML store error while updating '' @ what) (''Failed to reach WITSML store while updating '' @ what)
       (update_in_store svc wml_type xml_in '''')) (\<lambda>r. lift_res (write_result (''update '' @ what) r))"

definition post_add :: "'s service \<Rightarrow> string \<Rightarrow> string \<Rightarrow> (int \<times> string, 's) act" where
  "post_add svc wml_type xml = api_add svc wml_type xml wml_type"

definition post_update :: "'s service \<Rightarrow> string \<Rightarrow> string \<Rightarrow> (int \<times> string, 's) act" where
  "post_update svc wml_type xml = api_update svc wml_type xml wml_type"

definition post_well :: "lxml \<Rightarrow> 's service \<Rightarrow> WellBody \<Rightarrow> (int \<times> string, 's) act" where
  "post_well lx svc b = sbind (lift_res (build_well_xml lx b)) (\<lambda>x. api_add svc ''well'' x ''well'')"

definition post_wellbore :: "lxml \<Rightarrow> 's service \<Rightarrow> WellboreBody \<Rightarrow> (int \<times> string, 's) act" where
  "post_wellbore lx svc b = sbind (lift_res (build_wellbore_xml lx b)) (\<lambda>x. api_add svc ''wellbore'' x ''wellbore'')"

definition post_log :: "lxml \<Rightarrow> 's service \<Rightarrow> LogBody \<Rightarrow> (int \<times> string, 's) act" where
  "post_log lx svc b = sbind (lift_res (build_log_xml lx b)) (\<lambda>x. api_add svc ''log'' x ''log'')"

section \<open>What a listing answers\<close>

text \<open>A text as it is read back: stripped, and no text when nothing is left.\<close>

definition tidy :: "string option \<Rightarrow> string option" where
  "tidy v = (case v of None \<Rightarrow> None | Some t \<Rightarrow> or_none (Some (strip t)))"

definition listed_well :: "WellBody \<Rightarrow> well" where
  "listed_well b = \<lparr>w_uid = wlb_uid b, w_name = tidy (wlb_name b), w_region = tidy (wlb_region b),
     w_field = tidy (wlb_field b), w_country = tidy (wlb_country b), w_operator = tidy (wlb_operator b),
     w_status = tidy (wlb_status_well b), w_time_zone = tidy (wlb_time_zone b), w_wellbores = []\<rparr>"

definition listed_wellbore :: "WellboreBody \<Rightarrow> wellbore" where
  "listed_wellbore b = \<lparr>wb_uid = wbb_uid b, wb_uid_well = wbb_uid_well b, wb_name = tidy (wbb_name b),
     wb_name_well = tidy (wbb_name_well b), wb_status = tidy (wbb_status_wellbore b), wb_parent_uid = None\<rparr>"

lemma tidy_simps [simp]: "tidy None = None" "tidy (Some t) = or_none (Some (strip t))"
  by (simp_all add: tidy_def)

lemma tidy_idem [simp]: "tidy (tidy v) = tidy v"
  by (cases v) (auto simp: or_none_def)

lemma given_simps [simp]:
  "find_first (has_local x) (given tag v @ ks) = (if x = tag \<and> v \<noteq> None then Some (leaf tag (the v)) else find_first (has_local x) ks)"
  "find_first (has_local x) (given tag v) = (if x = tag \<and> v \<noteq> None then Some (leaf tag (the v)) else None)"
  by (auto simp: given_def split: option.splits)

lemma xml_text_tidy: "xml_text n x = tidy (case xml_first n x of None \<Rightarrow> None | Some m \<Rightarrow> node_text m)"
  by (simp add: xml_text_def tidy_def split: option.splits)

lemma listing_store:
  assumes "query = Inr q" "store_query lx (qq_wml_type q) (qq_query_xml q) (Some (qq_options_in q)) s = Inr (1, x, supp)"
  shows "listing (store_service lx) what query parse s = (parse x, s)"
  using assms by (simp add: listing_def api_query_def gateway_def sbind_def lift_res_def get_from_store_service is_success_def)

text \<open>The listing that succeeded shows what the store answered.\<close>

lemma listing_storeD:
  assumes "listing (store_service lx) what query parse s = (Inr r, s')"
  obtains q rc x supp where "query = Inr q" "0 < rc"
    "store_query lx (qq_wml_type q) (qq_query_xml q) (Some (qq_options_in q)) s = Inr (rc, x, supp)" "parse x = Inr r" "s' = s"
proof -
  obtain q where q: "query = Inr q" using assms by (cases query) (auto simp: listing_def sbind_def lift_res_def)
  show ?thesis
  proof (cases "store_query lx (qq_wml_type q) (qq_query_xml q) (Some (qq_options_in q)) s")
    case (Inl e)
    then have "get_from_store (store_service lx) (qq_wml_type q) (qq_query_xml q) (qq_options_in q) s = (Inl e, s)"
      by (simp add: get_from_store_def sbind_def store_service_def)
    with assms q show ?thesis
      by (cases e) (simp_all add: listing_def api_query_def gateway_def sbind_def lift_res_def)
  next
    case (Inr t)
    then obtain rc x supp where t: "t = (rc, x, supp)" by (cases t)
    with Inr assms q show ?thesis
      by (intro that [of q rc x supp])
        (auto simp: listing_def api_query_def gateway_def sbind_def lift_res_def get_from_store_service is_success_def
          split: if_splits)
  qed
qed

text \<open>Reading a document that a store serialised.\<close>

lemma xml_descendants_root:
  "plural \<noteq> tag \<Longrightarrow> xml_descendants (new_root plural els) tag = concat (map (\<lambda>e. xml_descendants e tag) els)"
  by (simp add: xml_descendants_def new_root_def filter_concat o_def)

lemma xml_legal_root: "xml_legal (new_root plural els) = list_all xml_legal els"
  by (simp add: new_root_def WITSML_VERSION_def legal_char_def)

lemma read_well_norm: "read_well (xml_norm n) = read_well n"
  and read_wellbore_norm: "read_wellbore (xml_norm n) = read_wellbore n"
  by (simp_all add: read_well_def read_wellbore_def)

lemma parse_written:
  assumes "xml_codec lx" "serialize lx (new_root plural els) = Inr x" "plural \<noteq> tag"
  shows "to_tree lx x = Inr (xml_norm (new_root plural els))"
    and "xml_descendants (xml_norm (new_root plural els)) tag =
      map xml_norm (concat (map (\<lambda>e. xml_descendants e tag) els))"
  using serialize_parse [OF assms(1,2)] assms(3) by (simp_all add: to_tree_def xml_descendants_norm xml_descendants_root)

lemma parse_wells_written:
  assumes "xml_codec lx" "serialize lx (new_root ''wells'' els) = Inr x"
  shows "parse_wells lx x = Inr (concat (map (\<lambda>e. map read_well (xml_descendants e ''well'')) els))"
  using parse_written [OF assms, of "''well''"] by (simp add: parse_wells_def o_def read_well_norm map_concat)

lemma parse_wellbores_written:
  assumes "xml_codec lx" "serialize lx (new_root ''wellbores'' els) = Inr x"
  shows "parse_wellbores lx x = Inr (concat (map (\<lambda>e. map read_wellbore (xml_descendants e ''wellbore'')) els))"
  using parse_written [OF assms, of "''wellbore''"] by (simp add: parse_wellbores_def o_def read_wellbore_norm map_concat)

lemma clone_stored:
  assumes "xml_codec lx" "xml_legal n"
  shows "clone lx (xml_norm n) = Inr (xml_norm n)"
  using assms by (simp add: clone_def xml_codec_def)

lemma legal_given [simp]: "list_all xml_legal (given tag v) = (case v of None \<Rightarrow> True | Some t \<Rightarrow> list_all legal_char t)"
  by (simp add: given_def split: option.splits)

lemma map_norm_given: "concat (map xml_iter (map xml_norm (given tag v))) = map xml_norm (given tag v)"
  by (simp add: given_def leaf_def split: option.splits)

section \<open>Wells\<close>

definition legal_well :: "WellBody \<Rightarrow> bool" where
  "legal_well b = xml_legal (well_tree b)"

definition well_element :: "WellBody \<Rightarrow> node" where
  "well_element b = xml_norm (hd (kids (well_tree b)))"

lemma well_element_reads:
  "attr_get (well_element b) ''uid'' = Some (wlb_uid b)" "read_well (well_element b) = listed_well b"
  "xml_descendants (well_element b) ''well'' = [well_element b]"
proof -
  show "attr_get (well_element b) ''uid'' = Some (wlb_uid b)" by (simp add: well_element_def well_tree_def new_root_def)
  show "read_well (well_element b) = listed_well b"
    by (simp add: well_element_def well_tree_def new_root_def read_well_norm del: xml_norm_el)
       (simp add: read_well_def listed_well_def xml_text_tidy xml_first_def tidy_def)
  have "filter (has_local ''well'') (given tag v) = []" if "tag \<noteq> ''well''" for tag v
    using that by (simp add: given_def split: option.splits)
  then show "xml_descendants (well_element b) ''well'' = [well_element b]"
    by (simp add: well_element_def well_tree_def new_root_def xml_descendants_norm del: xml_norm_el)
       (simp add: xml_descendants_def given_def leaf_def split: option.splits)
qed

lemma post_answer:
  assumes "add_object lx ty x s = ((rc, supp), s')" "0 < rc" "supp = None"
  shows "api_add (store_service lx) ty x what s = (Inr (rc, ''''), s')"
  using assms by (simp add: api_add_def gateway_def add_to_store_def store_service_def sbind_def lift_res_def pair_response_def
      result_pair_def part_or_def part_def supp_part_def write_result_def is_success_def or_str_def)

lemma post_refused:
  assumes "\<not> 0 < fst (fst (add_object lx ty x s))"
  shows "\<exists>d. api_add (store_service lx) ty x what s = (Inl (HTTPException 400 d), snd (add_object lx ty x s))"
  using assms by (cases "add_object lx ty x s") (simp add: api_add_def gateway_def add_to_store_def store_service_def sbind_def lift_res_def pair_response_def
      result_pair_def part_or_def part_def supp_part_def write_result_def is_success_def bad_request_def)

lemma well_added:
  assumes "xml_codec lx" "legal_well b" "wlb_uid b \<noteq> []"
  obtains x where "build_well_xml lx b = Inr x"
    "\<And>s. add_object lx ''well'' x s =
      (if map_of (ms_wells s) (wlb_uid b) \<noteq> None
       then ((RC_ERROR_DUPLICATE, Some (''well uid '' @ [CHR 0x27] @ wlb_uid b @ [CHR 0x27] @ '' already exists'')), s)
       else ((RC_SUCCESS, None), s\<lparr>ms_wells := AList.update (wlb_uid b)
          \<lparr>sw_uid = wlb_uid b, sw_element = well_element b\<rparr> (ms_wells s)\<rparr>))"
proof -
  let ?x = "lx_tostring lx (well_tree b)"
  have x: "build_well_xml lx b = Inr ?x" using assms(2) by (simp add: build_well_xml_def serialize_def legal_well_def)
  have r: "lx_recover lx ?x = Inr (Some (xml_norm (well_tree b)))"
    using serialize_parse [OF assms(1) x [unfolded build_well_xml_def]] by simp
  have f: "root_or_first (xml_norm (well_tree b)) ''well'' = Some (well_element b)"
    by (simp add: root_or_first_def well_tree_def new_root_def xml_first_def well_element_def)
  have t: "lower (strip ''well'') = ''well''" by code_simp
  show ?thesis
    by (rule that [OF x])
       (use assms(3) in \<open>simp add: add_object_def t r f add_well_def well_element_reads or_str_def Let_def\<close>)
qed

lemma wells_query_served:
  assumes "xml_codec lx"
  obtains q where "well_query lx None ID_ONLY = Inr q"
    "\<And>s. store_query lx (qq_wml_type q) (qq_query_xml q) (Some (qq_options_in q)) s =
       rbind (rmap (\<lambda>w. clone lx (sw_element w)) (map snd (ms_wells s))) (\<lambda>els.
       rbind (serialize lx (new_root ''wells'' els)) (\<lambda>x. Inr (RC_SUCCESS, x, None)))"
proof -
  let ?ks = "map marker [''name'', ''field'', ''region'', ''country'', ''operator'', ''statusWell'', ''timeZone'']"
  let ?t = "new_root ''wells'' [el ''well'' [] None ?ks]"
  have l: "xml_legal ?t" by (simp add: xml_legal_root)
  have t: "lower (strip ''well'') = ''well''" by code_simp
  have r: "lx_recover lx (lx_tostring lx ?t) = Inr (Some (xml_norm ?t))" using assms l by (simp add: xml_codec_def)
  have f: "xml_first ?t ''well'' = Some (el ''well'' [] None ?ks)"
    by (simp add: new_root_def xml_first_def)
  show ?thesis
  proof (rule that)
    show "well_query lx None ID_ONLY = Inr \<lparr>qq_wml_type = ''well'', qq_query_xml = lx_tostring lx ?t,
        qq_options_in = options_in [(OPT_RETURN_ELEMENTS, OvStr (re_value ID_ONLY))]\<rparr>"
      using l by (simp add: well_query_def qbe_def serialize_def or_none_def)
  qed (simp add: store_query_def t r query_wells_def f wanted_def or_none_def Let_def del: list.map)
qed

text \<open>The listing after a well of this body has been appended.\<close>

lemma wells_listed_after:
  assumes lx: "xml_codec lx" and b: "legal_well b" and listed: "list_wells lx (store_service lx) s = (Inr ws, s)"
    and w: "sw_element w = well_element b"
  shows "list_wells lx (store_service lx) (s\<lparr>ms_wells := ms_wells s @ [(u, w)]\<rparr>) =
    (Inr (ws @ [listed_well b]), s\<lparr>ms_wells := ms_wells s @ [(u, w)]\<rparr>)" (is "_ = (_, ?s)")
proof -
  obtain q where q: "well_query lx None ID_ONLY = Inr q"
    and served: "\<And>s. store_query lx (qq_wml_type q) (qq_query_xml q) (Some (qq_options_in q)) s =
       rbind (rmap (\<lambda>w. clone lx (sw_element w)) (map snd (ms_wells s))) (\<lambda>els.
       rbind (serialize lx (new_root ''wells'' els)) (\<lambda>x. Inr (RC_SUCCESS, x, None)))"
    using wells_query_served [OF lx] by blast
  obtain els x0 where els: "rmap (\<lambda>w. clone lx (sw_element w)) (map snd (ms_wells s)) = Inr els"
    and x0: "serialize lx (new_root ''wells'' els) = Inr x0" "parse_wells lx x0 = Inr ws"
    using listed unfolding list_wells_def by (elim listing_storeD) (auto simp: q served rbind_eq_Inr)
  have n: "clone lx (well_element b) = Inr (well_element b)" "xml_legal (well_element b)"
    using b clone_stored [OF lx]
    by (auto simp: well_element_def legal_well_def well_tree_def xml_legal_root simp del: xml_norm_el xml_legal_el)
       (simp_all add: new_root_def del: xml_norm_el xml_legal_el)
  have "rmap (\<lambda>w. clone lx (sw_element w)) (map snd (ms_wells ?s)) = Inr (els @ [well_element b])"
    using els n(1) w by (simp add: rmap_append)
  moreover obtain x1 where x1: "serialize lx (new_root ''wells'' (els @ [well_element b])) = Inr x1"
    using x0(1) n(2) by (simp add: serialize_def xml_legal_root split: if_splits)
  moreover have "parse_wells lx x1 = Inr (ws @ [listed_well b])"
    using parse_wells_written [OF lx x1] parse_wells_written [OF lx x0(1)] x0(2)
    by (simp add: well_element_reads)
  ultimately show ?thesis
    unfolding list_wells_def by (subst listing_store [OF q]) (simp_all add: served RC_SUCCESS_def)
qed

section \<open>The tree\<close>

abbreviation childless :: "well \<Rightarrow> well" where
  "childless wl \<equiv> wl\<lparr>w_wellbores := []\<rparr>"

lemma tree_wells_outcome:
  "(\<exists>ws. fst (tree_wells lx svc wls s) = Inr ws \<and> map childless ws = map childless wls) \<or>
   (\<exists>e. fst (tree_wells lx svc wls s) = Inl e \<and> (\<forall>c d. e \<noteq> HTTPException c d))"
proof (induction wls arbitrary: s)
  case (Cons wl wls)
  obtain r s1 where r: "list_wellbores lx svc (w_uid wl) s = (r, s1)" by (cases "list_wellbores lx svc (w_uid wl) s")
  obtain r2 s2 where r2: "tree_wells lx svc wls s1 = (r2, s2)" by (cases "tree_wells lx svc wls s1")
  show ?case
    using Cons.IH [of s1] r r2
    by (cases r; cases r2) (auto simp: sbind_def lift_res_def split: exn.splits)
qed simp

section \<open>Properties\<close>

text \<open>
  C25. A well that is posted to the store is listed: the post answers with code 1, the next listing of
  the wells is the previous one with the well at the end, its fields stripped and blank fields absent,
  and posting a well of the same uid again is refused with 400 and changes nothing.
\<close>

theorem posted_well_listed:
  assumes "xml_codec lx" "legal_well b" "wlb_uid b \<noteq> []" "map_of (ms_wells s) (wlb_uid b) = None"
    and "list_wells lx (store_service lx) s = (Inr ws, s)"
  shows "\<exists>s'. post_well lx (store_service lx) b s = (Inr (1, ''''), s') \<and>
    list_wells lx (store_service lx) s' = (Inr (ws @ [listed_well b]), s') \<and>
    (\<forall>b'. legal_well b' \<and> wlb_uid b' = wlb_uid b \<longrightarrow>
      (\<exists>d. post_well lx (store_service lx) b' s' = (Inl (HTTPException 400 d), s')))"
proof -
  let ?svc = "store_service lx"
  let ?s = "s\<lparr>ms_wells := ms_wells s @ [(wlb_uid b, \<lparr>sw_uid = wlb_uid b, sw_element = well_element b\<rparr>)]\<rparr>"
  have fresh: "AList.update (wlb_uid b) w (ms_wells s) = ms_wells s @ [(wlb_uid b, w)]" for w
    using assms(4) by (intro update_fresh) (simp add: map_of_eq_None_iff)
  obtain x where "build_well_xml lx b = Inr x" "add_object lx ''well'' x s = ((RC_SUCCESS, None), ?s)"
    by (rule well_added [OF assms(1-3)]) (simp add: assms(4) fresh)
  then have "post_well lx ?svc b s = (Inr (1, ''''), ?s)"
    using post_answer by (simp add: post_well_def RC_SUCCESS_def)
  moreover have "list_wells lx ?svc ?s = (Inr (ws @ [listed_well b]), ?s)"
    by (rule wells_listed_after [OF assms(1,2,5)]) simp
  moreover have "\<exists>d. post_well lx ?svc b' ?s = (Inl (HTTPException 400 d), ?s)"
    if b': "legal_well b' \<and> wlb_uid b' = wlb_uid b" for b'
  proof -
    from b' have l: "legal_well b'" "wlb_uid b' \<noteq> []" using assms(3) by auto
    obtain x' where "build_well_xml lx b' = Inr x'" "fst (fst (add_object lx ''well'' x' ?s)) = RC_ERROR_DUPLICATE"
      "snd (add_object lx ''well'' x' ?s) = ?s"
      by (rule well_added [OF assms(1) l]) (use b' assms(4) in \<open>simp add: map_of_append\<close>)
    then show ?thesis
      using post_refused [of lx "''well''" x' ?s "''well''"] by (simp add: post_well_def RC_ERROR_DUPLICATE_def)
  qed
  ultimately show ?thesis by blast
qed

definition ex_well_body :: WellBody where
  "ex_well_body = \<lparr>wlb_uid = ''W1'', wlb_name = Some '' Alpha '', wlb_field = None, wlb_region = Some '''',
     wlb_country = None, wlb_operator = None, wlb_time_zone = None, wlb_status_well = Some ''active''\<rparr>"

lemma ex_no_wells: "list_wells ref_lxml (store_service ref_lxml) new_store = (Inr [], new_store)"
proof -
  have x: "serialize ref_lxml (new_root ''wells'' []) = Inr (lx_tostring ref_lxml (new_root ''wells'' []))"
    by (simp add: serialize_def xml_legal_root)
  from parse_wells_written [OF ref_lxml_codec x] show ?thesis
    unfolding list_wells_def
    by (rule_tac wells_query_served [OF ref_lxml_codec]) (simp add: listing_store x new_store_def RC_SUCCESS_def)
qed

theorem posted_well_listed_witness:
  "\<exists>s'. post_well ref_lxml (store_service ref_lxml) ex_well_body new_store = (Inr (1, ''''), s') \<and>
    list_wells ref_lxml (store_service ref_lxml) s' = (Inr [listed_well ex_well_body], s')"
proof -
  have "legal_well ex_well_body" "wlb_uid ex_well_body \<noteq> []" "map_of (ms_wells new_store) (wlb_uid ex_well_body) = None"
    by code_simp+
  from posted_well_listed [OF ref_lxml_codec this] ex_no_wells show ?thesis by auto
qed

text \<open>
  C26. Once the wells are listed, the tree is never refused with an HTTP error: it holds exactly the
  listed wells in their order, whatever the store answers about their wellbores, or an exception that
  is not an HTTP error (a document the parser rejects) ends it.
\<close>

theorem tree_survives_bad_wells:
  assumes "list_wells lx svc s = (Inr wls, s1)"
  shows "(\<exists>ws. fst (get_tree lx svc s) = Inr ws \<and> map childless ws = map childless wls) \<or>
    (\<exists>e. fst (get_tree lx svc s) = Inl e \<and> (\<forall>c d. e \<noteq> HTTPException c d))"
  using assms tree_wells_outcome [of lx svc wls s1] by (simp add: get_tree_def)

text \<open>A store that lists two wells and does not answer about wellbores.\<close>

definition ex_tree_service :: "unit service" where
  "ex_tree_service = \<lparr>svc_get_version = (\<lambda>s. (Inl TransportError, s)), svc_get_cap = (\<lambda>o' s. (Inl TransportError, s)),
     svc_get_from_store = (\<lambda>ty q o' cap s.
     (if ty = ''well'' then Inr (RObj [(''Result'', OInt 1), (''XMLout'', OStr (put_node (new_root ''wells''
        [el ''well'' [(''uid'', ''A'')] None [], el ''well'' [(''uid'', ''B'')] None []])))])
      else Inl TransportError, s)),
     svc_add_to_store = (\<lambda>ty x o' s. (Inl TransportError, s)), svc_update_in_store = (\<lambda>ty x o' s. (Inl TransportError, s)),
     svc_delete_from_store = (\<lambda>ty q o' s. (Inl TransportError, s)), svc_get_base_msg = (\<lambda>i s. (Inl TransportError, s)),
     svc_str = (\<lambda>r. '''')\<rparr>"

definition bare_well :: "string \<Rightarrow> well" where
  "bare_well u = \<lparr>w_uid = u, w_name = None, w_region = None, w_field = None, w_country = None, w_operator = None,
     w_status = None, w_time_zone = None, w_wellbores = []\<rparr>"

lemma ex_tree_wells: "list_wells ref_lxml ex_tree_service () = (Inr [bare_well ''A'', bare_well ''B''], ())"
proof -
  let ?els = "[el ''well'' [(''uid'', ''A'')] None [], el ''well'' [(''uid'', ''B'')] None []]"
  have x: "serialize ref_lxml (new_root ''wells'' ?els) = Inr (put_node (new_root ''wells'' ?els))"
    by (simp add: serialize_def xml_legal_root legal_char_def ref_lxml_def)
  have "parse_wells ref_lxml (put_node (new_root ''wells'' ?els)) = Inr [bare_well ''A'', bare_well ''B'']"
    using parse_wells_written [OF ref_lxml_codec x] by (simp add: xml_descendants_def read_well_def bare_well_def xml_text_tidy xml_first_def)
  then show ?thesis
    by (simp add: list_wells_def listing_def well_query_def qbe_def serialize_def xml_legal_root lift_res_def sbind_def api_query_def
        gateway_def get_from_store_def ex_tree_service_def result_triple_def part_def is_success_def or_none_def)
qed

theorem tree_survives_bad_wells_witness:
  "\<exists>ws. fst (get_tree ref_lxml ex_tree_service ()) = Inr ws \<and> map childless ws = [bare_well ''A'', bare_well ''B'']"
proof -
  have "list_wellbores ref_lxml ex_tree_service u () = (Inl (bad_gateway (''Failed to reach WITSML store while fetching '' @
      ''wellbores for well '' @ u @ ''.'')), ())" if "list_all legal_char u" for u
    using that by (simp add: list_wellbores_def listing_def wellbore_query_def qbe_def serialize_def xml_legal_root lift_res_def
        sbind_def api_query_def gateway_def get_from_store_def ex_tree_service_def or_none_def)
  then have "fst (get_tree ref_lxml ex_tree_service ()) = Inr [bare_well ''A'', bare_well ''B'']"
    by (simp add: get_tree_def ex_tree_wells sbind_def lift_res_def bare_well_def legal_char_def bad_gateway_def)
  then show ?thesis using tree_survives_bad_wells [OF ex_tree_wells] by (simp add: bare_well_def)
qed

end
