(* ===== verification/CurvesApi.thy ===== *)
theory CurvesApi
  imports Scheduler "HOL-Library.Product_Lexorder"
begin

text \<open>
  \<^verbatim>\<open>backend/app/api/curves.py\<close>: the read side of the ingestion. Three endpoints read the warm store, the
  history reads the sample table. The database is a parameter: how it compares a column with a bound,
  how it orders rows and what a stored datetime reads back as. FastAPI has checked the limits
  (at least 1, for the history at most 200000) before a handler runs.
\<close>

section \<open>Parameters of a request\<close>

text \<open>A text is true when it is not empty; an empty list is answered as None.\<close>

definition split_mnemonics :: "string option \<Rightarrow> string list option" where
  "split_mnemonics mnemonics = (case or_none mnemonics of
      None \<Rightarrow> None
    | Some ms \<Rightarrow> (case filter (\<lambda>m. m \<noteq> []) (map strip (split_on (CHR '','') ms)) of [] \<Rightarrow> None | out \<Rightarrow> Some out))"

text \<open>\<^verbatim>\<open>raw.replace("Z", "+00:00")\<close>.\<close>

definition replace_z :: "string \<Rightarrow> string" where
  "replace_z s = concat (map (\<lambda>c. if c = CHR ''Z'' then ''+00:00'' else [c]) s)"

definition api_parse_index :: "string option \<Rightarrow> pyval option res" where
  "api_parse_index raw = (case raw of None \<Rightarrow> Inr None | Some r \<Rightarrow>
     (let s = strip r in
      if s = [] then Inr None
      else (case float_of_string s of
          Some x \<Rightarrow> Inr (Some (VFloat x))
        | None \<Rightarrow> (case fromisoformat (replace_z s) of
            None \<Rightarrow> Inl ValueError | Some d \<Rightarrow> Inr (Some (VDt (DT True (dt_us d))))))))"

section \<open>The warm store\<close>

definition api_list_wells :: "RingBufferStore \<Rightarrow> WellStatus list" where
  "api_list_wells st = well_status st"

definition get_curves :: "(int \<Rightarrow> int) \<Rightarrow> string \<Rightarrow> string option \<Rightarrow> int \<Rightarrow> RingBufferStore \<Rightarrow> wire_curves res" where
  "get_curves local well_uid mnemonics limit st =
     rmap (\<lambda>(m, ss). rbind (rmap (sample_to_wire local) ss) (\<lambda>ws. Inr (m, ws)))
       (get_recent well_uid (split_mnemonics mnemonics) None (Some limit) st)"

text \<open>The newest sample per curve; a curve that was asked for and has none is null.\<close>

definition latest_entry :: "(int \<Rightarrow> int) \<Rightarrow> string \<times> curve_sample list \<Rightarrow> (string \<times> wire_sample option) list
    \<Rightarrow> (string \<times> wire_sample option) list res" where
  "latest_entry local p out = (case p of (m, ss) \<Rightarrow>
     if ss = [] then Inr (AList.update m None out)
     else rbind (sample_to_wire local (last ss)) (\<lambda>w. Inr (AList.update m (Some w) out)))"

definition get_latest :: "(int \<Rightarrow> int) \<Rightarrow> string \<Rightarrow> string option \<Rightarrow> RingBufferStore \<Rightarrow> (string \<times> wire_sample option) list res" where
  "get_latest local well_uid mnemonics st =
     (let mnems = split_mnemonics mnemonics;
          out = (case mnems of None \<Rightarrow> [] | Some ms \<Rightarrow> fold (\<lambda>m. AList.update m None) ms [])
      in rfold (latest_entry local) (get_recent well_uid mnems None (Some 1) st) out)"

section \<open>The history\<close>

record database =
  db_float_ge :: "pyfloat \<Rightarrow> pyfloat \<Rightarrow> bool"
  db_dt_ge :: "datetime \<Rightarrow> datetime \<Rightarrow> bool"
  db_order :: "CurveSampleRow list \<Rightarrow> CurveSampleRow list"
  db_load_dt :: "datetime \<Rightarrow> datetime"

text \<open>A condition on a column that is NULL is not true.\<close>

definition row_from :: "database \<Rightarrow> pyval option \<Rightarrow> CurveSampleRow \<Rightarrow> bool" where
  "row_from db bound r = (case bound of
      None \<Rightarrow> True
    | Some (VDt d) \<Rightarrow> (case cr_index_dt r of None \<Rightarrow> False | Some x \<Rightarrow> db_dt_ge db x d)
    | Some (VFloat f) \<Rightarrow> (case cr_index_float r of None \<Rightarrow> False | Some x \<Rightarrow> db_float_ge db x f)
    | Some (VStr s) \<Rightarrow> False)"

definition row_to :: "database \<Rightarrow> pyval option \<Rightarrow> CurveSampleRow \<Rightarrow> bool" where
  "row_to db bound r = (case bound of
      None \<Rightarrow> True
    | Some (VDt d) \<Rightarrow> (case cr_index_dt r of None \<Rightarrow> False | Some x \<Rightarrow> db_dt_ge db d x)
    | Some (VFloat f) \<Rightarrow> (case cr_index_float r of None \<Rightarrow> False | Some x \<Rightarrow> db_float_ge db f x)
    | Some (VStr s) \<Rightarrow> False)"

definition history_where :: "database \<Rightarrow> string \<Rightarrow> string list option \<Rightarrow> pyval option \<Rightarrow> pyval option \<Rightarrow> CurveSampleRow \<Rightarrow> bool" where
  "history_where db well_uid mnems lo hi r =
     (cr_well_uid r = well_uid \<and> (case mnems of None \<Rightarrow> True | Some ms \<Rightarrow> cr_mnemonic r \<in> set ms)
      \<and> row_from db lo r \<and> row_to db hi r)"

text \<open>The wire form of a row, none for a row without an index.\<close>

definition row_wire :: "database \<Rightarrow> (int \<Rightarrow> int) \<Rightarrow> CurveSampleRow \<Rightarrow> wire_sample option" where
  "row_wire db local r = (case (case cr_index_dt r of
        Some d \<Rightarrow> Some (fl_mul (timestamp local (db_load_dt db d)) (Fin 1000))
      | None \<Rightarrow> cr_index_float r) of
      None \<Rightarrow> None
    | Some i \<Rightarrow> Some \<lparr>wi_i = i, wi_v = cr_value r, wi_t = cr_text r, wi_u = cr_uom r\<rparr>)"

definition history_curves :: "database \<Rightarrow> (int \<Rightarrow> int) \<Rightarrow> CurveSampleRow list \<Rightarrow> wire_curves" where
  "history_curves db local rows = fold (\<lambda>r d. case row_wire db local r of None \<Rightarrow> d | Some w \<Rightarrow> alist_push (cr_mnemonic r) w d) rows []"

definition get_history :: "database \<Rightarrow> (int \<Rightarrow> int) \<Rightarrow> CurveSampleRow list \<Rightarrow> string \<Rightarrow> string option \<Rightarrow> string option
    \<Rightarrow> string option \<Rightarrow> nat \<Rightarrow> wire_curves res" where
  "get_history db local table well_uid mnemonics from until limit =
     rbind (api_parse_index from) (\<lambda>a. rbind (api_parse_index until) (\<lambda>b.
     Inr (history_curves db local (take limit (db_order db
       (filter (history_where db well_uid (split_mnemonics mnemonics) a b) table))))))"

section \<open>Lemmas\<close>

text \<open>What SQL promises of an ordering: the same rows, by depth and then by time.\<close>

definition row_before :: "CurveSampleRow \<Rightarrow> CurveSampleRow \<Rightarrow> bool" where
  "row_before r r' = (case (cr_index_float r, cr_index_float r') of
      (Some x, Some y) \<Rightarrow> fl_lt x y
    | (None, None) \<Rightarrow> (case (cr_index_dt r, cr_index_dt r') of (Some d, Some d') \<Rightarrow> dt_us d < dt_us d' | _ \<Rightarrow> False)
    | _ \<Rightarrow> False)"

definition sql_orders :: "database \<Rightarrow> bool" where
  "sql_orders db = (\<forall>rs. mset (db_order db rs) = mset rs \<and> sorted_wrt (\<lambda>r r'. \<not> row_before r' r) (db_order db rs))"

lemma history_curves_lookup:
  "map_of (fold (\<lambda>r d. case row_wire db local r of None \<Rightarrow> d | Some w \<Rightarrow> alist_push (cr_mnemonic r) w d) rows d) m =
     (case List.map_filter (row_wire db local) (filter (\<lambda>r. cr_mnemonic r = m) rows) of
        [] \<Rightarrow> map_of d m
      | ws \<Rightarrow> Some ((case map_of d m of None \<Rightarrow> [] | Some vs \<Rightarrow> vs) @ ws))"
proof (induction rows arbitrary: d)
  case Nil
  then show ?case by (simp add: map_filter_simps)
next
  case (Cons r rows)
  then show ?case
    by (auto simp: map_of_alist_push map_filter_simps split: option.splits list.splits)
qed

lemma fold_update_none:
  "map_of (fold (\<lambda>m. AList.update m None) ms out) m = (if m \<in> set ms then Some None else map_of out m)"
  by (induction ms arbitrary: out) (auto simp: update_conv')

lemma get_recent_keys: "distinct (map fst (get_recent w mnems since limit st))"
proof -
  have "distinct (map fst (fold (\<lambda>m out. let b = buffer st w m in
      if b = [] then out else AList.update m (recent_items since limit b) out) ms out))" if "distinct (map fst out)" for ms out
    using that by (induction ms arbitrary: out) (auto simp: Let_def distinct_update)
  then show ?thesis by (simp add: get_recent_def Let_def)
qed

definition shown :: "(int \<Rightarrow> int) \<Rightarrow> curve_sample list \<Rightarrow> wire_sample option \<Rightarrow> bool" where
  "shown local ss w = (case w of None \<Rightarrow> ss = [] | Some x \<Rightarrow> ss \<noteq> [] \<and> sample_to_wire local (last ss) = Inr x)"

lemma latest_entries:
  assumes "rfold (latest_entry local) xs out = Inr out'" "distinct (map fst xs)"
  shows "case map_of xs m of None \<Rightarrow> map_of out' m = map_of out m
    | Some ss \<Rightarrow> \<exists>w. map_of out' m = Some w \<and> shown local ss w"
  using assms
proof (induction xs arbitrary: out)
  case (Cons p xs)
  obtain k ss where p: "p = (k, ss)" by (cases p)
  then obtain out1 where o1: "latest_entry local (k, ss) out = Inr out1" "rfold (latest_entry local) xs out1 = Inr out'"
    using Cons.prems(1) by (auto simp: rbind_eq_Inr)
  have e: "\<exists>w. out1 = AList.update k w out \<and> shown local ss w"
    using o1(1) by (auto simp: latest_entry_def shown_def rbind_eq_Inr split: if_splits)
  have k: "map_of xs k = None" using Cons.prems(2) p by (auto simp: map_of_eq_None_iff)
  show ?case using Cons.IH [OF o1(2)] Cons.prems(2) e k p by (cases "m = k") (auto simp del: map_of_eq_Some_iff split: option.splits)
qed simp

section \<open>Properties\<close>

text \<open>
  C34. The latest values. A curve that was asked for by name is in the answer, with its newest buffered
  sample or null when nothing is buffered; when no curve is named, the answer holds the newest sample of
  exactly the curves of the well that have one.
\<close>

theorem latest_is_newest:
  assumes "get_latest local w mnemonics st = Inr out"
  shows "case split_mnemonics mnemonics of
      Some ms \<Rightarrow> (if m \<in> set ms then \<exists>x. map_of out m = Some x \<and> shown local (buffer st w m) x else map_of out m = None)
    | None \<Rightarrow> (if buffer st w m = [] then map_of out m = None else \<exists>x. map_of out m = Some (Some x)
        \<and> sample_to_wire local (last (buffer st w m)) = Inr x)"
proof -
  let ?ms = "split_mnemonics mnemonics"
  let ?out = "case ?ms of None \<Rightarrow> [] | Some ms \<Rightarrow> fold (\<lambda>m. AList.update m None) ms []"
  have ne: "ms \<noteq> []" if "?ms = Some ms" for ms
    using that by (auto simp: split_mnemonics_def split: option.splits list.splits)
  have "rfold (latest_entry local) (get_recent w ?ms None (Some (int (Suc 0))) st) ?out = Inr out"
    using assms by (simp add: get_latest_def Let_def)
  from latest_entries [OF this get_recent_keys, of m]
  have l: "case map_of (get_recent w ?ms None (Some (int (Suc 0))) st) m of
      None \<Rightarrow> map_of out m = map_of ?out m | Some ss \<Rightarrow> \<exists>x. map_of out m = Some x \<and> shown local ss x" .
  have last1: "last (lastn (Suc 0) b) = last b" "lastn (Suc 0) b \<noteq> []" if "b \<noteq> []" for b :: "curve_sample list"
    using that by (cases b rule: rev_cases; simp add: lastn_def)+
  show ?thesis
    using l last1 [of "buffer st w m"] ne
    unfolding get_recent_lookup
    by (auto simp: shown_def fold_update_none split: option.splits list.splits if_splits)
qed

definition ex_curves :: RingBufferStore where
  "ex_curves = ring_append (DT True 0) ''W'' ''L'' [\<lparr>cs_mnemonic = ''ROP'', cs_index = VFloat (Fin 100), cs_value = Some (Fin 5), cs_text = None, cs_uom = None\<rparr>,
     \<lparr>cs_mnemonic = ''ROP'', cs_index = VFloat (Fin 101), cs_value = Some (Fin 7), cs_text = None, cs_uom = None\<rparr>] (new_ring_store 10)"

theorem latest_is_newest_witness:
  "\<exists>x. get_latest (\<lambda>t. t) ''W'' (Some ''ROP, WOB'') ex_curves = Inr [(''ROP'', Some x), (''WOB'', None)] \<and> wi_v x = Some (Fin 7)
    \<and> shown (\<lambda>t. t) (buffer ex_curves ''W'' ''ROP'') (Some x)"
proof -
  let ?x = "\<lparr>wi_i = Fin 101, wi_v = Some (Fin 7), wi_t = None, wi_u = None\<rparr>"
  have s: "split_mnemonics (Some ''ROP, WOB'') = Some [''ROP'', ''WOB'']" by code_simp
  have g: "get_latest (\<lambda>t. t) ''W'' (Some ''ROP, WOB'') ex_curves = Inr [(''ROP'', Some ?x), (''WOB'', None)]" by code_simp
  from latest_is_newest [OF g, of "''ROP''"] s g show ?thesis by simp
qed


text \<open>A database that sorts depths with NULL last, then times with NULL first.\<close>

definition ex_key :: "CurveSampleRow \<Rightarrow> bool \<times> pyfloat \<times> int" where
  "ex_key r = (case cr_index_float r of Some x \<Rightarrow> (False, x, 0)
     | None \<Rightarrow> (True, PInf, (case cr_index_dt r of None \<Rightarrow> 0 | Some d \<Rightarrow> dt_us d)))"

definition ex_db :: database where
  "ex_db = \<lparr>db_float_ge = (\<lambda>x y. fl_le y x), db_dt_ge = (\<lambda>d d'. dt_us d' \<le> dt_us d), db_order = sort_key ex_key, db_load_dt = (\<lambda>d. d)\<rparr>"

lemma ex_db_orders: "sql_orders ex_db"
proof -
  have lt: "fl_lt x y \<Longrightarrow> x < y" for x y
    by (cases x; cases y) (simp_all add: fl_lt_def less_pyfloat_def)
  have "\<not> row_before r' r" if "ex_key r \<le> ex_key r'" for r r'
    using that by (auto simp: row_before_def ex_key_def dest!: lt split: option.splits)
  then have "sorted_wrt (\<lambda>r r'. \<not> row_before r' r) (sort_key ex_key rs)" for rs
    using sorted_wrt_mono_rel [of _ "\<lambda>r r'. ex_key r \<le> ex_key r'"] sorted_sort_key [of ex_key rs]
    by (simp add: sorted_map)
  then show ?thesis by (simp add: sql_orders_def ex_db_def)
qed

definition ex_row :: "rat \<Rightarrow> rat \<Rightarrow> CurveSampleRow" where
  "ex_row i v = \<lparr>cr_server_id = 1, cr_well_uid = ''W'', cr_wellbore_uid = ''B'', cr_log_uid = ''L'', cr_mnemonic = ''ROP'',
     cr_index_float = Some (Fin i), cr_index_dt = None, cr_value = Some (Fin v), cr_text = None, cr_uom = None\<rparr>"


end
