(* ===== verification/Tables.thy ===== *)
theory Tables
  imports PyTime
begin

text \<open>
  The application tables of \<^verbatim>\<open>backend/app/db/models.py\<close> and the four statements the endpoints run on
  them. A table is the list of its rows with their ids in the order of insertion; a select that orders by id
  sorts. The database engine is a parameter: whether it accepts a commit, the id it gives a new row,
  whether it enforces foreign keys (PostgreSQL does, SQLite does not unless told to), and whether a flush
  inserts before it deletes (the unit of work of SQLAlchemy does). A commit that is refused raises and the
  transaction leaves every table as it was. What an engine promises of a table with a unique
  column is the interface \<open>row_table\<close>.
\<close>

section \<open>Rows\<close>

datatype json = JNull | JBool bool | JNum rat | JStr string | JList "json list" | JObj "(string \<times> json) list"

record ServerConnection =
  sv_name :: string
  sv_url :: string
  sv_username :: string
  sv_password_encrypted :: string
  sv_verify_ssl :: bool
  sv_version :: "string option"
  sv_created_at :: datetime

record ParameterCatalog =
  pc_mnemonic :: string
  pc_description :: "string option"
  pc_default_unit :: "string option"
  pc_wits_id :: "string option"

record UnitDef =
  ud_name :: string
  ud_from_unit :: string
  ud_to_unit :: string
  ud_expression :: string
  ud_is_builtin :: bool

record DashboardPage =
  dp_owner_id :: "int option"
  dp_name :: string
  dp_well_uid :: "string option"
  dp_well_name :: "string option"
  dp_region :: "string option"
  dp_layout :: json
  dp_created_at :: datetime
  dp_updated_at :: datetime

record User =
  us_username :: string
  us_password_hash :: string
  us_first_name :: "string option"
  us_last_name :: "string option"
  us_phone :: "string option"
  us_address :: "string option"
  us_position :: "string option"
  us_access_level :: string
  us_is_active :: bool
  us_created_at :: datetime

record PageGrant =
  pg_user_id :: int
  pg_page_id :: int

record Report =
  rp_report_date :: "int option"
  rp_field :: "string option"
  rp_rig :: "string option"
  rp_well_uid :: "string option"
  rp_hole_size :: "string option"
  rp_operation_type :: "string option"
  rp_mud_system :: "string option"
  rp_created_at :: datetime

record Remark =
  rm_report_id :: int
  rm_time :: "datetime option"
  rm_depth :: "pyfloat option"
  rm_category :: "string option"
  rm_text :: "string option"

record MudProperty =
  mp_report_id :: int
  mp_name :: string
  mp_value :: "string option"
  mp_unit :: "string option"

record SavedSearch =
  ss_name :: string
  ss_owner_id :: "int option"
  ss_module :: string
  ss_criteria :: json
  ss_created_at :: datetime

record DepthOfInterest =
  di_well_uid :: string
  di_report_id :: "int option"
  di_depth :: pyfloat
  di_note :: "string option"
  di_created_at :: datetime

section \<open>Statements\<close>

type_synonym 'r rows = "(int \<times> 'r) list"

record sql =
  sql_accepts :: bool
  sql_new_id :: "int list \<Rightarrow> int"
  sql_foreign_keys :: bool
  sql_inserts_first :: bool

text \<open>The unique constraint of a table: rows of one key collide, a row without key never does.\<close>

definition key_free :: "('r \<Rightarrow> 'k option) \<Rightarrow> 'r \<Rightarrow> 'r rows \<Rightarrow> bool" where
  "key_free key r t = (case key r of None \<Rightarrow> True | Some k \<Rightarrow> list_all (\<lambda>p. key (snd p) \<noteq> Some k) t)"

definition insert_row :: "sql \<Rightarrow> ('r \<Rightarrow> 'k option) \<Rightarrow> 'r \<Rightarrow> 'r rows \<Rightarrow> (int \<times> 'r rows) res" where
  "insert_row db key r t = (if sql_accepts db \<and> key_free key r t
     then (let i = sql_new_id db (map fst t) in Inr (i, t @ [(i, r)])) else Inl DbError)"

definition update_row :: "sql \<Rightarrow> ('r \<Rightarrow> 'k option) \<Rightarrow> int \<Rightarrow> 'r \<Rightarrow> 'r rows \<Rightarrow> 'r rows res" where
  "update_row db key i r t = (if sql_accepts db \<and> key_free key r (filter (\<lambda>p. fst p \<noteq> i) t)
     then Inr (map (\<lambda>p. if fst p = i then (i, r) else p) t) else Inl DbError)"

definition delete_row :: "sql \<Rightarrow> int \<Rightarrow> 'r rows \<Rightarrow> 'r rows res" where
  "delete_row db i t = (if sql_accepts db then Inr (filter (\<lambda>p. fst p \<noteq> i) t) else Inl DbError)"

text \<open>\<^verbatim>\<open>select(...).where(...).order_by(id)\<close> and the first row a condition selects.\<close>

definition rows_where :: "('r \<Rightarrow> bool) \<Rightarrow> 'r rows \<Rightarrow> 'r rows" where
  "rows_where p t = sort_key fst (filter (\<lambda>q. p (snd q)) t)"

definition select_one :: "('r \<Rightarrow> bool) \<Rightarrow> 'r rows \<Rightarrow> (int \<times> 'r) option" where
  "select_one p t = find_first (\<lambda>q. p (snd q)) t"

text \<open>\<^verbatim>\<open>scalar_one_or_none\<close> raises when there is more than one row.\<close>

definition scalar_one :: "('r \<Rightarrow> bool) \<Rightarrow> 'r rows \<Rightarrow> (int \<times> 'r) option res" where
  "scalar_one p t = (case filter (\<lambda>q. p (snd q)) t of [] \<Rightarrow> Inr None | [q] \<Rightarrow> Inr (Some q) | _ \<Rightarrow> Inl DbError)"

text \<open>One flush that deletes the rows a condition selects and inserts others.\<close>

definition insert_all :: "sql \<Rightarrow> ('r \<Rightarrow> 'k option) \<Rightarrow> 'r list \<Rightarrow> 'r rows \<Rightarrow> 'r rows res" where
  "insert_all db key rs t = rfold (\<lambda>r t. rbind (insert_row db key r t) (\<lambda>(i, t'). Inr t')) rs t"

definition replace_rows :: "sql \<Rightarrow> ('r \<Rightarrow> 'k option) \<Rightarrow> ('r \<Rightarrow> bool) \<Rightarrow> 'r list \<Rightarrow> 'r rows \<Rightarrow> 'r rows res" where
  "replace_rows db key old rs t =
     (let gone = map fst (filter (\<lambda>p. old (snd p)) t) in
      if sql_inserts_first db then rbind (insert_all db key rs t) (\<lambda>t'. Inr (filter (\<lambda>p. fst p \<notin> set gone) t'))
      else insert_all db key rs (filter (\<lambda>p. fst p \<notin> set gone) t))"

abbreviation no_key :: "'r \<Rightarrow> unit option" where
  "no_key \<equiv> (\<lambda>r. None)"

section \<open>The database\<close>

record app_db =
  ad_servers :: "ServerConnection rows"
  ad_parameters :: "ParameterCatalog rows"
  ad_units :: "UnitDef rows"
  ad_pages :: "DashboardPage rows"
  ad_users :: "User rows"
  ad_grants :: "PageGrant rows"
  ad_reports :: "Report rows"
  ad_remarks :: "Remark rows"
  ad_mud_properties :: "MudProperty rows"
  ad_searches :: "SavedSearch rows"
  ad_depths :: "DepthOfInterest rows"

text \<open>A handler answers and leaves a database, or raises and leaves the one it found.\<close>

type_synonym 'a handler = "app_db \<Rightarrow> ('a \<times> app_db) res"

text \<open>What a partial update says of a field: nothing, or a value (which may be null).\<close>

definition set_field :: "'a option \<Rightarrow> 'a \<Rightarrow> 'a" where
  "set_field u old = (case u of None \<Rightarrow> old | Some v \<Rightarrow> v)"

text \<open>The same for a column that is NOT NULL: null is refused by the commit.\<close>

definition set_required :: "'a option option \<Rightarrow> 'a \<Rightarrow> 'a res" where
  "set_required u old = (case u of None \<Rightarrow> Inr old | Some None \<Rightarrow> Inl DbError | Some (Some v) \<Rightarrow> Inr v)"

text \<open>A foreign key that the engine checks.\<close>

definition refers :: "sql \<Rightarrow> int option \<Rightarrow> 'r rows \<Rightarrow> bool" where
  "refers db fk t = (case fk of None \<Rightarrow> True | Some i \<Rightarrow> sql_foreign_keys db \<longrightarrow> i \<in> set (map fst t))"

section \<open>Tables with a unique key\<close>

locale row_table =
  fixes ins :: "'r \<Rightarrow> 't \<Rightarrow> (int \<times> 't) res" and upd :: "int \<Rightarrow> 'r \<Rightarrow> 't \<Rightarrow> 't res" and del :: "int \<Rightarrow> 't \<Rightarrow> 't res"
    and row_at :: "int \<Rightarrow> 't \<Rightarrow> 'r option" and valid :: "'t \<Rightarrow> bool" and key :: "'r \<Rightarrow> 'k option"
  assumes ins_new: "valid t \<Longrightarrow> ins r t = Inr (i, t') \<Longrightarrow> row_at i t = None"
    and ins_row: "valid t \<Longrightarrow> ins r t = Inr (i, t') \<Longrightarrow> row_at j t' = (if j = i then Some r else row_at j t)"
    and ins_valid: "valid t \<Longrightarrow> ins r t = Inr (i, t') \<Longrightarrow> valid t'"
    and upd_row: "valid t \<Longrightarrow> upd i r t = Inr t' \<Longrightarrow> row_at j t' = (if j = i \<and> row_at i t \<noteq> None then Some r else row_at j t)"
    and upd_valid: "valid t \<Longrightarrow> upd i r t = Inr t' \<Longrightarrow> valid t'"
    and del_row: "valid t \<Longrightarrow> del i t = Inr t' \<Longrightarrow> row_at j t' = (if j = i then None else row_at j t)"
    and del_valid: "valid t \<Longrightarrow> del i t = Inr t' \<Longrightarrow> valid t'"
    and key_unique: "valid t \<Longrightarrow> row_at i t = Some r \<Longrightarrow> row_at j t = Some r' \<Longrightarrow> key r = Some k \<Longrightarrow> key r' = Some k \<Longrightarrow> i = j"
begin

text \<open>A second row of a key is refused.\<close>

lemma duplicate_refused:
  assumes "valid t" "row_at i t = Some r" "key r = Some k" "key r' = Some k"
  shows "\<exists>e. ins r' t = Inl e"
proof (cases "ins r' t")
  case (Inr p)
  then obtain j t' where p: "ins r' t = Inr (j, t')" by (cases p) auto
  have "row_at j t' = Some r'" "j \<noteq> i" "row_at i t' = Some r"
    using assms(1,2) ins_row [OF assms(1) p] ins_new [OF assms(1) p] by auto
  moreover have "valid t'" by (rule ins_valid [OF assms(1) p])
  ultimately show ?thesis using key_unique assms(3,4) by blast
qed simp

text \<open>Deleting what was inserted restores every row.\<close>

lemma insert_delete:
  assumes "valid t" "ins r t = Inr (i, t')" "del i t' = Inr t''"
  shows "row_at j t'' = row_at j t"
  using del_row [OF ins_valid [OF assms(1,2)] assms(3)] ins_row [OF assms(1,2)] ins_new [OF assms(1,2)] by auto

lemma update_keeps_others:
  assumes "valid t" "upd i r t = Inr t'" "j \<noteq> i"
  shows "row_at j t' = row_at j t"
  using upd_row [OF assms(1,2)] assms(3) by simp

end

definition table_ok :: "('r \<Rightarrow> 'k option) \<Rightarrow> 'r rows \<Rightarrow> bool" where
  "table_ok key t = (distinct (map fst t) \<and>
     list_all (\<lambda>p. list_all (\<lambda>q. key (snd p) = key (snd q) \<and> key (snd p) \<noteq> None \<longrightarrow> fst p = fst q) t) t)"

definition fresh_ids :: "sql \<Rightarrow> bool" where
  "fresh_ids db = (\<forall>ids. sql_new_id db ids \<notin> set ids)"

lemma map_insort_key: "(\<And>x. k' (f x) = k x) \<Longrightarrow> map f (insort_key k x xs) = insort_key k' (f x) (map f xs)"
  by (induction xs) auto

text \<open>A projection that keeps the sort key commutes with sorting.\<close>

lemma map_sort_key: "(\<And>x. k' (f x) = k x) \<Longrightarrow> map f (sort_key k xs) = sort_key k' (map f xs)"
  by (induction xs) (simp_all add: map_insort_key [of k' f k])

lemma insert_row_Inr:
  "insert_row db key r t = Inr (i, t') \<longleftrightarrow> sql_accepts db \<and> key_free key r t \<and> i = sql_new_id db (map fst t) \<and> t' = t @ [(i, r)]"
  by (auto simp: insert_row_def Let_def)

lemma map_of_append_one: "i \<notin> fst ` set t \<Longrightarrow> map_of (t @ [(i, r)]) j = (if j = i then Some r else map_of t j)"
  by (induction t) auto

lemma map_of_filter_id: "map_of (filter (\<lambda>p. fst p \<noteq> i) t) j = (if j = i then None else map_of t j)"
  by (induction t) auto

lemma map_of_replace: "map_of (map (\<lambda>p. if fst p = i then (i, r) else p) t) j =
    (if j = i \<and> map_of t i \<noteq> None then Some r else map_of t j)"
  by (induction t) auto

lemma fits_iff: "key_free key r t \<longleftrightarrow> (\<forall>p \<in> set t. key r = None \<or> key (snd p) \<noteq> key r)"
  by (auto simp: key_free_def list_all_iff split: option.splits)

lemma table_ok_iff: "table_ok key t \<longleftrightarrow> distinct (map fst t) \<and>
    (\<forall>p \<in> set t. \<forall>q \<in> set t. key (snd p) = key (snd q) \<and> key (snd p) \<noteq> None \<longrightarrow> fst p = fst q)"
  by (simp add: table_ok_def list_all_iff)

lemma table_ok_iff2: "table_ok key t \<longleftrightarrow> distinct (map fst t) \<and>
    (\<forall>i r j r'. (i, r) \<in> set t \<longrightarrow> (j, r') \<in> set t \<longrightarrow> key r = key r' \<longrightarrow> key r \<noteq> None \<longrightarrow> i = j)"
  unfolding table_ok_iff Ball_def split_paired_All fst_conv snd_conv by blast

lemma table_ok_insert:
  assumes "table_ok key t" "key_free key r t" "i \<notin> fst ` set t"
  shows "table_ok key (t @ [(i, r)])"
proof -
  have "key r' \<noteq> key r" if "(j, r') \<in> set t" "key r \<noteq> None" for j r'
    using assms(2) that unfolding fits_iff by force
  then show ?thesis using assms(1,3) unfolding table_ok_iff2 by simp metis
qed

lemma table_ok_filter: "table_ok key t \<Longrightarrow> table_ok key (filter p t)"
  unfolding table_ok_iff2 by (simp add: distinct_map_filter) blast

lemma in_replaced: "(j, x) \<in> set (map (\<lambda>p. if fst p = i then (i, r) else p) t) \<longleftrightarrow>
    (if j = i then x = r \<and> i \<in> fst ` set t else (j, x) \<in> set t)"
  by (induction t) auto

lemma table_ok_replace:
  assumes "table_ok key t" "key_free key r (filter (\<lambda>p. fst p \<noteq> i) t)"
  shows "table_ok key (map (\<lambda>p. if fst p = i then (i, r) else p) t)"
proof -
  have d: "map fst (map (\<lambda>p. if fst p = i then (i, r) else p) t) = map fst t" by (induction t) auto
  have "key x \<noteq> key r" if "(j, x) \<in> set t" "j \<noteq> i" "key r \<noteq> None" for j x
    using assms(2) that unfolding fits_iff by force
  then show ?thesis using assms(1) unfolding table_ok_iff2 in_replaced d by metis
qed

lemma table_ok_unique:
  assumes "table_ok key t" "map_of t i = Some r" "map_of t j = Some r'" "key r = Some k" "key r' = Some k"
  shows "i = j"
  using assms(1) map_of_SomeD [OF assms(2)] map_of_SomeD [OF assms(3)] assms(4,5) unfolding table_ok_iff by fastforce

interpretation stored: row_table "insert_row db key" "update_row db key" "delete_row db" "\<lambda>i t. map_of t i"
    "\<lambda>t. fresh_ids db \<and> table_ok key t" key for db key
proof unfold_locales
  fix t t' :: "'a rows" and r r' :: 'a and i j and k :: 'b
  assume v: "fresh_ids db \<and> table_ok key t"
  have new: "sql_new_id db (map fst t) \<notin> fst ` set t" using v unfolding fresh_ids_def by (metis set_map)
  { assume "insert_row db key r t = Inr (i, t')"
    then show "map_of t i = None" "map_of t' j = (if j = i then Some r else map_of t j)" "fresh_ids db \<and> table_ok key t'"
      using v new table_ok_insert [of key t r i] unfolding insert_row_Inr
      by (simp_all add: map_of_eq_None_iff map_of_append_one del: map_of_append) }
  { assume "update_row db key i r t = Inr t'"
    then show "map_of t' j = (if j = i \<and> map_of t i \<noteq> None then Some r else map_of t j)" "fresh_ids db \<and> table_ok key t'"
      using v table_ok_replace [of key t r i] by (auto simp: update_row_def map_of_replace split: if_splits) }
  { assume "delete_row db i t = Inr t'"
    then show "map_of t' j = (if j = i then None else map_of t j)" "fresh_ids db \<and> table_ok key t'"
      using v by (auto simp: delete_row_def map_of_filter_id table_ok_filter split: if_splits) }
  assume "map_of t i = Some r" "map_of t j = Some r'" "key r = Some k" "key r' = Some k"
  then show "i = j" using table_ok_unique v by metis
qed

section \<open>An engine that numbers rows\<close>

definition serial_db :: "bool \<Rightarrow> sql" where
  "serial_db fk = \<lparr>sql_accepts = True, sql_new_id = (\<lambda>ids. 1 + sum_list (map abs ids)), sql_foreign_keys = fk, sql_inserts_first = True\<rparr>"

lemma serial_db_fresh: "fresh_ids (serial_db fk)"
proof -
  have nonneg: "0 \<le> sum_list (map abs ids)" for ids :: "int list" by (induction ids) auto
  have "x \<in> set ids \<Longrightarrow> \<bar>x\<bar> \<le> sum_list (map abs ids)" for x :: int and ids
    by (induction ids) (use nonneg in \<open>fastforce+\<close>)
  then show ?thesis by (fastforce simp: fresh_ids_def serial_db_def)
qed

end
