(* ===== verification/Accounts.thy ===== *)
theory Accounts
  imports Tables
begin

text \<open>
  \<^verbatim>\<open>backend/app/auth\<close> and the routers over it: password and token primitives, the current user and the
  role gates (\<^verbatim>\<open>deps.py\<close>), login (\<^verbatim>\<open>api/auth.py\<close>), users and page grants (\<^verbatim>\<open>api/admin.py\<close>) and the dashboard
  pages (\<^verbatim>\<open>api/pages.py\<close>). bcrypt, PyJWT and Fernet are parameters; so are the clock and the settings.
\<close>

section \<open>Passwords and tokens\<close>

record claims =
  tc_sub :: string
  tc_iat :: datetime
  tc_exp :: datetime
  tc_lvl :: string

record auth_env =
  ae_hash :: "string \<Rightarrow> string"
  ae_check :: "string \<Rightarrow> string \<Rightarrow> bool res"
  ae_encode :: "claims \<Rightarrow> string"
  ae_decode :: "datetime \<Rightarrow> string \<Rightarrow> claims res"
  ae_encrypt :: "string \<Rightarrow> string"
  ae_decrypt :: "string \<Rightarrow> string res"
  ae_expire_minutes :: int
  ae_now :: datetime
  ae_sql :: sql

text \<open>\<^verbatim>\<open>s.encode("utf-8")\<close> on the code points 0 to 255, bytes as characters.\<close>

definition utf8 :: "string \<Rightarrow> string" where
  "utf8 s = concat (map (\<lambda>c. let n = code_of c in
     if n < 128 then [c] else [char_of (192 + n div 64), char_of (128 + n mod 64)]) s)"

definition BCRYPT_MAX_BYTES :: nat where "BCRYPT_MAX_BYTES = 72"

definition password_bytes :: "string \<Rightarrow> string" where
  "password_bytes p = take BCRYPT_MAX_BYTES (utf8 p)"

definition hash_password :: "auth_env \<Rightarrow> string \<Rightarrow> string" where
  "hash_password env p = ae_hash env (password_bytes p)"

text \<open>A hash that is not ASCII cannot be encoded, which is a ValueError.\<close>

definition verify_password :: "auth_env \<Rightarrow> string \<Rightarrow> string \<Rightarrow> bool res" where
  "verify_password env p hashed =
     (if \<not> list_all (\<lambda>c. code_of c < (128 :: nat)) hashed then Inr False
      else case ae_check env (password_bytes p) hashed of
          Inr b \<Rightarrow> Inr b
        | Inl e \<Rightarrow> if e = ValueError \<or> e = TypeError then Inr False else Inl e)"

definition create_access_token :: "auth_env \<Rightarrow> string \<Rightarrow> string \<Rightarrow> string" where
  "create_access_token env subject lvl = ae_encode env
     \<lparr>tc_sub = subject, tc_iat = ae_now env, tc_exp = DT True (dt_us (ae_now env) + ae_expire_minutes env * 60 * 1000000), tc_lvl = lvl\<rparr>"

definition decode_token :: "auth_env \<Rightarrow> string \<Rightarrow> claims res" where
  "decode_token env token = ae_decode env (ae_now env) token"

section \<open>The current user\<close>

definition ACCESS_LEVELS :: "string list" where
  "ACCESS_LEVELS = [''normal'', ''admin'', ''super_admin'']"

definition level_rank :: "string \<Rightarrow> nat" where
  "level_rank l = (case map_of [(''normal'', 0), (''admin'', 1), (''super_admin'', 2)] l of None \<Rightarrow> 0 | Some n \<Rightarrow> n)"

definition user_key :: "User \<Rightarrow> string option" where
  "user_key u = Some (us_username u)"

definition find_user :: "string \<Rightarrow> app_db \<Rightarrow> (int \<times> User) option res" where
  "find_user username d = scalar_one (\<lambda>u. us_username u = username) (ad_users d)"

definition authenticate_user :: "auth_env \<Rightarrow> string \<Rightarrow> string \<Rightarrow> app_db \<Rightarrow> (int \<times> User) option res" where
  "authenticate_user env username password d =
     rbind (find_user username d) (\<lambda>u. case u of
        None \<Rightarrow> Inr None
      | Some (i, u) \<Rightarrow> if \<not> us_is_active u then Inr None
          else rbind (verify_password env password (us_password_hash u)) (\<lambda>ok. Inr (if ok then Some (i, u) else None)))"

definition not_authenticated :: exn where
  "not_authenticated = HTTPException 401 ''Not authenticated''"

text \<open>A token that does not decode is refused.\<close>

definition get_current_user :: "auth_env \<Rightarrow> string option \<Rightarrow> app_db \<Rightarrow> (int \<times> User) res" where
  "get_current_user env token d = (case or_none token of
      None \<Rightarrow> Inl not_authenticated
    | Some t \<Rightarrow> (case decode_token env t of
        Inl e \<Rightarrow> Inl not_authenticated
      | Inr payload \<Rightarrow>
          if tc_sub payload = [] then Inl not_authenticated
          else rbind (find_user (tc_sub payload) d) (\<lambda>u. case u of
              None \<Rightarrow> Inl not_authenticated
            | Some (i, u) \<Rightarrow> if us_is_active u then Inr (i, u) else Inl not_authenticated)))"

definition get_current_user_optional :: "auth_env \<Rightarrow> string option \<Rightarrow> app_db \<Rightarrow> (int \<times> User) option res" where
  "get_current_user_optional env token d = (case or_none token of
      None \<Rightarrow> Inr None
    | Some t \<Rightarrow> (case get_current_user env (Some t) d of
        Inr u \<Rightarrow> Inr (Some u) | Inl (HTTPException c m) \<Rightarrow> Inr None | Inl e \<Rightarrow> Inl e))"

definition require_level :: "string \<Rightarrow> auth_env \<Rightarrow> string option \<Rightarrow> app_db \<Rightarrow> (int \<times> User) res" where
  "require_level min_level env token d = rbind (get_current_user env token d) (\<lambda>(i, u).
     if level_rank (us_access_level u) < level_rank min_level
     then Inl (HTTPException 403 (''requires '' @ min_level @ '' access'')) else Inr (i, u))"

definition require_admin :: "auth_env \<Rightarrow> string option \<Rightarrow> app_db \<Rightarrow> (int \<times> User) res" where
  "require_admin = require_level ''admin''"

definition require_super_admin :: "auth_env \<Rightarrow> string option \<Rightarrow> app_db \<Rightarrow> (int \<times> User) res" where
  "require_super_admin = require_level ''super_admin''"

definition user_can_access_page :: "int \<times> User \<Rightarrow> int option \<Rightarrow> int list \<Rightarrow> int \<Rightarrow> bool" where
  "user_can_access_page u page_owner_id granted_page_ids page_id =
     (if level_rank ''admin'' \<le> level_rank (us_access_level (snd u)) then True
      else if page_owner_id \<noteq> None \<and> page_owner_id = Some (fst u) then True
      else page_id \<in> set granted_page_ids)"

section \<open>Login\<close>

record UserOut =
  uo_id :: int
  uo_username :: string
  uo_first_name :: "string option"
  uo_last_name :: "string option"
  uo_phone :: "string option"
  uo_address :: "string option"
  uo_position :: "string option"
  uo_access_level :: string
  uo_is_active :: bool
  uo_created_at :: datetime

definition user_out :: "int \<times> User \<Rightarrow> UserOut" where
  "user_out p = (case p of (i, u) \<Rightarrow>
     \<lparr>uo_id = i, uo_username = us_username u, uo_first_name = us_first_name u, uo_last_name = us_last_name u,
      uo_phone = us_phone u, uo_address = us_address u, uo_position = us_position u,
      uo_access_level = us_access_level u, uo_is_active = us_is_active u, uo_created_at = us_created_at u\<rparr>)"

definition login :: "auth_env \<Rightarrow> string \<Rightarrow> string \<Rightarrow> app_db \<Rightarrow> (string \<times> UserOut) res" where
  "login env username password d = rbind (authenticate_user env username password d) (\<lambda>r. case r of
      None \<Rightarrow> Inl (HTTPException 401 ''Incorrect username or password'')
    | Some u \<Rightarrow> Inr (create_access_token env (us_username (snd u)) (us_access_level (snd u)), user_out u))"

definition read_me :: "auth_env \<Rightarrow> string option \<Rightarrow> app_db \<Rightarrow> UserOut res" where
  "read_me env token d = rbind (get_current_user env token d) (\<lambda>u. Inr (user_out u))"

section \<open>Users\<close>

record UserCreate =
  uc_username :: string
  uc_password :: string
  uc_first_name :: "string option"
  uc_last_name :: "string option"
  uc_phone :: "string option"
  uc_address :: "string option"
  uc_position :: "string option"
  uc_access_level :: string
  uc_is_active :: bool

record UserUpdate =
  uu_password :: "string option option"
  uu_first_name :: "string option option"
  uu_last_name :: "string option option"
  uu_phone :: "string option option"
  uu_address :: "string option option"
  uu_position :: "string option option"
  uu_access_level :: "string option option"
  uu_is_active :: "bool option option"

definition validate_level :: "string option \<Rightarrow> unit res" where
  "validate_level level = (case level of None \<Rightarrow> Inr ()
     | Some l \<Rightarrow> if l \<in> set ACCESS_LEVELS then Inr ()
         else Inl (HTTPException 422 ''access_level must be one of ('normal', 'admin', 'super_admin')''))"

definition get_user_or_404 :: "int \<Rightarrow> app_db \<Rightarrow> User res" where
  "get_user_or_404 i d = (case map_of (ad_users d) i of
      None \<Rightarrow> Inl (HTTPException 404 (''user '' @ show_int i @ '' not found'')) | Some u \<Rightarrow> Inr u)"

definition list_users :: "auth_env \<Rightarrow> string option \<Rightarrow> app_db \<Rightarrow> UserOut list res" where
  "list_users env token d = rbind (require_admin env token d) (\<lambda>_.
     Inr (map user_out (rows_where (\<lambda>u. True) (ad_users d))))"

definition created_user :: "auth_env \<Rightarrow> UserCreate \<Rightarrow> User" where
  "created_user env body =
     \<lparr>us_username = uc_username body, us_password_hash = hash_password env (uc_password body),
      us_first_name = uc_first_name body, us_last_name = uc_last_name body, us_phone = uc_phone body,
      us_address = uc_address body, us_position = uc_position body, us_access_level = uc_access_level body,
      us_is_active = uc_is_active body, us_created_at = ae_now env\<rparr>"

definition create_user :: "auth_env \<Rightarrow> string option \<Rightarrow> UserCreate \<Rightarrow> UserOut handler" where
  "create_user env token body d = rbind (require_super_admin env token d) (\<lambda>_.
     rbind (validate_level (Some (uc_access_level body))) (\<lambda>_.
     rbind (find_user (uc_username body) d) (\<lambda>existing. case existing of
        Some _ \<Rightarrow> Inl (HTTPException 409 ''username already exists'')
      | None \<Rightarrow> rbind (insert_row (ae_sql env) user_key (created_user env body) (ad_users d)) (\<lambda>(i, t).
          Inr (user_out (i, created_user env body), d\<lparr>ad_users := t\<rparr>)))))"

text \<open>The password is only replaced by a text that is not empty; null for a required column fails the commit.\<close>

definition updated_user :: "auth_env \<Rightarrow> UserUpdate \<Rightarrow> User \<Rightarrow> User res" where
  "updated_user env body u =
     rbind (set_required (uu_access_level body) (us_access_level u)) (\<lambda>lvl.
     rbind (set_required (uu_is_active body) (us_is_active u)) (\<lambda>active.
     Inr (u\<lparr>us_password_hash := (case uu_password body of
                Some p \<Rightarrow> (case or_none p of Some q \<Rightarrow> hash_password env q | None \<Rightarrow> us_password_hash u)
              | None \<Rightarrow> us_password_hash u),
            us_first_name := set_field (uu_first_name body) (us_first_name u),
            us_last_name := set_field (uu_last_name body) (us_last_name u),
            us_phone := set_field (uu_phone body) (us_phone u), us_address := set_field (uu_address body) (us_address u),
            us_position := set_field (uu_position body) (us_position u),
            us_access_level := lvl, us_is_active := active\<rparr>)))"

definition update_user :: "auth_env \<Rightarrow> string option \<Rightarrow> int \<Rightarrow> UserUpdate \<Rightarrow> UserOut handler" where
  "update_user env token i body d = rbind (require_super_admin env token d) (\<lambda>_.
     rbind (validate_level (case uu_access_level body of None \<Rightarrow> None | Some l \<Rightarrow> l)) (\<lambda>_.
     rbind (get_user_or_404 i d) (\<lambda>u.
     rbind (updated_user env body u) (\<lambda>u'.
     rbind (update_row (ae_sql env) user_key i u' (ad_users d)) (\<lambda>t.
     Inr (user_out (i, u'), d\<lparr>ad_users := t\<rparr>))))))"

text \<open>
  The grants of the user go with it. A page or a saved search it owns keeps the row alive where
  foreign keys are enforced.
\<close>

definition delete_user :: "auth_env \<Rightarrow> string option \<Rightarrow> int \<Rightarrow> unit handler" where
  "delete_user env token i d = rbind (require_super_admin env token d) (\<lambda>_.
     rbind (get_user_or_404 i d) (\<lambda>u.
     if sql_foreign_keys (ae_sql env) \<and>
        (list_ex (\<lambda>p. dp_owner_id (snd p) = Some i) (ad_pages d) \<or> list_ex (\<lambda>p. ss_owner_id (snd p) = Some i) (ad_searches d))
     then Inl DbError
     else rbind (delete_row (ae_sql env) i (ad_users d)) (\<lambda>t.
       Inr ((), d\<lparr>ad_users := t, ad_grants := filter (\<lambda>p. pg_user_id (snd p) \<noteq> i) (ad_grants d)\<rparr>))))"

section \<open>Page grants\<close>

definition grant_key :: "PageGrant \<Rightarrow> (int \<times> int) option" where
  "grant_key g = Some (pg_user_id g, pg_page_id g)"

definition granted_pages :: "int \<Rightarrow> app_db \<Rightarrow> int list" where
  "granted_pages i d = map (\<lambda>p. pg_page_id (snd p)) (filter (\<lambda>p. pg_user_id (snd p) = i) (ad_grants d))"

definition get_user_pages :: "auth_env \<Rightarrow> string option \<Rightarrow> int \<Rightarrow> app_db \<Rightarrow> int list res" where
  "get_user_pages env token i d = rbind (require_admin env token d) (\<lambda>_.
     rbind (get_user_or_404 i d) (\<lambda>u. Inr (granted_pages i d)))"

text \<open>The text of a list of integers.\<close>

definition show_ints :: "int list \<Rightarrow> string" where
  "show_ints xs = ''['' @ join '', '' (map show_int xs) @ '']''"

definition set_user_pages :: "auth_env \<Rightarrow> string option \<Rightarrow> int \<Rightarrow> int list \<Rightarrow> int list handler" where
  "set_user_pages env token i body_page_ids d = rbind (require_super_admin env token d) (\<lambda>_.
     rbind (get_user_or_404 i d) (\<lambda>u.
     let page_ids = sorted_set body_page_ids;
         missing = filter (\<lambda>p. p \<notin> set (map fst (ad_pages d))) page_ids
     in if missing \<noteq> [] then Inl (HTTPException 404 (''unknown page ids: '' @ show_ints missing))
        else rbind (replace_rows (ae_sql env) grant_key (\<lambda>g. pg_user_id g = i)
               (map (\<lambda>p. \<lparr>pg_user_id = i, pg_page_id = p\<rparr>) page_ids) (ad_grants d)) (\<lambda>t.
             Inr (page_ids, d\<lparr>ad_grants := t\<rparr>))))"

section \<open>Dashboard pages\<close>

record PageCreate =
  pb_name :: string
  pb_well_uid :: "string option"
  pb_well_name :: "string option"
  pb_region :: "string option"
  pb_layout :: json
  pb_owner_id :: "int option"

record PageUpdate =
  pu_name :: "string option option"
  pu_well_uid :: "string option option"
  pu_well_name :: "string option option"
  pu_region :: "string option option"
  pu_layout :: "json option option"

definition get_or_404 :: "int \<Rightarrow> app_db \<Rightarrow> DashboardPage res" where
  "get_or_404 i d = (case map_of (ad_pages d) i of
      None \<Rightarrow> Inl (HTTPException 404 (''page '' @ show_int i @ '' not found'')) | Some p \<Rightarrow> Inr p)"

text \<open>The response model: a layout that is not an object fails the response, after the commit.\<close>

definition page_out :: "int \<times> DashboardPage \<Rightarrow> (int \<times> DashboardPage) res" where
  "page_out p = (case dp_layout (snd p) of JObj kvs \<Rightarrow> Inr p | _ \<Rightarrow> Inl ValidationError)"

definition respond :: "('a \<Rightarrow> 'b res) \<Rightarrow> 'a handler \<Rightarrow> app_db \<Rightarrow> 'b res \<times> app_db" where
  "respond out h d = (case h d of Inl e \<Rightarrow> (Inl e, d) | Inr (x, d') \<Rightarrow> (out x, d'))"

definition list_pages :: "int option \<Rightarrow> string option \<Rightarrow> app_db \<Rightarrow> DashboardPage rows res" where
  "list_pages owner_id well_uid d = rmap page_out (rows_where (\<lambda>p.
     (case owner_id of None \<Rightarrow> True | Some i \<Rightarrow> dp_owner_id p = Some i) \<and>
     (case well_uid of None \<Rightarrow> True | Some u \<Rightarrow> dp_well_uid p = Some u)) (ad_pages d))"

text \<open>An owner that does not exist is refused where foreign keys are enforced.\<close>

definition add_page :: "auth_env \<Rightarrow> DashboardPage \<Rightarrow> (int \<times> DashboardPage) handler" where
  "add_page env p d = (if refers (ae_sql env) (dp_owner_id p) (ad_users d)
     then rbind (insert_row (ae_sql env) no_key p (ad_pages d)) (\<lambda>(i, t). Inr ((i, p), d\<lparr>ad_pages := t\<rparr>))
     else Inl DbError)"

definition create_page :: "auth_env \<Rightarrow> PageCreate \<Rightarrow> (int \<times> DashboardPage) handler" where
  "create_page env body d = add_page env
     \<lparr>dp_owner_id = pb_owner_id body, dp_name = pb_name body, dp_well_uid = pb_well_uid body,
      dp_well_name = pb_well_name body, dp_region = pb_region body, dp_layout = pb_layout body,
      dp_created_at = ae_now env, dp_updated_at = ae_now env\<rparr> d"

definition get_page :: "int \<Rightarrow> app_db \<Rightarrow> (int \<times> DashboardPage) res" where
  "get_page i d = rbind (get_or_404 i d) (\<lambda>p. page_out (i, p))"

text \<open>
  A layout of null is stored as the JSON null; the row is only written, and its time of update moved, when
  a field changes.
\<close>

definition updated_page :: "PageUpdate \<Rightarrow> DashboardPage \<Rightarrow> DashboardPage res" where
  "updated_page body p = rbind (set_required (pu_name body) (dp_name p)) (\<lambda>nm.
     Inr (p\<lparr>dp_name := nm, dp_well_uid := set_field (pu_well_uid body) (dp_well_uid p),
            dp_well_name := set_field (pu_well_name body) (dp_well_name p),
            dp_region := set_field (pu_region body) (dp_region p),
            dp_layout := (case pu_layout body of None \<Rightarrow> dp_layout p | Some None \<Rightarrow> JNull | Some (Some l) \<Rightarrow> l)\<rparr>))"

definition update_page :: "auth_env \<Rightarrow> int \<Rightarrow> PageUpdate \<Rightarrow> (int \<times> DashboardPage) handler" where
  "update_page env i body d = rbind (get_or_404 i d) (\<lambda>p. rbind (updated_page body p) (\<lambda>q.
     let q' = (if q = p then p else q\<lparr>dp_updated_at := ae_now env\<rparr>) in
     rbind (update_row (ae_sql env) no_key i q' (ad_pages d)) (\<lambda>t. Inr ((i, q'), d\<lparr>ad_pages := t\<rparr>))))"

text \<open>The grants of a deleted page go only where the engine enforces foreign keys.\<close>

definition delete_page :: "auth_env \<Rightarrow> int \<Rightarrow> unit handler" where
  "delete_page env i d = rbind (get_or_404 i d) (\<lambda>p. rbind (delete_row (ae_sql env) i (ad_pages d)) (\<lambda>t.
     Inr ((), d\<lparr>ad_pages := t, ad_grants := (if sql_foreign_keys (ae_sql env)
        then filter (\<lambda>g. pg_page_id (snd g) \<noteq> i) (ad_grants d) else ad_grants d)\<rparr>)))"

definition layout_copy :: "json \<Rightarrow> json" where
  "layout_copy l = (case l of JObj kvs \<Rightarrow> JObj kvs | _ \<Rightarrow> JObj [])"

definition duplicate_page :: "auth_env \<Rightarrow> int \<Rightarrow> string option \<Rightarrow> (int \<times> DashboardPage) handler" where
  "duplicate_page env i new_name d = rbind (get_or_404 i d) (\<lambda>src. add_page env
     \<lparr>dp_owner_id = dp_owner_id src, dp_name = or_str new_name (dp_name src @ '' (copy)''), dp_well_uid = dp_well_uid src,
      dp_well_name = dp_well_name src, dp_region = dp_region src, dp_layout = layout_copy (dp_layout src),
      dp_created_at = ae_now env, dp_updated_at = ae_now env\<rparr> d)"

section \<open>Requests\<close>

text \<open>The requests that can change an account table; \<open>serve\<close> is the database they leave.\<close>

datatype account_op =
    CreateUser UserCreate
  | UpdateUser int UserUpdate
  | DeleteUser int
  | SetUserPages int "int list"
  | NewPage PageCreate
  | UpdatePage int PageUpdate
  | DeletePage int
  | DuplicatePage int "string option"

definition left :: "('a \<times> app_db) res \<Rightarrow> app_db \<Rightarrow> app_db" where
  "left r d = (case r of Inl e \<Rightarrow> d | Inr p \<Rightarrow> snd p)"

fun serve :: "auth_env \<Rightarrow> string option \<Rightarrow> account_op \<Rightarrow> app_db \<Rightarrow> app_db" where
  "serve env token (CreateUser b) d = left (create_user env token b d) d"
| "serve env token (UpdateUser i b) d = left (update_user env token i b d) d"
| "serve env token (DeleteUser i) d = left (delete_user env token i d) d"
| "serve env token (SetUserPages i ps) d = left (set_user_pages env token i ps d) d"
| "serve env token (NewPage b) d = left (create_page env b d) d"
| "serve env token (UpdatePage i b) d = left (update_page env i b d) d"
| "serve env token (DeletePage i) d = left (delete_page env i d) d"
| "serve env token (DuplicatePage i n) d = left (duplicate_page env i n d) d"

text \<open>
  The accounts are well formed: user names and grants are unique, every access level is one of the three,
  a grant belongs to a user that exists, and to a page that exists where foreign keys are enforced.
\<close>

definition accounts_ok :: "sql \<Rightarrow> app_db \<Rightarrow> bool" where
  "accounts_ok db d = (table_ok user_key (ad_users d) \<and> table_ok grant_key (ad_grants d) \<and> table_ok no_key (ad_pages d) \<and>
     list_all (\<lambda>p. us_access_level (snd p) \<in> set ACCESS_LEVELS) (ad_users d) \<and>
     list_all (\<lambda>g. pg_user_id (snd g) \<in> fst ` set (ad_users d)) (ad_grants d) \<and>
     (sql_foreign_keys db \<longrightarrow> list_all (\<lambda>g. pg_page_id (snd g) \<in> fst ` set (ad_pages d)) (ad_grants d)))"

lemma left_cases: "(\<And>x d'. r = Inr (x, d') \<Longrightarrow> P d') \<Longrightarrow> P d \<Longrightarrow> P (left r d)"
  by (auto simp: left_def split: sum.splits)

text \<open>What a successful gate says.\<close>

lemma current_user_active:
  "get_current_user env token d = Inr (i, u) \<Longrightarrow> us_is_active u \<and> (i, u) \<in> set (ad_users d)"
  by (auto simp: get_current_user_def find_user_def scalar_one_def rbind_eq_Inr filter_eq_Cons_iff
      split: option.splits sum.splits if_splits list.splits)

lemma level_rank_super: "2 \<le> level_rank l \<longleftrightarrow> l = ''super_admin''"
  by (auto simp: level_rank_def)

lemma super_admin_gate:
  assumes "require_super_admin env token d = Inr p"
  shows "\<exists>i u. get_current_user env token d = Inr (i, u) \<and> us_is_active u \<and> us_access_level u = ''super_admin''"
proof -
  obtain i u where u: "get_current_user env token d = Inr (i, u)" "\<not> level_rank (us_access_level u) < level_rank ''super_admin''"
    using assms by (auto simp: require_super_admin_def require_level_def rbind_eq_Inr split: if_splits)
  have "level_rank ''super_admin'' = 2" by (simp add: level_rank_def)
  with u(2) have "us_access_level u = ''super_admin''" using level_rank_super [of "us_access_level u"] by simp
  with u(1) current_user_active show ?thesis by blast
qed

lemma insert_ids: "insert_row db key r t = Inr (i, t') \<Longrightarrow> set t' = insert (i, r) (set t)"
  by (auto simp: insert_row_Inr)

lemma update_ids:
  assumes "update_row db key i r t = Inr t'"
  shows "map fst t' = map fst t" "set t' \<subseteq> insert (i, r) (set t)"
proof -
  have t: "t' = map (\<lambda>p. if fst p = i then (i, r) else p) t" using assms by (auto simp: update_row_def split: if_splits)
  show "map fst t' = map fst t" unfolding t by (induction t) auto
  show "set t' \<subseteq> insert (i, r) (set t)" unfolding t by auto
qed

lemma insert_all_ok:
  assumes "insert_all db key rs t = Inr t'" "fresh_ids db" "table_ok key t"
  shows "table_ok key t' \<and> (\<exists>new. t' = t @ new \<and> map snd new = rs)"
  using assms
proof (induction rs arbitrary: t)
  case (Cons r rs)
  then obtain i t1 where i: "insert_row db key r t = Inr (i, t1)" "insert_all db key rs t1 = Inr t'"
    by (auto simp: insert_all_def rbind_eq_Inr)
  have "table_ok key t1" using stored.ins_valid [of db key t r i t1] i(1) Cons.prems by blast
  from Cons.IH [OF i(2) Cons.prems(2) this] obtain new where n: "table_ok key t'" "t' = t1 @ new" "map snd new = rs" by blast
  then show ?case using i(1) by (intro conjI exI [of _ "(i, r) # new"]) (simp_all add: insert_row_Inr)
qed (simp add: insert_all_def)

lemma replace_rows_ok:
  assumes "replace_rows db key old rs t = Inr t'" "fresh_ids db" "table_ok key t"
  shows "table_ok key t' \<and> (\<exists>new. t' = filter (\<lambda>p. \<not> old (snd p)) t @ new \<and> map snd new = rs)"
proof -
  let ?gone = "set (map fst (filter (\<lambda>p. old (snd p)) t))"
  have d: "distinct (map fst t)" using assms(3) by (simp add: table_ok_def)
  have "p \<in> set t \<Longrightarrow> fst p \<in> ?gone \<longleftrightarrow> old (snd p)" for p
    by (cases p) (force dest: eq_key_imp_eq_value [OF d])
  then have keep: "filter (\<lambda>p. fst p \<notin> ?gone) t = filter (\<lambda>p. \<not> old (snd p)) t" by (intro filter_cong) auto
  show ?thesis
  proof (cases "sql_inserts_first db")
    case True
    then obtain t1 where t1: "insert_all db key rs t = Inr t1" "t' = filter (\<lambda>p. fst p \<notin> ?gone) t1"
      using assms(1) by (auto simp: replace_rows_def Let_def rbind_eq_Inr)
    then obtain new where n: "table_ok key t1" "t1 = t @ new" "map snd new = rs" using insert_all_ok assms(2,3) by blast
    have "set (map fst t) \<inter> set (map fst new) = {}" using n(1,2) by (simp add: table_ok_def)
    then have "filter (\<lambda>p. fst p \<notin> ?gone) new = new" by (intro filter_True) force
    then have "t' = filter (\<lambda>p. \<not> old (snd p)) t @ new" using t1(2) n(2) keep by simp
    with n(3) t1(2) table_ok_filter [OF n(1)] show ?thesis by blast
  next
    case False
    then have "insert_all db key rs (filter (\<lambda>p. fst p \<notin> ?gone) t) = Inr t'"
      using assms(1) by (simp add: replace_rows_def Let_def)
    with insert_all_ok [OF this assms(2)] table_ok_filter [OF assms(3)] keep show ?thesis by metis
  qed
qed

section \<open>Every request keeps the accounts well formed\<close>

lemma accounts_ok_iff: "accounts_ok db d \<longleftrightarrow>
    table_ok user_key (ad_users d) \<and> table_ok grant_key (ad_grants d) \<and> table_ok no_key (ad_pages d) \<and>
    (\<forall>p \<in> set (ad_users d). us_access_level (snd p) \<in> set ACCESS_LEVELS) \<and>
    (\<forall>g \<in> set (ad_grants d). pg_user_id (snd g) \<in> fst ` set (ad_users d)) \<and>
    (sql_foreign_keys db \<longrightarrow> (\<forall>g \<in> set (ad_grants d). pg_page_id (snd g) \<in> fst ` set (ad_pages d)))"
  by (simp add: accounts_ok_def list_all_iff)

lemma remaining_ids: "fst ` set (filter (\<lambda>p. fst p \<noteq> i) t) = fst ` set t - {i}"
  by force

lemma users_ok:
  assumes "accounts_ok db d" "table_ok user_key t" "fst ` set (ad_users d) \<subseteq> fst ` set t"
    "\<And>p. p \<in> set t \<Longrightarrow> p \<in> set (ad_users d) \<or> us_access_level (snd p) \<in> set ACCESS_LEVELS"
  shows "accounts_ok db (d\<lparr>ad_users := t\<rparr>)"
  using assms unfolding accounts_ok_iff by simp blast

lemma create_user_Inr:
  assumes "create_user env token b d = Inr (x, d')"
  shows "\<exists>i t. insert_row (ae_sql env) user_key (created_user env b) (ad_users d) = Inr (i, t) \<and> d' = d\<lparr>ad_users := t\<rparr> \<and>
    uc_access_level b \<in> set ACCESS_LEVELS \<and> x = user_out (i, created_user env b)"
  using assms
  by (auto simp: create_user_def rbind_eq_Inr validate_level_def split: option.splits if_splits)

lemma create_user_ok:
  assumes "create_user env token b d = Inr (x, d')" "fresh_ids (ae_sql env)" "accounts_ok db d"
  shows "accounts_ok db d'"
proof -
  obtain i t where t: "insert_row (ae_sql env) user_key (created_user env b) (ad_users d) = Inr (i, t)" "d' = d\<lparr>ad_users := t\<rparr>"
    "uc_access_level b \<in> set ACCESS_LEVELS" using create_user_Inr [OF assms(1)] by blast
  have "table_ok user_key t"
    using stored.ins_valid [OF _ t(1)] assms(2,3) unfolding accounts_ok_iff by blast
  then show ?thesis
    unfolding t(2) by (rule users_ok [OF assms(3)]) (use insert_ids [OF t(1)] t(3) in \<open>auto simp: created_user_def\<close>)
qed

lemma updated_user_level:
  assumes "updated_user env b u = Inr u'" "us_access_level u \<in> set ACCESS_LEVELS"
    "validate_level (case uu_access_level b of None \<Rightarrow> None | Some l \<Rightarrow> l) = Inr ()"
  shows "us_access_level u' \<in> set ACCESS_LEVELS"
  using assms
  by (auto simp: updated_user_def rbind_eq_Inr set_required_def validate_level_def split: option.splits if_splits)

lemma update_user_ok:
  assumes "update_user env token i b d = Inr (x, d')" "fresh_ids (ae_sql env)" "accounts_ok db d"
  shows "accounts_ok db d'"
proof -
  obtain u u' t where u: "map_of (ad_users d) i = Some u" "updated_user env b u = Inr u'"
    "update_row (ae_sql env) user_key i u' (ad_users d) = Inr t" "d' = d\<lparr>ad_users := t\<rparr>"
    "validate_level (case uu_access_level b of None \<Rightarrow> None | Some l \<Rightarrow> l) = Inr ()"
    using assms(1) by (auto simp: update_user_def rbind_eq_Inr get_user_or_404_def split: option.splits)
  have "us_access_level u \<in> set ACCESS_LEVELS"
    using assms(3) map_of_SomeD [OF u(1)] unfolding accounts_ok_iff by force
  note l = updated_user_level [OF u(2) this u(5)]
  have "table_ok user_key t"
    using stored.upd_valid [OF _ u(3)] assms(2,3) unfolding accounts_ok_iff by blast
  moreover have "fst ` set t = fst ` set (ad_users d)" using arg_cong [OF update_ids(1) [OF u(3)], of set] by simp
  ultimately show ?thesis
    unfolding u(4) by (intro users_ok [OF assms(3)]) (use update_ids(2) [OF u(3)] l in auto)
qed

lemma delete_user_ok:
  assumes "delete_user env token i d = Inr (x, d')" "accounts_ok db d"
  shows "accounts_ok db d'"
proof -
  have "d' = d\<lparr>ad_users := filter (\<lambda>p. fst p \<noteq> i) (ad_users d), ad_grants := filter (\<lambda>p. pg_user_id (snd p) \<noteq> i) (ad_grants d)\<rparr>"
    using assms(1) by (auto simp: delete_user_def rbind_eq_Inr delete_row_def split: if_splits)
  then show ?thesis using assms(2) unfolding accounts_ok_iff
    by (simp add: table_ok_filter remaining_ids del: set_filter) simp
qed

lemma set_user_pages_Inr:
  assumes "set_user_pages env token i ps d = Inr (x, d')"
  obtains t u where "map_of (ad_users d) i = Some u" "\<forall>p \<in> set ps. p \<in> fst ` set (ad_pages d)"
    "replace_rows (ae_sql env) grant_key (\<lambda>g. pg_user_id g = i)
       (map (\<lambda>p. \<lparr>pg_user_id = i, pg_page_id = p\<rparr>) (sorted_set ps)) (ad_grants d) = Inr t"
    "d' = d\<lparr>ad_grants := t\<rparr>" "x = sorted_set ps"
  using assms
  by (auto simp: set_user_pages_def rbind_eq_Inr get_user_or_404_def Let_def filter_empty_conv sorted_set_def
      split: if_splits option.splits)

lemma set_user_pages_ok:
  assumes "set_user_pages env token i ps d = Inr (x, d')" "fresh_ids (ae_sql env)" "accounts_ok db d"
  shows "accounts_ok db d'"
proof -
  obtain t u where t: "map_of (ad_users d) i = Some u" "\<forall>p \<in> set ps. p \<in> fst ` set (ad_pages d)"
    "replace_rows (ae_sql env) grant_key (\<lambda>g. pg_user_id g = i)
       (map (\<lambda>p. \<lparr>pg_user_id = i, pg_page_id = p\<rparr>) (sorted_set ps)) (ad_grants d) = Inr t" "d' = d\<lparr>ad_grants := t\<rparr>"
    by (rule set_user_pages_Inr [OF assms(1)])
  have "table_ok grant_key (ad_grants d)" using assms(3) by (simp add: accounts_ok_def)
  from replace_rows_ok [OF t(3) assms(2) this] obtain new where n: "table_ok grant_key t"
    "t = filter (\<lambda>p. pg_user_id (snd p) \<noteq> i) (ad_grants d) @ new"
    "map snd new = map (\<lambda>p. \<lparr>pg_user_id = i, pg_page_id = p\<rparr>) (sorted_set ps)" by blast
  have i: "i \<in> fst ` set (ad_users d)" using map_of_SomeD [OF t(1)] by force
  have "pg_user_id (snd g) = i \<and> pg_page_id (snd g) \<in> set ps" if "g \<in> set new" for g
  proof -
    from that have "snd g \<in> set (map snd new)" by force
    then show ?thesis unfolding n(3) by (auto simp: set_sorted_set)
  qed
  with n i t(2,4) assms(3) show ?thesis unfolding accounts_ok_iff by auto
qed

lemma pages_ok:
  assumes "accounts_ok db d" "table_ok no_key t" "fst ` set (ad_pages d) \<subseteq> fst ` set t"
  shows "accounts_ok db (d\<lparr>ad_pages := t\<rparr>)"
  using assms unfolding accounts_ok_iff by auto

lemma add_page_ok:
  assumes "add_page env p d = Inr (x, d')" "fresh_ids (ae_sql env)" "accounts_ok db d"
  shows "accounts_ok db d'"
proof -
  obtain i t where i: "insert_row (ae_sql env) no_key p (ad_pages d) = Inr (i, t)" "d' = d\<lparr>ad_pages := t\<rparr>"
    using assms(1) by (auto simp: add_page_def rbind_eq_Inr split: if_splits)
  have "table_ok no_key t"
    using stored.ins_valid [OF _ i(1)] assms(2,3) unfolding accounts_ok_iff by blast
  then show ?thesis unfolding i(2) by (rule pages_ok [OF assms(3)]) (use insert_ids [OF i(1)] in auto)
qed

lemma update_page_ok:
  assumes "update_page env i b d = Inr (x, d')" "fresh_ids (ae_sql env)" "accounts_ok db d"
  shows "accounts_ok db d'"
proof -
  obtain q t where t: "update_row (ae_sql env) no_key i q (ad_pages d) = Inr t" "d' = d\<lparr>ad_pages := t\<rparr>"
    using assms(1) by (auto simp: update_page_def rbind_eq_Inr Let_def)
  have "table_ok no_key t"
    using stored.upd_valid [OF _ t(1)] assms(2,3) unfolding accounts_ok_iff by blast
  moreover have "fst ` set t = fst ` set (ad_pages d)" using arg_cong [OF update_ids(1) [OF t(1)], of set] by simp
  ultimately show ?thesis unfolding t(2) by (intro pages_ok [OF assms(3)]) simp_all
qed

lemma delete_page_ok:
  assumes "delete_page env i d = Inr (x, d')" "accounts_ok (ae_sql env) d"
  shows "accounts_ok (ae_sql env) d'"
proof -
  have "d' = d\<lparr>ad_pages := filter (\<lambda>p. fst p \<noteq> i) (ad_pages d), ad_grants := (if sql_foreign_keys (ae_sql env)
      then filter (\<lambda>g. pg_page_id (snd g) \<noteq> i) (ad_grants d) else ad_grants d)\<rparr>"
    using assms(1) by (auto simp: delete_page_def rbind_eq_Inr delete_row_def split: if_splits)
  then show ?thesis using assms(2) unfolding accounts_ok_iff
    by (cases "sql_foreign_keys (ae_sql env)") (simp_all add: table_ok_filter remaining_ids del: set_filter, simp)
qed

lemma left_ok: "accounts_ok db d \<Longrightarrow> (\<And>x d'. r = Inr (x, d') \<Longrightarrow> accounts_ok db d') \<Longrightarrow> accounts_ok db (left r d)"
  by (rule left_cases)

lemma serve_ok:
  assumes "fresh_ids (ae_sql env)" "accounts_ok (ae_sql env) d"
  shows "accounts_ok (ae_sql env) (serve env token op d)"
proof -
  have create: "create_page env b d = Inr (x, d') \<Longrightarrow> accounts_ok (ae_sql env) d'" for b x d'
    unfolding create_page_def by (erule add_page_ok [OF _ assms])
  have duplicate: "duplicate_page env i n d = Inr (x, d') \<Longrightarrow> accounts_ok (ae_sql env) d'" for i n x d'
    using assms by (auto simp: duplicate_page_def rbind_eq_Inr elim: add_page_ok)
  show ?thesis
    by (cases op; simp only: serve.simps; rule left_ok [OF assms(2)];
        (erule create_user_ok [OF _ assms] | erule update_user_ok [OF _ assms] | erule delete_user_ok [OF _ assms(2)]
         | erule set_user_pages_ok [OF _ assms] | erule create | erule update_page_ok [OF _ assms]
         | erule delete_page_ok [OF _ assms(2)] | erule duplicate))
qed

section \<open>Replacing grants\<close>

lemma insert_all_DbError: "insert_all db key rs t = Inl e \<Longrightarrow> e = DbError"
  by (induction rs arbitrary: t) (auto simp: insert_all_def rbind_eq_Inl insert_row_def Let_def split: if_splits)

lemma fits_append: "key_free key r (t @ [(i, r')]) \<longleftrightarrow> key_free key r t \<and> (key r = None \<or> key r' \<noteq> key r)"
  by (auto simp: fits_iff)

lemma insert_all_Inr:
  assumes "sql_accepts db" "distinct (map key rs)" "\<forall>r \<in> set rs. key r \<noteq> None"
  shows "(\<exists>t'. insert_all db key rs t = Inr t') \<longleftrightarrow> (\<forall>r \<in> set rs. key_free key r t)"
  using assms(2,3)
proof (induction rs arbitrary: t)
  case (Cons r rs)
  have step: "insert_all db key (r # rs) t =
      (if key_free key r t then insert_all db key rs (t @ [(sql_new_id db (map fst t), r)]) else Inl DbError)"
    using assms(1) by (simp add: insert_all_def insert_row_def Let_def)
  have "key_free key r' (t @ [(i, r)]) = key_free key r' t" if "r' \<in> set rs" for r' i
    using Cons.prems that by (auto simp: fits_append image_iff)
  then show ?case using Cons.IH Cons.prems by (simp add: step)
qed (simp add: insert_all_def)

lemma granted_pages_split:
  "granted_pages j (d\<lparr>ad_grants := filter (\<lambda>p. pg_user_id (snd p) \<noteq> i) g @ new\<rparr>) =
     (if j = i then [] else map (\<lambda>p. pg_page_id (snd p)) (filter (\<lambda>p. pg_user_id (snd p) = j) g))
     @ map (\<lambda>p. pg_page_id (snd p)) (filter (\<lambda>p. pg_user_id (snd p) = j) new)"
  by (auto simp: granted_pages_def intro!: arg_cong [where f = "map _"] filter_cong)

lemma grants_replaced:
  assumes t: "replace_rows db grant_key (\<lambda>g. pg_user_id g = i)
      (map (\<lambda>p. \<lparr>pg_user_id = i, pg_page_id = p\<rparr>) (sorted_set ps)) (ad_grants d) = Inr t"
    and ok: "fresh_ids db" "table_ok grant_key (ad_grants d)"
  shows "granted_pages i (d\<lparr>ad_grants := t\<rparr>) = sorted_set ps \<and>
    (\<forall>j. j \<noteq> i \<longrightarrow> granted_pages j (d\<lparr>ad_grants := t\<rparr>) = granted_pages j d)"
proof -
  let ?new = "map (\<lambda>p. \<lparr>pg_user_id = i, pg_page_id = p\<rparr>) (sorted_set ps)"
  obtain new where n: "t = filter (\<lambda>p. pg_user_id (snd p) \<noteq> i) (ad_grants d) @ new" "map snd new = ?new"
    using replace_rows_ok [OF t ok] by blast
  have all: "pg_user_id (snd g) = i" if "g \<in> set new" for g
  proof -
    have "snd g \<in> set ?new" using that n(2) by (metis image_eqI set_map)
    then show ?thesis by auto
  qed
  have pg: "map (\<lambda>p. pg_page_id (snd p)) new = sorted_set ps"
    using arg_cong [OF n(2), of "map pg_page_id"] by (simp add: o_def)
  have "filter (\<lambda>p. pg_user_id (snd p) = j) new = (if j = i then new else [])" for j
    using all by (auto simp: filter_empty_conv)
  then show ?thesis using n(1) pg by (auto simp: granted_pages_split) (simp add: granted_pages_def)
qed

section \<open>Logging in\<close>

text \<open>
  What the code relies on of bcrypt and PyJWT: a hash is ASCII and checks its own password, and a token
  that has not expired decodes to its subject.
\<close>

definition auth_laws :: "auth_env \<Rightarrow> bool" where
  "auth_laws env = ((\<forall>p. list_all (\<lambda>c. code_of c < (128 :: nat)) (ae_hash env p) \<and> ae_check env p (ae_hash env p) = Inr True) \<and>
     (\<forall>c now. ae_encode env c \<noteq> [] \<and> (dt_us now < dt_us (tc_exp c) \<longrightarrow>
        (\<exists>c'. ae_decode env now (ae_encode env c) = Inr c' \<and> tc_sub c' = tc_sub c))))"

lemma token_decodes:
  assumes "auth_laws env" "0 < ae_expire_minutes env"
  shows "\<exists>c. decode_token env (create_access_token env s l) = Inr c \<and> tc_sub c = s \<and> create_access_token env s l \<noteq> []"
proof -
  let ?c = "\<lparr>tc_sub = s, tc_iat = ae_now env, tc_exp = DT True (dt_us (ae_now env) + ae_expire_minutes env * 60 * 1000000), tc_lvl = l\<rparr>"
  have "dt_us (ae_now env) < dt_us (tc_exp ?c)" using assms(2) by simp
  then have "\<exists>c'. ae_decode env (ae_now env) (ae_encode env ?c) = Inr c' \<and> tc_sub c' = tc_sub ?c" "ae_encode env ?c \<noteq> []"
    using assms(1) unfolding auth_laws_def by blast+
  then show ?thesis by (simp add: decode_token_def create_access_token_def)
qed

lemma find_created:
  assumes "insert_row db user_key u (ad_users d) = Inr (i, t)"
  shows "find_user (us_username u) (d\<lparr>ad_users := t\<rparr>) = Inr (Some (i, u))"
proof -
  have "filter (\<lambda>q. us_username (snd q) = us_username u) (ad_users d) = []"
    using assms by (auto simp: insert_row_Inr fits_iff user_key_def filter_empty_conv)
  then show ?thesis using assms by (simp add: find_user_def scalar_one_def insert_row_Inr)
qed

lemma active_user_logs_in:
  assumes "auth_laws env" "0 < ae_expire_minutes env" "find_user (us_username u) d = Inr (Some (i, u))" "us_is_active u"
    "us_username u \<noteq> []" "us_password_hash u = hash_password env p" "password_bytes pw = password_bytes p"
  shows "\<exists>t. login env (us_username u) pw d = Inr (t, user_out (i, u)) \<and> get_current_user env (Some t) d = Inr (i, u)"
proof -
  have "verify_password env pw (us_password_hash u) = Inr True"
    using assms(1,6,7) by (simp add: verify_password_def hash_password_def auth_laws_def)
  then have "authenticate_user env (us_username u) pw d = Inr (Some (i, u))"
    using assms(3,4) by (simp add: authenticate_user_def)
  moreover let ?t = "create_access_token env (us_username u) (us_access_level u)"
  obtain c where "decode_token env ?t = Inr c" "tc_sub c = us_username u" "?t \<noteq> []"
    using token_decodes [OF assms(1,2)] by blast
  then have "get_current_user env (Some ?t) d = Inr (i, u)"
    using assms(3-5) by (simp add: get_current_user_def or_none_def)
  ultimately show ?thesis by (simp add: login_def)
qed

section \<open>Properties\<close>



text \<open>
  C36. Replacing the grants of a user. A super admin's request for existing pages leaves exactly those pages
  granted to the user and nobody else's grants changed, unless the flush inserts before it deletes and one of
  the pages is granted already: then the commit breaks the unique constraint and the request fails.
\<close>

theorem set_user_pages_outcome:
  assumes "require_super_admin env token d = Inr admin" "map_of (ad_users d) i = Some u"
    and "\<forall>p \<in> set ps. p \<in> fst ` set (ad_pages d)"
    and "sql_accepts (ae_sql env)" "fresh_ids (ae_sql env)" "accounts_ok db d"
  shows "if sql_inserts_first (ae_sql env) \<and> set ps \<inter> set (granted_pages i d) \<noteq> {}
    then set_user_pages env token i ps d = Inl DbError
    else \<exists>d'. set_user_pages env token i ps d = Inr (sorted_set ps, d') \<and> granted_pages i d' = sorted_set ps \<and>
      (\<forall>j. j \<noteq> i \<longrightarrow> granted_pages j d' = granted_pages j d)"
proof -
  let ?db = "ae_sql env" and ?old = "\<lambda>g. pg_user_id g = i" and ?g = "ad_grants d"
  let ?new = "map (\<lambda>p. \<lparr>pg_user_id = i, pg_page_id = p\<rparr>) (sorted_set ps)"
  let ?rest = "filter (\<lambda>p. fst p \<notin> set (map fst (filter (\<lambda>p. ?old (snd p)) ?g))) ?g"
  have ok: "table_ok grant_key ?g" using assms(6) by (simp add: accounts_ok_def)
  have run: "set_user_pages env token i ps d = rbind (replace_rows ?db grant_key ?old ?new ?g) (\<lambda>t. Inr (sorted_set ps, d\<lparr>ad_grants := t\<rparr>))"
    using assms(1-3) by (auto simp: set_user_pages_def get_user_or_404_def Let_def filter_empty_conv set_sorted_set)
  have keys: "distinct (map grant_key ?new)" "\<forall>r \<in> set ?new. grant_key r \<noteq> None"
    by (auto simp: grant_key_def distinct_map inj_on_def distinct_sorted_set)
  have key_free: "(\<forall>r \<in> set ?new. key_free grant_key r t) \<longleftrightarrow> (\<forall>g \<in> set t. pg_user_id (snd g) = i \<longrightarrow> pg_page_id (snd g) \<notin> set ps)" for t
    by (auto simp: fits_iff grant_key_def set_sorted_set)
  have fin: "\<exists>d'. set_user_pages env token i ps d = Inr (sorted_set ps, d') \<and> granted_pages i d' = sorted_set ps \<and>
      (\<forall>j. j \<noteq> i \<longrightarrow> granted_pages j d' = granted_pages j d)" if "replace_rows ?db grant_key ?old ?new ?g = Inr t" for t
    using grants_replaced [OF that assms(5) ok] run that by simp
  have met: "(\<exists>t. insert_all ?db grant_key ?new ?g = Inr t) \<longleftrightarrow> set ps \<inter> set (granted_pages i d) = {}"
    unfolding insert_all_Inr [OF assms(4) keys] key_free by (auto simp: granted_pages_def)
  have free: "\<exists>t. insert_all ?db grant_key ?new ?rest = Inr t"
    unfolding insert_all_Inr [OF assms(4) keys] key_free by force
  show ?thesis
  proof (cases "sql_inserts_first ?db \<and> set ps \<inter> set (granted_pages i d) \<noteq> {}")
    case True
    with met obtain e where "insert_all ?db grant_key ?new ?g = Inl e" by (cases "insert_all ?db grant_key ?new ?g") auto
    with insert_all_DbError [OF this] True run show ?thesis by (simp add: replace_rows_def Let_def)
  next
    case False
    then have "\<exists>t. replace_rows ?db grant_key ?old ?new ?g = Inr t"
      using met free by (auto simp: replace_rows_def Let_def)
    with fin False show ?thesis by auto
  qed
qed

text \<open>
  C37. A user who was created active logs in: any password that agrees with the one of the request on the
  first 72 bytes of its UTF-8 form is accepted, and until the token expires it answers as that user.
\<close>

theorem created_user_logs_in:
  assumes laws: "auth_laws env" and created: "create_user env token b d = Inr (x, d')"
    and b: "uc_is_active b" "uc_username b \<noteq> []" and pw: "password_bytes pw = password_bytes (uc_password b)"
    and expire: "0 < ae_expire_minutes env"
  shows "\<exists>t. login env (uc_username b) pw d' = Inr (t, x) \<and> read_me env (Some t) d' = Inr x"
proof -
  let ?u = "created_user env b"
  obtain i t where t: "insert_row (ae_sql env) user_key ?u (ad_users d) = Inr (i, t)" "d' = d\<lparr>ad_users := t\<rparr>" "x = user_out (i, ?u)"
    using create_user_Inr [OF created] by blast
  have u: "us_username ?u = uc_username b" "us_is_active ?u" "us_password_hash ?u = hash_password env (uc_password b)"
    using b(1) by (simp_all add: created_user_def)
  have "find_user (us_username ?u) d' = Inr (Some (i, ?u))" using find_created [OF t(1)] t(2) by simp
  from active_user_logs_in [OF laws expire this, of "uc_password b" pw] u b(2) pw show ?thesis by (auto simp: t(3) read_me_def)
qed

section \<open>Examples\<close>

text \<open>An environment whose hash and tokens are plain texts.\<close>

definition ascii_of :: "string \<Rightarrow> string" where
  "ascii_of s = map (\<lambda>c. char_of (code_of c mod (128 :: nat))) s"

definition ex_auth :: auth_env where
  "ex_auth = \<lparr>ae_hash = ascii_of, ae_check = (\<lambda>p h. Inr (h = ascii_of p)), ae_encode = (\<lambda>c. CHR ''t'' # tc_sub c),
     ae_decode = (\<lambda>now t. Inr \<lparr>tc_sub = tl t, tc_iat = now, tc_exp = now, tc_lvl = ''''\<rparr>),
     ae_encrypt = rev, ae_decrypt = (\<lambda>s. Inr (rev s)), ae_expire_minutes = 720, ae_now = DT True 0, ae_sql = serial_db True\<rparr>"

lemma ex_laws: "auth_laws ex_auth"
  by (simp add: auth_laws_def ex_auth_def ascii_of_def list_all_iff)

definition ex_root :: User where
  "ex_root = \<lparr>us_username = ''root'', us_password_hash = ''x'', us_first_name = None, us_last_name = None, us_phone = None,
     us_address = None, us_position = None, us_access_level = ''super_admin'', us_is_active = True, us_created_at = DT True 0\<rparr>"

definition ex_page :: DashboardPage where
  "ex_page = \<lparr>dp_owner_id = None, dp_name = ''P'', dp_well_uid = None, dp_well_name = None, dp_region = None, dp_layout = JObj [],
     dp_created_at = DT True 0, dp_updated_at = DT True 0\<rparr>"

definition ex_accounts :: app_db where
  "ex_accounts = \<lparr>ad_servers = [], ad_parameters = [], ad_units = [], ad_pages = [(1, ex_page), (2, ex_page)],
     ad_users = [(1, ex_root)], ad_grants = [(1, \<lparr>pg_user_id = 1, pg_page_id = 1\<rparr>)], ad_reports = [], ad_remarks = [],
     ad_mud_properties = [], ad_searches = [], ad_depths = []\<rparr>"

definition ex_new_user :: UserCreate where
  "ex_new_user = \<lparr>uc_username = ''ann'', uc_password = ''secret'', uc_first_name = None, uc_last_name = None, uc_phone = None,
     uc_address = None, uc_position = None, uc_access_level = ''normal'', uc_is_active = True\<rparr>"

lemma ex_accounts_ok: "accounts_ok db ex_accounts"
  by (simp add: accounts_ok_def ex_accounts_def table_ok_def grant_key_def ex_root_def ACCESS_LEVELS_def)

lemma ex_admin: "require_super_admin ex_auth (Some ''troot'') ex_accounts = Inr (1, ex_root)"
  by (simp add: require_super_admin_def require_level_def get_current_user_def or_none_def decode_token_def ex_auth_def
      find_user_def scalar_one_def ex_accounts_def ex_root_def level_rank_def)

lemma ex_created: "\<exists>x d'. create_user ex_auth (Some ''troot'') ex_new_user ex_accounts = Inr (x, d') \<and>
    ad_users d' \<noteq> ad_users ex_accounts"
proof -
  have "ae_sql ex_auth = serial_db True" "find_user (uc_username ex_new_user) ex_accounts = Inr None"
    "validate_level (Some (uc_access_level ex_new_user)) = Inr ()"
    by (simp_all add: ex_auth_def find_user_def scalar_one_def ex_accounts_def ex_root_def ex_new_user_def validate_level_def ACCESS_LEVELS_def)
  moreover have "key_free user_key (created_user ex_auth ex_new_user) (ad_users ex_accounts)"
    by (simp add: key_free_def user_key_def created_user_def ex_new_user_def ex_accounts_def ex_root_def)
  ultimately show ?thesis
    by (simp add: create_user_def ex_admin insert_row_def Let_def) (simp add: serial_db_def)
qed



theorem set_user_pages_outcome_witness:
  "set_user_pages ex_auth (Some ''troot'') 1 [1, 2] ex_accounts = Inl DbError \<and>
   (\<exists>d'. set_user_pages ex_auth (Some ''troot'') 1 [2, 2] ex_accounts = Inr ([2], d') \<and> granted_pages 1 d' = [2])"
proof -
  have u: "map_of (ad_users ex_accounts) 1 = Some ex_root" by (simp add: ex_accounts_def)
  have p: "\<forall>p \<in> set [1, 2]. p \<in> fst ` set (ad_pages ex_accounts)" "\<forall>p \<in> set [2, 2]. p \<in> fst ` set (ad_pages ex_accounts)"
    by (simp_all add: ex_accounts_def)
  have q: "sql_accepts (ae_sql ex_auth)" "fresh_ids (ae_sql ex_auth)" "sql_inserts_first (ae_sql ex_auth)"
    using serial_db_fresh by (simp_all add: ex_auth_def serial_db_def)
  have g: "granted_pages 1 ex_accounts = [1]" by (simp add: granted_pages_def ex_accounts_def)
  have s: "sorted_set [2, 2 :: int] = [2]" by (simp add: sorted_set_def)
  from set_user_pages_outcome [OF ex_admin u p(1) q(1,2) ex_accounts_ok]
    set_user_pages_outcome [OF ex_admin u p(2) q(1,2) ex_accounts_ok] q(3)
  show ?thesis by (simp add: g s) blast
qed

theorem created_user_logs_in_witness:
  "\<exists>x d' t. create_user ex_auth (Some ''troot'') ex_new_user ex_accounts = Inr (x, d') \<and>
     login ex_auth ''ann'' ''secret'' d' = Inr (t, x) \<and> read_me ex_auth (Some t) d' = Inr x"
proof -
  obtain x d' where c: "create_user ex_auth (Some ''troot'') ex_new_user ex_accounts = Inr (x, d')" using ex_created by blast
  have b: "uc_is_active ex_new_user" "uc_username ex_new_user \<noteq> []" "0 < ae_expire_minutes ex_auth"
    "uc_username ex_new_user = ''ann''" "uc_password ex_new_user = ''secret''"
    by (simp_all add: ex_new_user_def ex_auth_def)
  from created_user_logs_in [OF ex_laws c b(1,2) refl b(3)] c b(4,5) show ?thesis by auto
qed

section \<open>Two consequences of the handlers\<close>

text \<open>
  Without foreign keys the grants of a deleted page stay, and a new page that gets its id is readable by
  whoever could read the old one.
\<close>

lemma deleted_page_grant_inherited:
  "let env = ex_auth\<lparr>ae_sql := serial_db False\<rparr>; d = ex_accounts\<lparr>ad_pages := [(1, ex_page)]\<rparr>;
       body = \<lparr>pb_name = ''Q'', pb_well_uid = None, pb_well_name = None, pb_region = None, pb_layout = JObj [], pb_owner_id = None\<rparr>;
       d' = serve env None (NewPage body) (serve env None (DeletePage 1) d)
   in map fst (ad_pages d') = [1] \<and> dp_name (snd (hd (ad_pages d'))) = ''Q'' \<and> granted_pages 1 d' = [1]"
  by (simp add: left_def delete_page_def get_or_404_def delete_row_def create_page_def add_page_def refers_def insert_row_def
      key_free_def ex_auth_def serial_db_def ex_accounts_def granted_pages_def Let_def)

text \<open>A layout of null is stored, after which the list of the pages cannot be answered.\<close>

lemma null_layout_breaks_listing:
  "let body = \<lparr>pu_name = None, pu_well_uid = None, pu_well_name = None, pu_region = None, pu_layout = Some None\<rparr>;
       (r, d') = respond page_out (update_page ex_auth 1 body) ex_accounts
   in r = Inl ValidationError \<and> list_pages None None d' = Inl ValidationError"
  by (simp add: respond_def page_out_def update_page_def get_or_404_def updated_page_def set_required_def set_field_def
      update_row_def key_free_def ex_auth_def serial_db_def ex_accounts_def list_pages_def rows_where_def ex_page_def Let_def)

end
