(* ===== verification/Servers.thy ===== *)
theory Servers
  imports Accounts StoreApi
begin

text \<open>
  \<^verbatim>\<open>backend/app/api/servers.py\<close>: the catalogue of WITSML servers. Credentials are stored encrypted and the
  response model has no field for them. The client that a test builds is the parameter \<open>connect\<close>: the service
  behind a URL, a user name, a password and the choice to verify certificates.
\<close>

record ServerCreate =
  sc_name :: string
  sc_url :: string
  sc_username :: string
  sc_password :: string
  sc_verify_ssl :: bool
  sc_version :: "string option"

record ServerUpdate =
  su_name :: "string option option"
  su_url :: "string option option"
  su_username :: "string option option"
  su_password :: "string option option"
  su_verify_ssl :: "bool option option"
  su_version :: "string option option"

record ServerOut =
  so_id :: int
  so_name :: string
  so_url :: string
  so_username :: string
  so_verify_ssl :: bool
  so_version :: "string option"
  so_created_at :: datetime

definition server_out :: "int \<times> ServerConnection \<Rightarrow> ServerOut" where
  "server_out p = (case p of (i, s) \<Rightarrow> \<lparr>so_id = i, so_name = sv_name s, so_url = sv_url s, so_username = sv_username s,
     so_verify_ssl = sv_verify_ssl s, so_version = sv_version s, so_created_at = sv_created_at s\<rparr>)"

definition server_key :: "ServerConnection \<Rightarrow> string option" where
  "server_key s = Some (sv_name s)"

definition server_or_404 :: "int \<Rightarrow> app_db \<Rightarrow> ServerConnection res" where
  "server_or_404 i d = (case map_of (ad_servers d) i of
      None \<Rightarrow> Inl (HTTPException 404 (''server '' @ show_int i @ '' not found'')) | Some s \<Rightarrow> Inr s)"

definition list_servers :: "auth_env \<Rightarrow> string option \<Rightarrow> app_db \<Rightarrow> ServerOut list res" where
  "list_servers env token d = rbind (require_admin env token d) (\<lambda>_.
     Inr (map server_out (rows_where (\<lambda>s. True) (ad_servers d))))"

definition created_server :: "auth_env \<Rightarrow> ServerCreate \<Rightarrow> ServerConnection" where
  "created_server env body = \<lparr>sv_name = sc_name body, sv_url = sc_url body, sv_username = sc_username body,
     sv_password_encrypted = ae_encrypt env (sc_password body), sv_verify_ssl = sc_verify_ssl body,
     sv_version = sc_version body, sv_created_at = ae_now env\<rparr>"

definition create_server :: "auth_env \<Rightarrow> string option \<Rightarrow> ServerCreate \<Rightarrow> ServerOut handler" where
  "create_server env token body d = rbind (require_admin env token d) (\<lambda>_.
     rbind (scalar_one (\<lambda>s. sv_name s = sc_name body) (ad_servers d)) (\<lambda>existing. case existing of
        Some _ \<Rightarrow> Inl (HTTPException 409 ''server name already exists'')
      | None \<Rightarrow> rbind (insert_row (ae_sql env) server_key (created_server env body) (ad_servers d)) (\<lambda>(i, t).
          Inr (server_out (i, created_server env body), d\<lparr>ad_servers := t\<rparr>))))"

definition get_server :: "auth_env \<Rightarrow> string option \<Rightarrow> int \<Rightarrow> app_db \<Rightarrow> ServerOut res" where
  "get_server env token i d = rbind (require_admin env token d) (\<lambda>_.
     rbind (server_or_404 i d) (\<lambda>s. Inr (server_out (i, s))))"

text \<open>The password is only encrypted again when one is given.\<close>

definition updated_server :: "auth_env \<Rightarrow> ServerUpdate \<Rightarrow> ServerConnection \<Rightarrow> ServerConnection res" where
  "updated_server env body s =
     rbind (set_required (su_name body) (sv_name s)) (\<lambda>nm. rbind (set_required (su_url body) (sv_url s)) (\<lambda>url.
     rbind (set_required (su_username body) (sv_username s)) (\<lambda>user.
     rbind (set_required (su_verify_ssl body) (sv_verify_ssl s)) (\<lambda>verify.
     Inr (s\<lparr>sv_name := nm, sv_url := url, sv_username := user, sv_verify_ssl := verify,
            sv_version := set_field (su_version body) (sv_version s),
            sv_password_encrypted := (case su_password body of
                Some p \<Rightarrow> (case or_none p of Some q \<Rightarrow> ae_encrypt env q | None \<Rightarrow> sv_password_encrypted s)
              | None \<Rightarrow> sv_password_encrypted s)\<rparr>)))))"

definition update_server :: "auth_env \<Rightarrow> string option \<Rightarrow> int \<Rightarrow> ServerUpdate \<Rightarrow> ServerOut handler" where
  "update_server env token i body d = rbind (require_admin env token d) (\<lambda>_.
     rbind (server_or_404 i d) (\<lambda>s. rbind (updated_server env body s) (\<lambda>s'.
     rbind (update_row (ae_sql env) server_key i s' (ad_servers d)) (\<lambda>t.
     Inr (server_out (i, s'), d\<lparr>ad_servers := t\<rparr>)))))"

definition delete_server :: "auth_env \<Rightarrow> string option \<Rightarrow> int \<Rightarrow> unit handler" where
  "delete_server env token i d = rbind (require_admin env token d) (\<lambda>_.
     rbind (server_or_404 i d) (\<lambda>s. rbind (delete_row (ae_sql env) i (ad_servers d)) (\<lambda>t. Inr ((), d\<lparr>ad_servers := t\<rparr>))))"

text \<open>A credential that does not decrypt raises before the probe.\<close>

definition test_server :: "(string \<Rightarrow> string \<Rightarrow> string \<Rightarrow> bool \<Rightarrow> 's service) \<Rightarrow> auth_env \<Rightarrow> string option \<Rightarrow> int \<Rightarrow> app_db
    \<Rightarrow> (string, 's) act" where
  "test_server connect env token i d =
     sbind (lift_res (require_admin env token d)) (\<lambda>_. sbind (lift_res (server_or_404 i d)) (\<lambda>s.
     sbind (lift_res (ae_decrypt env (sv_password_encrypted s))) (\<lambda>password.
     gateway ''WITSML store error'' ''Failed to reach WITSML store''
       (get_version (connect (sv_url s) (sv_username s) password (sv_verify_ssl s))))))"

section \<open>Properties\<close>

lemma created_server_out: "server_out (i, created_server env (b\<lparr>sc_password := p\<rparr>)) = server_out (i, created_server env b)"
  by (simp add: server_out_def created_server_def)

lemma server_out_id: "so_id (server_out p) = fst p"
  by (cases p) (simp add: server_out_def)

lemma create_server_Inr:
  assumes "create_server env token b d = Inr (x, d')"
  shows "\<exists>i t admin. require_admin env token d = Inr admin \<and>
    insert_row (ae_sql env) server_key (created_server env b) (ad_servers d) = Inr (i, t) \<and> d' = d\<lparr>ad_servers := t\<rparr> \<and>
    x = server_out (i, created_server env b)"
  using assms by (auto simp: create_server_def rbind_eq_Inr split: option.splits)

text \<open>
  C30. A stored credential is used and never shown. What an admin is answered about a new server does not
  depend on the password, and neither does any later listing; testing the server afterwards probes the URL
  with exactly the user name and the password that were given.
\<close>

theorem credential_used_not_shown:
  assumes law: "\<forall>p. ae_decrypt env (ae_encrypt env p) = Inr p" and "fresh_ids (ae_sql env)" "table_ok server_key (ad_servers d)"
    and created: "create_server env token b d = Inr (x, d')"
  shows "\<exists>d2. create_server env token (b\<lparr>sc_password := p\<rparr>) d = Inr (x, d2) \<and>
      list_servers env token d2 = list_servers env token d' \<and>
      test_server connect env token (so_id x) d' s =
        gateway ''WITSML store error'' ''Failed to reach WITSML store''
          (get_version (connect (sc_url b) (sc_username b) (sc_password b) (sc_verify_ssl b))) s"
proof -
  obtain i t admin where t: "require_admin env token d = Inr admin"
    "insert_row (ae_sql env) server_key (created_server env b) (ad_servers d) = Inr (i, t)" "d' = d\<lparr>ad_servers := t\<rparr>"
    "x = server_out (i, created_server env b)" using create_server_Inr [OF created] by blast
  have gate: "require_admin env token (d\<lparr>ad_servers := u\<rparr>) = Inr admin" for u
    using t(1) by (simp add: require_admin_def require_level_def get_current_user_def find_user_def
        cong: if_cong option.case_cong sum.case_cong)
  let ?b = "b\<lparr>sc_password := p\<rparr>"
  have key_free: "key_free server_key (created_server env ?b) r = key_free server_key (created_server env b) r" for r
    by (simp add: fits_iff server_key_def created_server_def)
  let ?t = "ad_servers d @ [(i, created_server env ?b)]"
  have none: "scalar_one (\<lambda>s. sv_name s = sc_name b) (ad_servers d) = Inr None"
  proof (cases "scalar_one (\<lambda>s. sv_name s = sc_name b) (ad_servers d)")
    case (Inr v)
    then show ?thesis using created t(1) by (cases v) (auto simp: create_server_def)
  qed (use created t(1) in \<open>simp add: create_server_def\<close>)
  have "create_server env token ?b d = Inr (x, d\<lparr>ad_servers := ?t\<rparr>)"
    using t none by (simp add: create_server_def insert_row_def key_free created_server_out Let_def split: if_splits)
  moreover have "list_servers env token (d\<lparr>ad_servers := ?t\<rparr>) = list_servers env token d'"
  proof -
    have "map server_out (sort_key fst (u @ [(i, created_server env ?b)])) =
        map server_out (sort_key fst (u @ [(i, created_server env b)]))" for u
      by (simp add: map_sort_key [of so_id server_out fst] server_out_id created_server_out)
    then show ?thesis using t(2,3) gate by (simp add: list_servers_def rows_where_def insert_row_Inr)
  qed
  moreover have "map_of t i = Some (created_server env b)"
    using stored.ins_row [OF _ t(2), of i] assms(2,3) by simp
  then have "test_server connect env token (so_id x) d' s = gateway ''WITSML store error'' ''Failed to reach WITSML store''
          (get_version (connect (sc_url b) (sc_username b) (sc_password b) (sc_verify_ssl b))) s"
    using t gate law by (simp add: test_server_def server_or_404_def server_out_def sbind_def lift_res_def created_server_def)
  ultimately show ?thesis by blast
qed

definition ex_server :: ServerCreate where
  "ex_server = \<lparr>sc_name = ''rig'', sc_url = ''http://rig'', sc_username = ''u'', sc_password = ''secret'', sc_verify_ssl = True,
     sc_version = None\<rparr>"

theorem credential_used_not_shown_witness:
  "\<exists>x d' d2. create_server ex_auth (Some ''troot'') ex_server ex_accounts = Inr (x, d') \<and>
     create_server ex_auth (Some ''troot'') (ex_server\<lparr>sc_password := ''other''\<rparr>) ex_accounts = Inr (x, d2) \<and>
     test_server (\<lambda>url user pw v. ex_tree_service) ex_auth (Some ''troot'') (so_id x) d' () = (Inl (HTTPException 502 ''Failed to reach WITSML store.''), ())"
proof -
  have law: "\<forall>p. ae_decrypt ex_auth (ae_encrypt ex_auth p) = Inr p" and fresh: "fresh_ids (ae_sql ex_auth)"
    and t: "table_ok server_key (ad_servers ex_accounts)" and gate: "require_admin ex_auth (Some ''troot'') ex_accounts = Inr (1, ex_root)"
    using serial_db_fresh
    by (simp_all add: ex_auth_def table_ok_def ex_accounts_def require_admin_def require_level_def get_current_user_def
        or_none_def decode_token_def find_user_def scalar_one_def ex_root_def level_rank_def)
  obtain x d' where c: "create_server ex_auth (Some ''troot'') ex_server ex_accounts = Inr (x, d')"
    by (simp add: create_server_def gate insert_row_def Let_def)
       (simp add: ex_accounts_def scalar_one_def key_free_def ex_auth_def serial_db_def server_key_def)
  from credential_used_not_shown [OF law fresh t c, of "''other''" "\<lambda>url user pw v. ex_tree_service" "()"] c
  show ?thesis
    by (simp add: gateway_def get_version_def ex_tree_service_def sbind_def bad_gateway_def) metis
qed

end
