(* ===== verification/Expressions.thy ===== *)
theory Expressions
  imports Prelude PyFloat
begin

text \<open>
  The expression trees of Python's \<^verbatim>\<open>ast\<close> module, as far as the two formula engines look at them, and the
  breadth-first walk over them. A class the engines do not name is \<open>OtherExpr\<close> with the name of its class and
  its children. Parsing is a parameter of the engines: a text gives a tree or the two texts of a SyntaxError.
  What evaluates a tree is the library simpleeval, also a parameter: it gives a number, or an exception of its
  own or of Python.
\<close>

datatype bin_op = Add | Sub | Mult | Div | Pow | Mod | OtherBin string

datatype un_op = USub | UAdd | OtherUn string

datatype const = CInt int | CFloat pyfloat | CBool bool | COther

datatype expr =
    BinOp expr bin_op expr
  | UnaryOp un_op expr
  | Constant const
  | Name string
  | Call expr "expr list" "expr list"
  | OtherExpr string "expr list"

text \<open>
  The nodes of a walk. An expression carries whether it is the callee of a call, which is how the engines
  tell the name nodes they have collected apart; a keyword is a node around its value.
\<close>

datatype ast_node =
    Expression expr
  | Node bool expr
  | BinNode bin_op
  | UnNode un_op
  | Load
  | Keyword expr

fun child_nodes :: "ast_node \<Rightarrow> ast_node list" where
  "child_nodes (Expression e) = [Node False e]"
| "child_nodes (Node c (BinOp l op r)) = [Node False l, BinNode op, Node False r]"
| "child_nodes (Node c (UnaryOp op e)) = [UnNode op, Node False e]"
| "child_nodes (Node c (Constant k)) = []"
| "child_nodes (Node c (Name n)) = [Load]"
| "child_nodes (Node c (Call f args kws)) = Node True f # map (Node False) args @ map Keyword kws"
| "child_nodes (Node c (OtherExpr n es)) = map (Node False) es"
| "child_nodes (BinNode op) = []"
| "child_nodes (UnNode op) = []"
| "child_nodes Load = []"
| "child_nodes (Keyword e) = [Node False e]"

text \<open>A weight that the children of a node together do not reach.\<close>

fun weight :: "expr \<Rightarrow> nat" where
  "weight (BinOp l op r) = weight l + weight r + 3"
| "weight (UnaryOp op e) = weight e + 3"
| "weight (Constant k) = 1"
| "weight (Name n) = 2"
| "weight (Call f args kws) = weight f + sum_list (map weight args) + sum_list (map (\<lambda>k. weight k + 1) kws) + 1"
| "weight (OtherExpr n es) = sum_list (map weight es) + 1"

fun node_weight :: "ast_node \<Rightarrow> nat" where
  "node_weight (Expression e) = weight e + 1"
| "node_weight (Node c e) = weight e"
| "node_weight (BinNode op) = 1"
| "node_weight (UnNode op) = 1"
| "node_weight Load = 1"
| "node_weight (Keyword e) = weight e + 1"

lemma weight_pos [simp]: "0 < weight e"
  by (cases e) auto

lemma children_lighter: "sum_list (map node_weight (child_nodes x)) < node_weight x"
proof (cases x)
  case (Node c e)
  then show ?thesis by (cases e) (auto simp: o_def)
qed auto

text \<open>\<^verbatim>\<open>ast.walk\<close>: a queue of nodes, each replaced by its children at the end.\<close>

function walk_queue :: "ast_node list \<Rightarrow> ast_node list" where
  "walk_queue [] = []"
| "walk_queue (x # q) = x # walk_queue (q @ child_nodes x)"
  by pat_completeness auto
termination
  by (relation "measure (\<lambda>q. sum_list (map node_weight q))") (use children_lighter in auto)

definition walk :: "expr \<Rightarrow> ast_node list" where
  "walk e = walk_queue [Expression e]"

fun bin_name :: "bin_op \<Rightarrow> string" where
  "bin_name Add = ''Add''" | "bin_name Sub = ''Sub''" | "bin_name Mult = ''Mult''" | "bin_name Div = ''Div''"
| "bin_name Pow = ''Pow''" | "bin_name Mod = ''Mod''" | "bin_name (OtherBin n) = n"

fun un_name :: "un_op \<Rightarrow> string" where
  "un_name USub = ''USub''" | "un_name UAdd = ''UAdd''" | "un_name (OtherUn n) = n"

fun type_name :: "ast_node \<Rightarrow> string" where
  "type_name (Expression e) = ''Expression''"
| "type_name (Node c (BinOp l op r)) = ''BinOp''"
| "type_name (Node c (UnaryOp op e)) = ''UnaryOp''"
| "type_name (Node c (Constant k)) = ''Constant''"
| "type_name (Node c (Name n)) = ''Name''"
| "type_name (Node c (Call f args kws)) = ''Call''"
| "type_name (Node c (OtherExpr n es)) = n"
| "type_name (BinNode op) = bin_name op"
| "type_name (UnNode op) = un_name op"
| "type_name Load = ''Load''"
| "type_name (Keyword e) = ''keyword''"

fun known_bin :: "bin_op \<Rightarrow> bool" where
  "known_bin (OtherBin n) = False" | "known_bin op = True"

fun known_un :: "un_op \<Rightarrow> bool" where
  "known_un (OtherUn n) = False" | "known_un op = True"

text \<open>The classes in both engines' \<^verbatim>\<open>_ALLOWED_NODES\<close>.\<close>

fun allowed_node :: "ast_node \<Rightarrow> bool" where
  "allowed_node (Node c (OtherExpr n es)) = False"
| "allowed_node (BinNode op) = known_bin op"
| "allowed_node (UnNode op) = known_un op"
| "allowed_node (Keyword e) = False"
| "allowed_node x = True"

text \<open>A literal that is an int or a float (a bool is an int), and its absolute value against a bound.\<close>

fun lit_within :: "int \<Rightarrow> const \<Rightarrow> bool option" where
  "lit_within b (CInt i) = Some (\<bar>i\<bar> \<le> b)"
| "lit_within b (CFloat x) = Some (\<not> fl_lt (Fin (of_int b)) (fl_abs x))"
| "lit_within b (CBool v) = Some ((if v then 1 else 0) \<le> b)"
| "lit_within b COther = None"

text \<open>\<^verbatim>\<open>{name!r}\<close> of an identifier.\<close>

definition quoted :: "string \<Rightarrow> string" where
  "quoted n = [CHR 0x27] @ n @ [CHR 0x27]"

text \<open>A float literal of the source.\<close>

abbreviation lit :: "rat \<Rightarrow> pyfloat" where "lit \<equiv> fround"

section \<open>Parsing and evaluation\<close>

datatype pynum = PInt int | PFloat pyfloat | POther

datatype eval_error = InvalidExpression string | Raised exn

record evaluator =
  ev_names :: "(string \<times> pyfloat) list"
  ev_functions :: "string list"
  ev_compound :: bool
  ev_max_exponent :: "int option"

record py_lang =
  pl_parse :: "string \<Rightarrow> (string \<times> string) + expr"
  pl_eval :: "evaluator \<Rightarrow> string \<Rightarrow> eval_error + pynum"
  pl_str :: "exn \<Rightarrow> string"
  pl_repr :: "pynum \<Rightarrow> string"

text \<open>\<^verbatim>\<open>float(x)\<close>: an integer beyond the range overflows, what is not a number is a TypeError.\<close>

definition float_of_num :: "pynum \<Rightarrow> pyfloat res" where
  "float_of_num v = (case v of
      PFloat x \<Rightarrow> Inr x
    | PInt i \<Rightarrow> (case fround (of_int i) of Fin q \<Rightarrow> Inr (Fin q) | _ \<Rightarrow> Inl OverflowError)
    | POther \<Rightarrow> Inl TypeError)"

section \<open>What a walk visits\<close>

inductive below :: "ast_node \<Rightarrow> ast_node \<Rightarrow> bool" where
  here: "below x x"
| child: "y \<in> set (child_nodes x) \<Longrightarrow> below y z \<Longrightarrow> below x z"

lemma set_walk_queue: "set (walk_queue q) = {z. \<exists>x \<in> set q. below x z}"
proof (induction q rule: walk_queue.induct)
  case (2 x q)
  have "below x z \<longleftrightarrow> z = x \<or> (\<exists>y \<in> set (child_nodes x). below y z)" for z
    by (subst below.simps) auto
  with 2 show ?case by auto
qed simp

lemma below_iff: "below x z \<longleftrightarrow> z = x \<or> (\<exists>y \<in> set (child_nodes x). below y z)"
  by (subst below.simps) auto

text \<open>A condition on every node of a walk, by recursion over the tree.\<close>

definition all_below :: "(ast_node \<Rightarrow> bool) \<Rightarrow> ast_node \<Rightarrow> bool" where
  "all_below p x = (\<forall>z. below x z \<longrightarrow> p z)"

lemma all_below_rec: "all_below p x \<longleftrightarrow> p x \<and> (\<forall>y \<in> set (child_nodes x). all_below p y)"
  by (auto simp: all_below_def below_iff [of x])

lemma all_walk: "(\<forall>z \<in> set (walk e). p z) \<longleftrightarrow> all_below p (Expression e)"
  by (simp add: walk_def set_walk_queue all_below_def del: child_nodes.simps walk_queue.simps)

lemma all_below_simps [simp]:
  "all_below p (Expression e) \<longleftrightarrow> p (Expression e) \<and> all_below p (Node False e)"
  "all_below p (Node c (BinOp l op r)) \<longleftrightarrow>
     p (Node c (BinOp l op r)) \<and> all_below p (Node False l) \<and> p (BinNode op) \<and> all_below p (Node False r)"
  "all_below p (Node c (UnaryOp uop e)) \<longleftrightarrow> p (Node c (UnaryOp uop e)) \<and> p (UnNode uop) \<and> all_below p (Node False e)"
  "all_below p (Node c (Constant k)) \<longleftrightarrow> p (Node c (Constant k))"
  "all_below p (Node c (Name n)) \<longleftrightarrow> p (Node c (Name n)) \<and> p Load"
  "all_below p (Node c (Call f args kws)) \<longleftrightarrow> p (Node c (Call f args kws)) \<and> all_below p (Node True f) \<and>
     (\<forall>a \<in> set args. all_below p (Node False a)) \<and> (\<forall>k \<in> set kws. all_below p (Keyword k))"
  "all_below p (Node c (OtherExpr n es)) \<longleftrightarrow> p (Node c (OtherExpr n es)) \<and> (\<forall>e \<in> set es. all_below p (Node False e))"
  "all_below p (Keyword e) \<longleftrightarrow> p (Keyword e) \<and> all_below p (Node False e)"
  by (subst all_below_rec; auto simp: all_below_rec [of p "BinNode _"] all_below_rec [of p "UnNode _"] all_below_rec [of p Load])+

text \<open>A loop that only checks ends without an exception when every check does.\<close>

lemma rfold_check: "rfold (\<lambda>x u. f x) xs () = Inr () \<longleftrightarrow> (\<forall>x \<in> set xs. f x = Inr ())"
  by (induction xs) (auto simp: rbind_eq_Inr)

end
