(* ===== verification/Units.thy ===== *)
theory Units
  imports Expressions Tables
begin

text \<open>
  Unit conversion: the formula engine (\<^verbatim>\<open>backend/app/units/engine.py\<close>), the built-in dictionary
  (\<^verbatim>\<open>units/dictionary.py\<close>) and the endpoints over the stored definitions (\<^verbatim>\<open>api/units.py\<close>). Pydantic has
  checked the lengths of the texts of a request.
\<close>

section \<open>The formula engine\<close>

definition VALUE_NAME :: string where "VALUE_NAME = ''__value__''"
definition MAX_EXPONENT :: int where "MAX_EXPONENT = 64"

definition ALLOWED_FUNCTIONS :: "string list" where
  "ALLOWED_FUNCTIONS = [''sin'', ''cos'', ''tan'', ''sqrt'', ''abs'', ''log'', ''exp'']"

text \<open>The doubles nearest to pi and e.\<close>

definition ALLOWED_CONSTANTS :: "(string \<times> pyfloat) list" where
  "ALLOWED_CONSTANTS = [(''pi'', fround (3141592653589793 / 10 ^ 15)), (''e'', fround (2718281828459045 / 10 ^ 15))]"

definition ALLOWED_NAMES :: "string list" where
  "ALLOWED_NAMES = VALUE_NAME # map fst ALLOWED_CONSTANTS"

definition exponent_magnitude :: exn where
  "exponent_magnitude = UnitFormulaError (''exponent magnitude exceeds '' @ show_int MAX_EXPONENT)"

definition check_exponent :: "expr \<Rightarrow> unit res" where
  "check_exponent exp_node =
     (let e = (case exp_node of UnaryOp op x \<Rightarrow> if known_un op then x else exp_node | _ \<Rightarrow> exp_node) in
      case (case e of Constant k \<Rightarrow> lit_within MAX_EXPONENT k | _ \<Rightarrow> None) of
        None \<Rightarrow> Inl (UnitFormulaError ''exponent must be a numeric literal'')
      | Some ok \<Rightarrow> if ok then Inr () else Inl exponent_magnitude)"

definition check_call :: "expr \<Rightarrow> expr list \<Rightarrow> unit res" where
  "check_call f kws = (case f of
      Name n \<Rightarrow> if n \<notin> set ALLOWED_FUNCTIONS then Inl (UnitFormulaError (''unknown function: '' @ quoted n))
        else if kws \<noteq> [] then Inl (UnitFormulaError ''keyword arguments are not allowed'') else Inr ()
    | _ \<Rightarrow> Inl (UnitFormulaError ''only direct function calls are allowed''))"

text \<open>The body of the first loop, and of the second, which looks at names that are not callees.\<close>

definition check_node :: "ast_node \<Rightarrow> unit res" where
  "check_node x = (if \<not> allowed_node x then Inl (UnitFormulaError (''disallowed syntax: '' @ type_name x))
     else case x of
         Node c (Call f args kws) \<Rightarrow> check_call f kws
       | Node c (BinOp l op r) \<Rightarrow> if op = Pow then check_exponent r else Inr ()
       | _ \<Rightarrow> Inr ())"

definition check_name :: "ast_node \<Rightarrow> unit res" where
  "check_name x = (case x of
      Node False (Name n) \<Rightarrow> if n \<in> set ALLOWED_NAMES then Inr () else Inl (UnitFormulaError (''unknown name: '' @ quoted n))
    | _ \<Rightarrow> Inr ())"

definition check_ast :: "expr \<Rightarrow> unit res" where
  "check_ast tree = rbind (rfold (\<lambda>x u. check_node x) (walk tree) ()) (\<lambda>u.
     rfold (\<lambda>x u. check_name x) (walk tree) ())"

text \<open>What \<^verbatim>\<open>validate\<close> answers: \<^const>\<open>None\<close> for \<^verbatim>\<open>(True, None)\<close>, otherwise the reason.\<close>

definition validate :: "py_lang \<Rightarrow> string \<Rightarrow> string option" where
  "validate py expression =
     (if strip expression = [] then Some ''expression is empty''
      else case pl_parse py expression of
          Inl (msg, text) \<Rightarrow> Some (''syntax error: '' @ msg)
        | Inr tree \<Rightarrow> (case check_ast tree of
            Inl (UnitFormulaError reason) \<Rightarrow> Some reason | Inl e \<Rightarrow> Some (pl_str py e) | Inr u \<Rightarrow> None))"

definition build_evaluator :: "pyfloat \<Rightarrow> evaluator" where
  "build_evaluator value = \<lparr>ev_names = AList.update VALUE_NAME value ALLOWED_CONSTANTS, ev_functions = ALLOWED_FUNCTIONS,
     ev_compound = False, ev_max_exponent = Some MAX_EXPONENT\<rparr>"

text \<open>
  Only the exceptions that are named become a formula error: a TypeError inside the evaluator and an
  integer result too large for a float escape.
\<close>

definition convert :: "py_lang \<Rightarrow> pyfloat \<Rightarrow> string \<Rightarrow> pyfloat res" where
  "convert py value expression = (case validate py expression of
      Some reason \<Rightarrow> Inl (UnitFormulaError reason)
    | None \<Rightarrow> (case pl_eval py (build_evaluator value) expression of
        Inl (InvalidExpression m) \<Rightarrow> Inl (UnitFormulaError m)
      | Inl (Raised (UnitFormulaError m)) \<Rightarrow> Inl (UnitFormulaError m)
      | Inl (Raised e) \<Rightarrow> Inl (if e \<in> {ZeroDivisionError, OverflowError, ValueError}
          then UnitFormulaError (''evaluation failed: '' @ pl_str py e) else e)
      | Inr v \<Rightarrow> (case float_of_num v of
          Inl e \<Rightarrow> Inl (if e = TypeError \<or> e = ValueError
            then UnitFormulaError (''expression did not produce a number: '' @ pl_repr py v) else e)
        | Inr x \<Rightarrow> Inr x)))"

section \<open>The dictionary\<close>

record Conv =
  cv_canonical :: string
  cv_factor :: pyfloat
  cv_offset :: pyfloat

definition PCF_PER_SG :: pyfloat where "PCF_PER_SG = fround (624 / 10)"
definition PPG_PER_SG :: pyfloat where "PPG_PER_SG = fround (8345404 / 10 ^ 6)"

definition linear :: "string \<Rightarrow> pyfloat \<Rightarrow> Conv" where
  "linear canonical factor = \<lparr>cv_canonical = canonical, cv_factor = factor, cv_offset = Fin 0\<rparr>"

text \<open>\<^verbatim>\<open>1.0 / c\<close> at import, where c is not zero.\<close>

definition per :: "pyfloat \<Rightarrow> pyfloat" where
  "per c = (case fl_div (lit 1) c of Inr x \<Rightarrow> x | Inl e \<Rightarrow> NaN)"

definition QUANTITIES :: "(string \<times> (string \<times> Conv) list) list" where
  "QUANTITIES = [
    (''length'', [(''m'', linear ''m'' (lit 1)), (''meter'', linear ''m'' (lit 1)), (''metre'', linear ''m'' (lit 1)),
      (''ft'', linear ''m'' (lit (3048 / 10000))), (''feet'', linear ''m'' (lit (3048 / 10000))),
      (''foot'', linear ''m'' (lit (3048 / 10000))), (''in'', linear ''m'' (lit (254 / 10000))),
      (''inch'', linear ''m'' (lit (254 / 10000))), (''cm'', linear ''m'' (lit (1 / 100))),
      (''mm'', linear ''m'' (lit (1 / 1000))), (''km'', linear ''m'' (lit 1000))]),
    (''pressure'', [(''kpa'', linear ''kPa'' (lit 1)), (''pa'', linear ''kPa'' (lit (1 / 1000))),
      (''mpa'', linear ''kPa'' (lit 1000)), (''psi'', linear ''kPa'' (lit (6894757 / 10 ^ 6))),
      (''bar'', linear ''kPa'' (lit 100)), (''mbar'', linear ''kPa'' (lit (1 / 10))),
      (''atm'', linear ''kPa'' (lit (101325 / 1000)))]),
    (''density'', [(''sg'', linear ''sg'' (lit 1)), (''g/cm3'', linear ''sg'' (lit 1)), (''g/cc'', linear ''sg'' (lit 1)),
      (''ppg'', linear ''sg'' (per PPG_PER_SG)), (''lb/gal'', linear ''sg'' (per PPG_PER_SG)),
      (''pcf'', linear ''sg'' (per PCF_PER_SG)), (''lb/ft3'', linear ''sg'' (per PCF_PER_SG)),
      (''kg/m3'', linear ''sg'' (lit (1 / 1000)))]),
    (''fraction'', [(''percent'', linear ''percent'' (lit 1)), (''%'', linear ''percent'' (lit 1)),
      (''pct'', linear ''percent'' (lit 1)), (''fraction'', linear ''percent'' (lit 100)),
      (''ppm'', linear ''percent'' (per (lit 10000))), (''ppk'', linear ''percent'' (lit (1 / 10)))]),
    (''force'', [(''n'', linear ''N'' (lit 1)), (''newton'', linear ''N'' (lit 1)), (''kn'', linear ''N'' (lit 1000)),
      (''lbf'', linear ''N'' (lit (44482216 / 10 ^ 7))), (''klbf'', linear ''N'' (lit (44482216 / 10 ^ 4))),
      (''kgf'', linear ''N'' (lit (980665 / 10 ^ 5))), (''dan'', linear ''N'' (lit 10))])]"

definition ALIAS_INDEX :: "(string \<times> Conv) list" where
  "ALIAS_INDEX = fold (\<lambda>(a, c) d. AList.update a c d) (concat (map snd QUANTITIES)) []"

definition unit_alias :: "string option \<Rightarrow> string" where
  "unit_alias uom = lower (strip (or_str uom ''''))"

definition canonical_unit :: "string \<Rightarrow> string option" where
  "canonical_unit from_uom = map_option cv_canonical (map_of ALIAS_INDEX (unit_alias (Some from_uom)))"

definition is_known :: "string \<Rightarrow> bool" where
  "is_known from_uom = (map_of ALIAS_INDEX (unit_alias (Some from_uom)) \<noteq> None)"

definition to_canonical :: "pyfloat \<Rightarrow> string \<Rightarrow> (pyfloat \<times> string) res" where
  "to_canonical value from_uom = (case map_of ALIAS_INDEX (unit_alias (Some from_uom)) of
      None \<Rightarrow> Inl KeyError
    | Some conv \<Rightarrow> Inr (fl_add (fl_mul value (cv_factor conv)) (cv_offset conv), cv_canonical conv))"

definition normalize :: "pyfloat \<Rightarrow> string \<Rightarrow> string option \<Rightarrow> pyfloat res" where
  "normalize value from_uom target = rbind (to_canonical value from_uom) (\<lambda>(converted, canon).
     case target of
       Some t \<Rightarrow> if unit_alias (Some t) \<noteq> lower canon then Inl ValueError else Inr converted
     | None \<Rightarrow> Inr converted)"

section \<open>The endpoints\<close>

record UnitDefCreate =
  un_name :: string
  un_from_unit :: string
  un_to_unit :: string
  un_expression :: string
  un_is_builtin :: bool

definition unit_key :: "UnitDef \<Rightarrow> (string \<times> string) option" where
  "unit_key u = Some (ud_from_unit u, ud_to_unit u)"

definition list_units :: "app_db \<Rightarrow> UnitDef rows" where
  "list_units d = rows_where (\<lambda>u. True) (ad_units d)"

text \<open>Whatever the commit raises is answered with 409.\<close>

definition create_unit :: "py_lang \<Rightarrow> sql \<Rightarrow> UnitDefCreate \<Rightarrow> (int \<times> UnitDef) handler" where
  "create_unit py db body d = (case validate py (un_expression body) of
      Some reason \<Rightarrow> Inl (HTTPException 400 (''invalid expression: '' @ reason))
    | None \<Rightarrow>
        (let u = \<lparr>ud_name = un_name body, ud_from_unit = un_from_unit body, ud_to_unit = un_to_unit body,
                  ud_expression = un_expression body, ud_is_builtin = un_is_builtin body\<rparr>
         in case insert_row db unit_key u (ad_units d) of
              Inl e \<Rightarrow> Inl (HTTPException 409 ''unit definition already exists or violates a constraint'')
            | Inr (i, t) \<Rightarrow> Inr ((i, u), d\<lparr>ad_units := t\<rparr>)))"

definition delete_unit :: "sql \<Rightarrow> int \<Rightarrow> unit handler" where
  "delete_unit db i d = (case map_of (ad_units d) i of
      None \<Rightarrow> Inl (HTTPException 404 ''unit definition not found'')
    | Some u \<Rightarrow> rbind (delete_row db i (ad_units d)) (\<lambda>t. Inr ((), d\<lparr>ad_units := t\<rparr>)))"

definition convert_value :: "py_lang \<Rightarrow> pyfloat \<Rightarrow> string \<Rightarrow> pyfloat res" where
  "convert_value py value expression = (case convert py value expression of
      Inl (UnitFormulaError m) \<Rightarrow> Inl (HTTPException 400 m) | r \<Rightarrow> r)"

section \<open>The check is the structural one\<close>

text \<open>What a safe unit formula is, by recursion over its tree.\<close>

definition small_exponent :: "expr \<Rightarrow> bool" where
  "small_exponent e = (check_exponent e = Inr ())"

fun safe_unit :: "expr \<Rightarrow> bool" where
  "safe_unit (BinOp l op r) = (known_bin op \<and> safe_unit l \<and> safe_unit r \<and> (op = Pow \<longrightarrow> small_exponent r))"
| "safe_unit (UnaryOp op e) = (known_un op \<and> safe_unit e)"
| "safe_unit (Constant k) = True"
| "safe_unit (Name n) = (n \<in> set ALLOWED_NAMES)"
| "safe_unit (Call f args kws) =
     ((case f of Name n \<Rightarrow> n \<in> set ALLOWED_FUNCTIONS | _ \<Rightarrow> False) \<and> kws = [] \<and> list_all safe_unit args)"
| "safe_unit (OtherExpr n es) = False"

definition node_ok :: "ast_node \<Rightarrow> bool" where
  "node_ok x = (check_node x = Inr () \<and> check_name x = Inr ())"

lemma call_ok: "check_call f kws = Inr () \<longleftrightarrow> (\<exists>n. f = Name n \<and> n \<in> set ALLOWED_FUNCTIONS) \<and> kws = []"
  by (cases f) (auto simp: check_call_def)

lemma node_ok_simps [simp]:
  "node_ok (Expression e)" "node_ok Load" "\<not> node_ok (Keyword e)" "\<not> node_ok (Node c (OtherExpr n es))"
  "node_ok (Node c (Constant k))" "node_ok (BinNode op) = known_bin op" "node_ok (UnNode uop) = known_un uop"
  "node_ok (Node c (Name n)) = (c \<or> n \<in> set ALLOWED_NAMES)"
  "node_ok (Node c (UnaryOp uop e))" "node_ok (Node c (BinOp l op r)) = (op = Pow \<longrightarrow> small_exponent r)"
  "node_ok (Node c (Call f args kws)) = (check_call f kws = Inr ())"
  by (auto simp: node_ok_def check_node_def check_name_def small_exponent_def split: bool.splits)

lemma below_ok_safe: "all_below node_ok (Node False e) \<longleftrightarrow> safe_unit e"
proof (induction e)
  case (Call f args kws)
  then show ?case by (cases f) (auto simp: call_ok list_all_iff)
qed auto

lemma check_ast_safe: "check_ast e = Inr () \<longleftrightarrow> safe_unit e"
proof -
  have "check_ast e = Inr () \<longleftrightarrow> (\<forall>x \<in> set (walk e). node_ok x)"
    by (auto simp: check_ast_def node_ok_def rbind_eq_Inr rfold_check)
  then show ?thesis by (simp add: all_walk below_ok_safe)
qed

lemma validate_None:
  "validate py t = None \<longleftrightarrow> strip t \<noteq> [] \<and> (\<exists>e. pl_parse py t = Inr e \<and> safe_unit e)"
proof (cases "pl_parse py t")
  case (Inr e)
  then show ?thesis
    by (cases "check_ast e") (auto simp: validate_def check_ast_safe [symmetric] split: exn.splits)
qed (auto simp: validate_def)

section \<open>Stored definitions\<close>

datatype unit_op = CreateUnit UnitDefCreate | DeleteUnit int

definition serve_unit :: "py_lang \<Rightarrow> sql \<Rightarrow> unit_op \<Rightarrow> app_db \<Rightarrow> app_db" where
  "serve_unit py db op d = (case op of
      CreateUnit b \<Rightarrow> (case create_unit py db b d of Inl e \<Rightarrow> d | Inr p \<Rightarrow> snd p)
    | DeleteUnit i \<Rightarrow> (case delete_unit db i d of Inl e \<Rightarrow> d | Inr p \<Rightarrow> snd p))"

text \<open>Rows are numbered apart, a pair of units has one definition, and every stored formula is safe.\<close>

definition units_ok :: "py_lang \<Rightarrow> app_db \<Rightarrow> bool" where
  "units_ok py d = (table_ok unit_key (ad_units d) \<and> list_all (\<lambda>p. validate py (ud_expression (snd p)) = None) (ad_units d))"

lemma create_unit_Inr:
  "create_unit py db b d = Inr ((i, u), d') \<longleftrightarrow> validate py (un_expression b) = None \<and>
     u = \<lparr>ud_name = un_name b, ud_from_unit = un_from_unit b, ud_to_unit = un_to_unit b, ud_expression = un_expression b,
          ud_is_builtin = un_is_builtin b\<rparr> \<and>
     (\<exists>t. insert_row db unit_key u (ad_units d) = Inr (i, t) \<and> d' = d\<lparr>ad_units := t\<rparr>)"
  by (auto simp: create_unit_def Let_def split: option.splits sum.splits)

lemma serve_unit_ok:
  assumes "fresh_ids db" "units_ok py d"
  shows "units_ok py (serve_unit py db op d)"
proof (cases op)
  case (CreateUnit b)
  show ?thesis
  proof (cases "create_unit py db b d")
    case (Inr p)
    obtain i u d' where p: "p = ((i, u), d')" by (cases p) auto
    with Inr obtain t where t: "validate py (un_expression b) = None" "ud_expression u = un_expression b"
        "insert_row db unit_key u (ad_units d) = Inr (i, t)" "d' = d\<lparr>ad_units := t\<rparr>"
      by (auto simp: create_unit_Inr)
    have "table_ok unit_key t" using stored.ins_valid [OF _ t(3)] assms by (simp add: units_ok_def)
    moreover have "t = ad_units d @ [(i, u)]" using t(3) by (simp add: insert_row_Inr)
    ultimately show ?thesis using assms(2) t Inr p CreateUnit by (simp add: units_ok_def serve_unit_def)
  qed (simp add: serve_unit_def CreateUnit assms)
next
  case (DeleteUnit i)
  then show ?thesis using assms
    by (auto simp: serve_unit_def delete_unit_def delete_row_def units_ok_def table_ok_filter rbind_eq_Inr list_all_iff
        split: sum.splits option.splits if_splits)
qed

lemma validated_rejects: "validate py t = Some r \<Longrightarrow> convert py v t = Inl (UnitFormulaError r)"
  by (simp add: convert_def)

section \<open>Canonical units\<close>

lemma lit_1: "lit 1 = Fin 1"
  using is_float_scaled [of 1 0 1] by (simp add: is_float_def)

lemma fold_update_entries:
  assumes "map_of (fold (\<lambda>(a, c) d. AList.update a c d) xs d) k = Some c"
  shows "map_of d k = Some c \<or> c \<in> snd ` set xs"
  using assms by (induction xs arbitrary: d) (force simp: update_conv' split: if_splits)+

lemma canonical_names:
  assumes "map_of ALIAS_INDEX k = Some c"
  shows "cv_canonical c \<in> {''m'', ''kPa'', ''sg'', ''percent'', ''N''} \<and> cv_offset c = Fin 0"
proof -
  have "c \<in> snd ` set (concat (map snd QUANTITIES))"
    using fold_update_entries assms unfolding ALIAS_INDEX_def by fastforce
  then show ?thesis by (auto simp: QUANTITIES_def linear_def)
qed

lemma canonical_entries:
  "map_of ALIAS_INDEX ''m'' = Some (linear ''m'' (lit 1))" "map_of ALIAS_INDEX ''kpa'' = Some (linear ''kPa'' (lit 1))"
  "map_of ALIAS_INDEX ''sg'' = Some (linear ''sg'' (lit 1))" "map_of ALIAS_INDEX ''percent'' = Some (linear ''percent'' (lit 1))"
  "map_of ALIAS_INDEX ''n'' = Some (linear ''N'' (lit 1))"
  by (simp_all add: ALIAS_INDEX_def QUANTITIES_def)

lemma canonical_itself:
  assumes "map_of ALIAS_INDEX k = Some c"
  shows "map_of ALIAS_INDEX (unit_alias (Some (cv_canonical c))) = Some (linear (cv_canonical c) (lit 1))"
    "unit_alias (Some (cv_canonical c)) = lower (cv_canonical c)"
proof -
  have "map unit_alias [Some ''m'', Some ''kPa'', Some ''sg'', Some ''percent'', Some ''N''] =
      [''m'', ''kpa'', ''sg'', ''percent'', ''n'']" by code_simp
  moreover have "map lower [''m'', ''kPa'', ''sg'', ''percent'', ''N''] = [''m'', ''kpa'', ''sg'', ''percent'', ''n'']" by code_simp
  ultimately show "map_of ALIAS_INDEX (unit_alias (Some (cv_canonical c))) = Some (linear (cv_canonical c) (lit 1))"
    "unit_alias (Some (cv_canonical c)) = lower (cv_canonical c)"
    using canonical_names [OF assms] by (auto simp: canonical_entries)
qed

lemma fround_representable: "fround q = Fin r \<Longrightarrow> fround r = Fin r"
  using fround_is_float by (simp add: is_float_def)

text \<open>What a conversion answers is a float, so one more multiplication by 1 and addition of 0 keeps it.\<close>

definition representable :: "pyfloat \<Rightarrow> bool" where
  "representable x = (case x of Fin r \<Rightarrow> fround r = Fin r | _ \<Rightarrow> True)"

lemma mul_representable: "representable (fl_mul v f)"
proof (cases "\<exists>a b. v = Fin a \<and> f = Fin b")
  case True
  then obtain a b where "fl_mul v f = fround (a * b)" by (auto simp: fl_mul_def)
  then show ?thesis using fround_representable [of "a * b"] by (auto simp: representable_def split: pyfloat.splits)
next
  case False
  then have "fl_mul v f \<in> {PInf, NInf, NaN}" unfolding fl_mul_def by (cases v; cases f) simp_all
  then show ?thesis by (auto simp: representable_def)
qed

lemma fl_unit:
  assumes "representable x"
  shows "fl_mul x (Fin 1) = x" "fl_add x (Fin 0) = x"
proof -
  show "fl_mul x (Fin 1) = x"
  proof (cases x)
    case (Fin r)
    with assms have "fround (r * 1) = Fin r" by (simp add: representable_def)
    then show ?thesis unfolding Fin fl_mul_def by (simp only: prod.case pyfloat.case)
  qed (simp_all add: fl_mul_def fl_sgn_def)
  show "fl_add x (Fin 0) = x"
  proof (cases x)
    case (Fin r)
    with assms have "fround (r + 0) = Fin r" by (simp add: representable_def)
    then show ?thesis unfolding Fin fl_add_def by (simp only: prod.case pyfloat.case)
  qed (simp_all add: fl_add_def)
qed

section \<open>Properties\<close>


text \<open>
  C38. Through any sequence of create and delete requests every stored unit definition has a safe formula, and
  a pair of units has at most one definition.
\<close>

theorem stored_units_stay_safe:
  assumes "fresh_ids db" "units_ok py d" "(i, u) \<in> set (ad_units (fold (serve_unit py db) ops d))"
  shows "(\<exists>e. pl_parse py (ud_expression u) = Inr e \<and> safe_unit e) \<and>
    (\<forall>(j, u') \<in> set (ad_units (fold (serve_unit py db) ops d)).
       ud_from_unit u' = ud_from_unit u \<longrightarrow> ud_to_unit u' = ud_to_unit u \<longrightarrow> j = i \<and> u' = u)"
proof -
  have "units_ok py (fold (serve_unit py db) ops d)"
    using assms(2) by (induction ops arbitrary: d) (auto simp: serve_unit_ok [OF assms(1)])
  then have ok: "table_ok unit_key (ad_units (fold (serve_unit py db) ops d))" "validate py (ud_expression u) = None"
    using assms(3) by (auto simp: units_ok_def list_all_iff)
  have "j = i \<and> u' = u" if "(j, u') \<in> set (ad_units (fold (serve_unit py db) ops d))"
      "ud_from_unit u' = ud_from_unit u" "ud_to_unit u' = ud_to_unit u" for j u'
  proof -
    have "j = i" using ok(1) assms(3) that unfolding table_ok_iff by (force simp: unit_key_def)
    then show ?thesis using ok(1) assms(3) that(1) eq_key_imp_eq_value unfolding table_ok_iff by metis
  qed
  then show ?thesis using ok(2) by (auto simp: validate_None)
qed

text \<open>
  A canonical unit is a fixed point of the dictionary: a converted value, converted again from its canonical unit,
  is the same value and unit, and normalizing to the canonical unit gives it.
\<close>

theorem canonical_fixed_point:
  assumes "to_canonical v u = Inr (x, c)"
  shows "to_canonical x c = Inr (x, c) \<and> normalize v u (Some c) = Inr x \<and> canonical_unit c = Some c"
proof -
  obtain conv where c: "map_of ALIAS_INDEX (unit_alias (Some u)) = Some conv" "c = cv_canonical conv"
      "x = fl_add (fl_mul v (cv_factor conv)) (cv_offset conv)"
    using assms by (auto simp: to_canonical_def split: option.splits)
  have x: "x = fl_mul v (cv_factor conv)"
    unfolding c(3) using canonical_names [OF c(1)] fl_unit(2) mul_representable by simp
  have "fl_add (fl_mul x (Fin 1)) (Fin 0) = x" using fl_unit [of x] mul_representable [of v "cv_factor conv"] unfolding x [symmetric] by simp
  then show ?thesis using canonical_itself [OF c(1)] assms c(2)
    by (simp add: to_canonical_def normalize_def canonical_unit_def linear_def lit_1)
qed

section \<open>Witnesses\<close>

definition ex_py :: py_lang where
  "ex_py = \<lparr>pl_parse = (\<lambda>t. if t = ''__value__ * 2'' then Inr (BinOp (Name ''__value__'') Mult (Constant (CInt 2)))
       else Inl (''invalid syntax'', ''invalid syntax'')),
     pl_eval = (\<lambda>ev t. Inr (PInt 1)), pl_str = (\<lambda>e. []), pl_repr = (\<lambda>v. [])\<rparr>"

definition no_rows :: app_db where
  "no_rows = \<lparr>ad_servers = [], ad_parameters = [], ad_units = [], ad_pages = [], ad_users = [], ad_grants = [], ad_reports = [],
     ad_remarks = [], ad_mud_properties = [], ad_searches = [], ad_depths = []\<rparr>"

definition double_def :: UnitDefCreate where
  "double_def = \<lparr>un_name = ''double'', un_from_unit = ''a'', un_to_unit = ''b'', un_expression = ''__value__ * 2'', un_is_builtin = False\<rparr>"

lemma ex_stored: "ad_units (fold (serve_unit ex_py (serial_db True)) [CreateUnit double_def, CreateUnit double_def] no_rows) =
    [(1, \<lparr>ud_name = ''double'', ud_from_unit = ''a'', ud_to_unit = ''b'', ud_expression = ''__value__ * 2'', ud_is_builtin = False\<rparr>)]"
proof -
  have "validate ex_py (un_expression double_def) = None"
    by (simp add: validate_None ex_py_def double_def_def VALUE_NAME_def ALLOWED_NAMES_def) code_simp
  then show ?thesis
    by (simp add: serve_unit_def create_unit_def Let_def insert_row_def key_free_def unit_key_def no_rows_def serial_db_def double_def_def)
qed

theorem stored_units_stay_safe_witness: "\<exists>e. pl_parse ex_py ''__value__ * 2'' = Inr e \<and> safe_unit e"
  using stored_units_stay_safe [OF serial_db_fresh [of True], of ex_py no_rows 1 _ "[CreateUnit double_def, CreateUnit double_def]", unfolded ex_stored]
  by (auto simp: units_ok_def no_rows_def table_ok_def)

theorem canonical_fixed_point_witness:
  "to_canonical (Fin 3) ''m'' = Inr (Fin 3, ''m'') \<and> canonical_unit ''m'' = Some ''m''"
proof -
  have "is_float 3" using is_float_scaled [of 3 0 3] by simp
  moreover have "unit_alias (Some ''m'') = ''m''" by code_simp
  ultimately have "to_canonical (Fin 3) ''m'' = Inr (Fin 3, ''m'')"
    by (simp add: to_canonical_def canonical_entries linear_def lit_1 fl_mul_def fl_add_def is_float_def)
  with canonical_fixed_point [OF this] show ?thesis by simp
qed

end
