(* ===== verification/Formulas.thy ===== *)
theory Formulas
  imports Expressions RingStore
begin

text \<open>
  The hydraulics formulas: the engine and the library (\<^verbatim>\<open>backend/app/formulas/hydraulics.py\<close>) and the
  endpoints that list the library and compute a formula with live values (\<^verbatim>\<open>api/formulas.py\<close>).
\<close>

section \<open>The engine\<close>

datatype VarDef = VarDef (vd_name: string) (vd_label: string) (vd_default: "pyfloat option") (vd_unit: "string option")
  (vd_suggest_mnemonic: "string option")

datatype FormulaDef = FormulaDef (fd_key: string) (fd_name: string) (fd_expression: string) (fd_variables: "VarDef list")
  (fd_result_unit: string) (fd_description: string)

definition var_names :: "FormulaDef \<Rightarrow> string list" where
  "var_names f = map vd_name (fd_variables f)"

definition ALLOWED_FUNCS :: "string list" where
  "ALLOWED_FUNCS = [''sqrt'', ''abs'', ''min'', ''max'', ''pow'']"

definition MAX_LITERAL_EXPONENT :: int where "MAX_LITERAL_EXPONENT = 8"

text \<open>The body of the first loop looks at calls.\<close>

definition check_callee :: "ast_node \<Rightarrow> unit res" where
  "check_callee x = (case x of
      Node c (Call f args kws) \<Rightarrow>
        if (case f of Name n \<Rightarrow> n \<notin> set ALLOWED_FUNCS | _ \<Rightarrow> True) then Inl (FormulaError ''only sqrt/abs/min/max/pow calls are allowed'')
        else if kws \<noteq> [] then Inl (FormulaError ''keyword arguments are not allowed'') else Inr ()
    | _ \<Rightarrow> Inr ())"

text \<open>The second loop: a name that is not a callee, then the class of the node, then the exponent of a power.\<close>

definition check_power :: "ast_node \<Rightarrow> unit res" where
  "check_power x = (case x of
      Node c (BinOp l op r) \<Rightarrow> if op \<noteq> Pow then Inr ()
        else (case (case r of Constant k \<Rightarrow> lit_within MAX_LITERAL_EXPONENT k | _ \<Rightarrow> None) of
            None \<Rightarrow> Inl (FormulaError ''exponent must be a small numeric literal'')
          | Some ok \<Rightarrow> if ok then Inr () else Inl (FormulaError ''exponent too large''))
    | _ \<Rightarrow> Inr ())"

definition check_element :: "string list \<Rightarrow> ast_node \<Rightarrow> unit res" where
  "check_element allowed_names x = rbind
     (case x of
        Node False (Name n) \<Rightarrow> if n \<in> set allowed_names then Inr ()
          else Inl (FormulaError (''unknown name '' @ quoted n @ '' in expression''))
      | _ \<Rightarrow> if allowed_node x then Inr ()
          else Inl (FormulaError (''disallowed expression element: '' @ type_name x)))
     (\<lambda>u. check_power x)"

definition validate_ast :: "py_lang \<Rightarrow> string \<Rightarrow> string list \<Rightarrow> unit res" where
  "validate_ast py expression allowed_names = (case pl_parse py expression of
      Inl (msg, text) \<Rightarrow> Inl (FormulaError (''invalid expression syntax: '' @ text))
    | Inr tree \<Rightarrow> rbind (rfold (\<lambda>x u. check_callee x) (walk tree) ())
        (\<lambda>u. rfold (\<lambda>x u. check_element allowed_names x) (walk tree) ()))"

definition formula_evaluator :: "(string \<times> pyfloat) list \<Rightarrow> evaluator" where
  "formula_evaluator values = \<lparr>ev_names = values, ev_functions = ALLOWED_FUNCS, ev_compound = True, ev_max_exponent = None\<rparr>"

text \<open>Every exception of the evaluator becomes a formula error; an integer too large for a float does not.\<close>

definition safe_eval :: "py_lang \<Rightarrow> string \<Rightarrow> (string \<times> pyfloat) list \<Rightarrow> pyfloat res" where
  "safe_eval py expression values = rbind (validate_ast py expression (map fst values @ ALLOWED_FUNCS)) (\<lambda>u.
     case pl_eval py (formula_evaluator values) expression of
       Inl (InvalidExpression m) \<Rightarrow> Inl (FormulaError (''evaluation failed: '' @ m))
     | Inl (Raised e) \<Rightarrow> Inl (FormulaError (if e = ZeroDivisionError then ''division by zero''
         else ''evaluation failed: '' @ pl_str py e))
     | Inr v \<Rightarrow> (case float_of_num v of
         Inl e \<Rightarrow> Inl (if e = TypeError \<or> e = ValueError then FormulaError ''expression did not produce a number'' else e)
       | Inr x \<Rightarrow> Inr x))"

section \<open>The library\<close>

definition FORMULAS :: "FormulaDef list" where
  "FORMULAS = [
    FormulaDef ''annular_velocity'' ''Annular Velocity'' ''(24.5 * Q) / (Dh**2 - Dp**2)''
      [VarDef ''Q'' ''Flow rate'' (Some (lit 600)) (Some ''gpm'') (Some ''FLOWIN''),
       VarDef ''Dh'' ''Hole diameter'' (Some (lit (85 / 10))) (Some ''in'') None,
       VarDef ''Dp'' ''Pipe OD'' (Some (lit 5)) (Some ''in'') None]
      ''ft/min'' ''Mud velocity in the annulus.'',
    FormulaDef ''ecd'' ''Equivalent Circulating Density (ECD)'' ''MW + (Pann / (0.052 * TVD))''
      [VarDef ''MW'' ''Mud weight'' (Some (lit (95 / 10))) (Some ''ppg'') (Some ''MW''),
       VarDef ''Pann'' ''Annular pressure loss'' (Some (lit 250)) (Some ''psi'') None,
       VarDef ''TVD'' ''True vertical depth'' (Some (lit 10000)) (Some ''ft'') (Some ''DEPTH'')]
      ''ppg'' ''Effective density including annular pressure loss.'',
    FormulaDef ''critical_velocity'' ''Critical Velocity'' ''(1.08 * PV + 1.08 * sqrt(PV**2 + 9.3 * MW * Dh**2 * YP)) / (MW * Dh)''
      [VarDef ''PV'' ''Plastic viscosity'' (Some (lit 20)) (Some ''cP'') None,
       VarDef ''YP'' ''Yield point'' (Some (lit 15)) (Some ''lbf/100ft2'') None,
       VarDef ''MW'' ''Mud weight'' (Some (lit (95 / 10))) (Some ''ppg'') (Some ''MW''),
       VarDef ''Dh'' ''Hole diameter'' (Some (lit (85 / 10))) (Some ''in'') None]
      ''ft/min'' ''Velocity at the laminar/turbulent transition (approx).'',
    FormulaDef ''bit_pressure_drop'' ''Pressure Drop Across Bit'' ''(Q**2 * MW) / (12031 * TFA**2)''
      [VarDef ''Q'' ''Flow rate'' (Some (lit 600)) (Some ''gpm'') (Some ''FLOWIN''),
       VarDef ''MW'' ''Mud weight'' (Some (lit (95 / 10))) (Some ''ppg'') (Some ''MW''),
       VarDef ''TFA'' ''Total flow area'' (Some (lit (5 / 10))) (Some ''in2'') None]
      ''psi'' ''Pressure loss across the bit nozzles.'',
    FormulaDef ''total_hydraulic_hp'' ''Total Hydraulic Horsepower'' ''(P * Q) / 1714''
      [VarDef ''P'' ''Standpipe pressure'' (Some (lit 3000)) (Some ''psi'') (Some ''SPP''),
       VarDef ''Q'' ''Flow rate'' (Some (lit 600)) (Some ''gpm'') (Some ''FLOWIN'')]
      ''hhp'' ''System hydraulic horsepower.'',
    FormulaDef ''hsi'' ''HSI (Horsepower per Square Inch)'' ''(1.27 * HHPbit) / Dbit**2''
      [VarDef ''HHPbit'' ''Bit hydraulic HP'' (Some (lit 800)) (Some ''hhp'') None,
       VarDef ''Dbit'' ''Bit diameter'' (Some (lit (85 / 10))) (Some ''in'') None]
      ''hp/in2'' ''Bit hydraulic horsepower per square inch of hole.'',
    FormulaDef ''pct_hhp_bit'' ''% HHP at Bit'' ''(Pbit / P) * 100''
      [VarDef ''Pbit'' ''Bit pressure drop'' (Some (lit 1500)) (Some ''psi'') None,
       VarDef ''P'' ''Standpipe pressure'' (Some (lit 3000)) (Some ''psi'') (Some ''SPP'')]
      ''%'' ''Share of hydraulic horsepower expended at the bit.'',
    FormulaDef ''impact_force'' ''Impact Force'' ''(GPM * MW * JV) / 1932''
      [VarDef ''GPM'' ''Flow rate'' (Some (lit 120)) (Some ''gpm'') None,
       VarDef ''MW'' ''Mud weight'' (Some (lit (95 / 10))) (Some ''ppg'') (Some ''MW''),
       VarDef ''JV'' ''Jet velocity'' (Some (lit 250)) (Some ''ft/s'') (Some ''SPARE'')]
      ''lbf'' ''Jet impact force at the bit (legacy form).'']"

definition find_formula :: "string \<Rightarrow> FormulaDef option" where
  "find_formula key = map_of (rev (map (\<lambda>f. (fd_key f, f)) FORMULAS)) key"

text \<open>The loop over the variables: a given value, or the default.\<close>

definition resolve_var :: "(string \<times> pyfloat) list \<Rightarrow> VarDef \<Rightarrow> (string \<times> pyfloat) list \<Rightarrow> (string \<times> pyfloat) list res" where
  "resolve_var values v resolved = (case map_of values (vd_name v) of
      Some x \<Rightarrow> Inr (AList.update (vd_name v) x resolved)
    | None \<Rightarrow> (case vd_default v of
        Some x \<Rightarrow> Inr (AList.update (vd_name v) x resolved)
      | None \<Rightarrow> Inl (FormulaError (''missing value for '' @ quoted (vd_name v)))))"

definition compute :: "py_lang \<Rightarrow> string \<Rightarrow> (string \<times> pyfloat) list \<Rightarrow> pyfloat res" where
  "compute py formula_key values = (case find_formula formula_key of
      None \<Rightarrow> Inl (FormulaError (''unknown formula '' @ quoted formula_key))
    | Some fdef \<Rightarrow> rbind (rfold (resolve_var values) (fd_variables fdef) [])
        (\<lambda>resolved. safe_eval py (fd_expression fdef) resolved))"

section \<open>The endpoints\<close>

datatype VariableOut = VariableOut string string "pyfloat option" "string option" "string option"

datatype FormulaOut = FormulaOut string string string string "VariableOut list"

definition list_formulas :: "FormulaOut list" where
  "list_formulas = map (\<lambda>f. FormulaOut (fd_key f) (fd_name f) (fd_description f) (fd_result_unit f)
     (map (\<lambda>v. VariableOut (vd_name v) (vd_label v) (vd_default v) (vd_unit v) (vd_suggest_mnemonic v)) (fd_variables f)))
     FORMULAS"

record ComputeRequest =
  cq_values :: "(string \<times> pyfloat) list option"
  cq_wellUid :: "string option"
  cq_bindings :: "(string \<times> string) list option"

record ComputeResponse =
  cp_key :: string
  cp_result :: pyfloat
  cp_result_unit :: string
  cp_used :: "(string \<times> pyfloat) list"

definition live_value :: "RingBufferStore \<Rightarrow> string \<Rightarrow> string \<Rightarrow> pyfloat option" where
  "live_value st well_uid mnemonic = (case map_of (get_recent well_uid (Some [mnemonic]) None (Some 1) st) mnemonic of
      None \<Rightarrow> None | Some [] \<Rightarrow> None | Some ss \<Rightarrow> cs_value (last ss))"

definition or_empty :: "'a list option \<Rightarrow> 'a list" where
  "or_empty x = (case x of Some xs \<Rightarrow> xs | None \<Rightarrow> [])"

text \<open>The body of the loop: the live value of a bound variable, a given value, the default, or nothing.\<close>

definition resolve_live :: "RingBufferStore \<Rightarrow> ComputeRequest \<Rightarrow> VarDef \<Rightarrow> (string \<times> pyfloat) list \<Rightarrow> (string \<times> pyfloat) list" where
  "resolve_live st payload v resolved =
     (let live = (case map_of (or_empty (cq_bindings payload)) (vd_name v) of
            Some m \<Rightarrow> if m \<noteq> [] \<and> or_str (cq_wellUid payload) [] \<noteq> [] then live_value st (or_str (cq_wellUid payload) []) m else None
          | None \<Rightarrow> None)
      in case live of
           Some x \<Rightarrow> AList.update (vd_name v) x resolved
         | None \<Rightarrow> (case map_of (or_empty (cq_values payload)) (vd_name v) of
             Some x \<Rightarrow> AList.update (vd_name v) x resolved
           | None \<Rightarrow> (case vd_default v of
               Some x \<Rightarrow> AList.update (vd_name v) x resolved
             | None \<Rightarrow> resolved)))"

definition compute_formula :: "py_lang \<Rightarrow> RingBufferStore \<Rightarrow> string \<Rightarrow> ComputeRequest \<Rightarrow> ComputeResponse res" where
  "compute_formula py st key payload = (case find_formula key of
      None \<Rightarrow> Inl (HTTPException 404 (''unknown formula '' @ quoted key))
    | Some fdef \<Rightarrow>
        (let resolved = fold (resolve_live st payload) (fd_variables fdef) [] in
         case compute py key resolved of
           Inl (FormulaError m) \<Rightarrow> Inl (HTTPException 400 m)
         | Inl e \<Rightarrow> Inl e
         | Inr result \<Rightarrow> Inr \<lparr>cp_key = key, cp_result = result, cp_result_unit = fd_result_unit fdef, cp_used = resolved\<rparr>))"

section \<open>The check is the structural one\<close>

definition literal_exponent :: "expr \<Rightarrow> bool" where
  "literal_exponent e = (case e of Constant k \<Rightarrow> lit_within MAX_LITERAL_EXPONENT k = Some True | _ \<Rightarrow> False)"

fun safe_formula :: "string list \<Rightarrow> expr \<Rightarrow> bool" where
  "safe_formula ns (BinOp l op r) =
     (known_bin op \<and> safe_formula ns l \<and> safe_formula ns r \<and> (op = Pow \<longrightarrow> literal_exponent r))"
| "safe_formula ns (UnaryOp op e) = (known_un op \<and> safe_formula ns e)"
| "safe_formula ns (Constant k) = True"
| "safe_formula ns (Name n) = (n \<in> set ns)"
| "safe_formula ns (Call f args kws) =
     ((case f of Name n \<Rightarrow> n \<in> set ALLOWED_FUNCS | _ \<Rightarrow> False) \<and> kws = [] \<and> list_all (safe_formula ns) args)"
| "safe_formula ns (OtherExpr n es) = False"

definition element_ok :: "string list \<Rightarrow> ast_node \<Rightarrow> bool" where
  "element_ok ns x = (check_callee x = Inr () \<and> check_element ns x = Inr ())"

lemma element_ok_simps [simp]:
  "element_ok ns (Expression e)" "element_ok ns Load" "\<not> element_ok ns (Keyword e)" "\<not> element_ok ns (Node c (OtherExpr n es))"
  "element_ok ns (Node c (Constant k))" "element_ok ns (BinNode op) = known_bin op" "element_ok ns (UnNode uop) = known_un uop"
  "element_ok ns (Node c (Name n)) = (c \<or> n \<in> set ns)"
  "element_ok ns (Node c (UnaryOp uop e))" "element_ok ns (Node c (BinOp l op r)) = (op = Pow \<longrightarrow> literal_exponent r)"
  "element_ok ns (Node c (Call f args kws)) = ((case f of Name n \<Rightarrow> n \<in> set ALLOWED_FUNCS | _ \<Rightarrow> False) \<and> kws = [])"
  by (auto simp: element_ok_def check_callee_def check_element_def check_power_def literal_exponent_def rbind_eq_Inr
      split: bool.splits expr.splits option.splits)

lemma below_ok_formula: "all_below (element_ok ns) (Node False e) \<longleftrightarrow> safe_formula ns e"
proof (induction e)
  case (Call f args kws)
  then show ?case by (cases f) (auto simp: list_all_iff)
qed auto

lemma validate_ast_safe: "validate_ast py t ns = Inr () \<longleftrightarrow> (\<exists>e. pl_parse py t = Inr e \<and> safe_formula ns e)"
proof (cases "pl_parse py t")
  case (Inr e)
  then have "validate_ast py t ns = Inr () \<longleftrightarrow> (\<forall>x \<in> set (walk e). element_ok ns x)"
    by (auto simp: validate_ast_def element_ok_def rbind_eq_Inr rfold_check)
  then show ?thesis using Inr by (simp add: all_walk below_ok_formula)
qed (auto simp: validate_ast_def)

section \<open>The library computes\<close>

text \<open>What Python's parser makes of the expressions of the library.\<close>

definition LIBRARY_TREES :: "(string \<times> expr) list" where
  "LIBRARY_TREES = [
    (''annular_velocity'', BinOp (BinOp (Constant (CFloat (lit (245 / 10)))) Mult (Name ''Q'')) Div (BinOp (BinOp (Name ''Dh'') Pow (Constant (CInt 2))) Sub (BinOp (Name ''Dp'') Pow (Constant (CInt 2))))),
    (''ecd'', BinOp (Name ''MW'') Add (BinOp (Name ''Pann'') Div (BinOp (Constant (CFloat (lit (52 / 1000)))) Mult (Name ''TVD'')))),
    (''critical_velocity'', BinOp (BinOp (BinOp (Constant (CFloat (lit (108 / 100)))) Mult (Name ''PV'')) Add
      (BinOp (Constant (CFloat (lit (108 / 100)))) Mult (Call (Name ''sqrt'') [BinOp (BinOp (Name ''PV'') Pow (Constant (CInt 2))) Add
      (BinOp (BinOp (BinOp (Constant (CFloat (lit (93 / 10)))) Mult (Name ''MW'')) Mult (BinOp (Name ''Dh'') Pow (Constant (CInt 2)))) Mult (Name ''YP''))] []))) Div (BinOp (Name ''MW'') Mult (Name ''Dh''))),
    (''bit_pressure_drop'', BinOp (BinOp (BinOp (Name ''Q'') Pow (Constant (CInt 2))) Mult (Name ''MW'')) Div (BinOp (Constant (CInt 12031)) Mult (BinOp (Name ''TFA'') Pow (Constant (CInt 2))))),
    (''total_hydraulic_hp'', BinOp (BinOp (Name ''P'') Mult (Name ''Q'')) Div (Constant (CInt 1714))),
    (''hsi'', BinOp (BinOp (Constant (CFloat (lit (127 / 100)))) Mult (Name ''HHPbit'')) Div (BinOp (Name ''Dbit'') Pow (Constant (CInt 2)))),
    (''pct_hhp_bit'', BinOp (BinOp (Name ''Pbit'') Div (Name ''P'')) Mult (Constant (CInt 100))),
    (''impact_force'', BinOp (BinOp (BinOp (Name ''GPM'') Mult (Name ''MW'')) Mult (Name ''JV'')) Div (Constant (CInt 1932)))]"

definition parses_library :: "py_lang \<Rightarrow> bool" where
  "parses_library py = list_all (\<lambda>f. map_option Inr (map_of LIBRARY_TREES (fd_key f)) = Some (pl_parse py (fd_expression f))) FORMULAS"

lemma library_keys:
  "list_all (\<lambda>f. find_formula (fd_key f) = Some f) FORMULAS" "list_all (\<lambda>f. distinct (var_names f)) FORMULAS"
  "list_all (\<lambda>f. list_all (\<lambda>v. vd_default v \<noteq> None) (fd_variables f)) FORMULAS"
  by (simp_all add: FORMULAS_def find_formula_def var_names_def)

lemma two_within: "lit_within MAX_LITERAL_EXPONENT (CInt 2) = Some True"
  by (simp add: MAX_LITERAL_EXPONENT_def)

lemma library_safe:
  "list_all (\<lambda>f. case map_of LIBRARY_TREES (fd_key f) of None \<Rightarrow> False
     | Some e \<Rightarrow> safe_formula (var_names f @ ALLOWED_FUNCS) e) FORMULAS"
  by (simp add: FORMULAS_def LIBRARY_TREES_def var_names_def literal_exponent_def two_within ALLOWED_FUNCS_def del: lit_within.simps)

text \<open>A loop that stores a value for each of several distinct names.\<close>

lemma update_new: "k \<notin> fst ` set out \<Longrightarrow> AList.update k x out = out @ [(k, x)]"
  by (induction out) auto

lemma rfold_updates:
  assumes "\<And>v out. v \<in> set vs \<Longrightarrow> step v out = Inr (AList.update (vd_name v) (val v) out)"
    "distinct (map vd_name vs)" "set (map vd_name vs) \<inter> fst ` set out = {}"
  shows "rfold step vs out = Inr (out @ map (\<lambda>v. (vd_name v, val v)) vs)"
  using assms by (induction vs arbitrary: out) (auto simp: update_new)

lemma fold_updates:
  assumes "\<And>v out. v \<in> set vs \<Longrightarrow> step v out = AList.update (vd_name v) (val v) out"
    "distinct (map vd_name vs)" "set (map vd_name vs) \<inter> fst ` set out = {}"
  shows "fold step vs out = out @ map (\<lambda>v. (vd_name v, val v)) vs"
  using assms by (induction vs arbitrary: out) (auto simp: update_new)

text \<open>The value a variable is computed with: the newest buffered one of the bound curve, the given one, the default.\<close>

definition live_binding :: "RingBufferStore \<Rightarrow> ComputeRequest \<Rightarrow> string \<Rightarrow> pyfloat option" where
  "live_binding st q n = (case (map_of (or_empty (cq_bindings q)) n, cq_wellUid q) of
      (Some m, Some w) \<Rightarrow> if m = [] \<or> w = [] \<or> buffer st w m = [] then None else cs_value (last (buffer st w m))
    | _ \<Rightarrow> None)"

definition input_value :: "RingBufferStore \<Rightarrow> ComputeRequest \<Rightarrow> VarDef \<Rightarrow> pyfloat option" where
  "input_value st q v = (case live_binding st q (vd_name v) of Some x \<Rightarrow> Some x
    | None \<Rightarrow> (case map_of (or_empty (cq_values q)) (vd_name v) of Some x \<Rightarrow> Some x | None \<Rightarrow> vd_default v))"

lemma live_value_buffer: "live_value st w m = (if buffer st w m = [] then None else cs_value (last (buffer st w m)))"
proof -
  have "b \<noteq> [] \<Longrightarrow> lastn (Suc 0) b = [last b]" for b :: "curve_sample list" by (cases b rule: rev_cases) (auto simp: lastn_def)
  then show ?thesis using get_recent_lookup [of w "Some [m]" None 0 st m] by (auto simp: live_value_def)
qed

lemma resolve_live_input:
  "input_value st q v = Some x \<Longrightarrow> resolve_live st q v out = AList.update (vd_name v) x out"
  by (auto simp: resolve_live_def input_value_def live_binding_def live_value_buffer or_str_def Let_def
      split: option.splits if_splits)

lemma assoc_self: "distinct (map fst xs) \<Longrightarrow> map (\<lambda>k. (k, the (map_of xs k))) (map fst xs) = xs"
  by (simp, intro map_idI) auto

lemma compute_library:
  assumes "parses_library py" "f \<in> set FORMULAS" "map fst values = var_names f"
  shows "compute py (fd_key f) values = (case pl_eval py (formula_evaluator values) (fd_expression f) of
      Inl (InvalidExpression m) \<Rightarrow> Inl (FormulaError (''evaluation failed: '' @ m))
    | Inl (Raised e) \<Rightarrow> Inl (FormulaError (if e = ZeroDivisionError then ''division by zero'' else ''evaluation failed: '' @ pl_str py e))
    | Inr v \<Rightarrow> (case float_of_num v of
        Inl e \<Rightarrow> Inl (if e = TypeError \<or> e = ValueError then FormulaError ''expression did not produce a number'' else e)
      | Inr x \<Rightarrow> Inr x))"
proof -
  have d: "distinct (map vd_name (fd_variables f))" "find_formula (fd_key f) = Some f"
    using library_keys assms(2) by (auto simp: list_all_iff var_names_def)
  have n: "map vd_name (fd_variables f) = map fst values" using assms(3) by (simp add: var_names_def)
  have step: "resolve_var values v out = Inr (AList.update (vd_name v) (the (map_of values (vd_name v))) out)"
    if "v \<in> set (fd_variables f)" for v out
  proof -
    have "vd_name v \<in> fst ` set values" using that n by (metis image_eqI list.set_map)
    then show ?thesis by (auto simp: resolve_var_def map_of_eq_None_iff split: option.splits)
  qed
  have "map (\<lambda>v. (vd_name v, the (map_of values (vd_name v)))) (fd_variables f) =
      map (\<lambda>k. (k, the (map_of values k))) (map fst values)" unfolding n [symmetric] by simp
  also have "\<dots> = values" using assoc_self d(1) n by metis
  finally have "rfold (resolve_var values) (fd_variables f) [] = Inr values"
    using rfold_updates [of "fd_variables f" "resolve_var values" "\<lambda>v. the (map_of values (vd_name v))" "[]"] d(1) step
    by simp
  moreover have "validate_ast py (fd_expression f) (map fst values @ ALLOWED_FUNCS) = Inr ()"
  proof -
    from assms(1,2) obtain e where "map_of LIBRARY_TREES (fd_key f) = Some e" "pl_parse py (fd_expression f) = Inr e"
      unfolding parses_library_def list_all_iff by force
    with library_safe assms(2) show ?thesis unfolding validate_ast_safe assms(3) list_all_iff by force
  qed
  ultimately show ?thesis using d(2) by (simp add: compute_def safe_eval_def)
qed

section \<open>Properties\<close>

text \<open>
  The check of a hydraulics formula accepts exactly the formulas that are safe by recursion over the tree:
  arithmetic over numbers and the given names, powers with a literal exponent of magnitude at most 8, and direct
  calls of the five functions without keywords.
\<close>

theorem formula_check_exact:
  "(validate_ast py expression names = Inr ()) = (\<exists>e. pl_parse py expression = Inr e \<and> safe_formula names e)"
  by (rule validate_ast_safe)

text \<open>
  C39. Computing a formula of the library. Every variable is the newest buffered value of the curve it is bound
  to, else the given value, else its default; the evaluator is always asked, its number is the answer, and whatever
  it raises is a 400.
\<close>

theorem compute_formula_correct:
  assumes "parses_library py" "f \<in> set FORMULAS"
  shows "\<exists>used. map fst used = var_names f \<and>
     (\<forall>v \<in> set (fd_variables f). map_of used (vd_name v) = input_value st q v) \<and>
     (case pl_eval py (formula_evaluator used) (fd_expression f) of
        Inl e \<Rightarrow> \<exists>m. compute_formula py st (fd_key f) q = Inl (HTTPException 400 m)
      | Inr n \<Rightarrow> (\<forall>x. float_of_num n = Inr x \<longrightarrow> compute_formula py st (fd_key f) q =
           Inr \<lparr>cp_key = fd_key f, cp_result = x, cp_result_unit = fd_result_unit f, cp_used = used\<rparr>))"
proof -
  have d: "distinct (map vd_name (fd_variables f))" "find_formula (fd_key f) = Some f"
      "\<forall>v \<in> set (fd_variables f). vd_default v \<noteq> None"
    using library_keys assms(2) by (auto simp: list_all_iff var_names_def)
  define used where "used = map (\<lambda>v. (vd_name v, the (input_value st q v))) (fd_variables f)"
  have input: "\<exists>x. input_value st q v = Some x" if "v \<in> set (fd_variables f)" for v
    using d(3) that by (auto simp: input_value_def split: option.splits)
  have fold: "fold (resolve_live st q) (fd_variables f) [] = used"
    unfolding used_def using input d(1) resolve_live_input
    by (subst fold_updates [where val = "\<lambda>v. the (input_value st q v)"]) force+
  have names: "map fst used = var_names f" by (simp add: used_def var_names_def)
  have look: "map_of used (vd_name v) = input_value st q v" if "v \<in> set (fd_variables f)" for v
  proof -
    have "(vd_name v, the (input_value st q v)) \<in> set used" using that by (auto simp: used_def)
    then show ?thesis using input [OF that] names d(1) by (auto simp: var_names_def)
  qed
  show ?thesis
    using names look compute_library [OF assms names] d(2) fold
    by (intro exI [of _ used]) (auto simp: compute_formula_def Let_def split: sum.splits eval_error.splits)
qed

section \<open>Witnesses\<close>

definition library_py :: py_lang where
  "library_py = \<lparr>pl_parse = (\<lambda>t. case map_of (map (\<lambda>f. (fd_expression f, the (map_of LIBRARY_TREES (fd_key f)))) FORMULAS) t of
       Some e \<Rightarrow> Inr e | None \<Rightarrow> Inl (''invalid syntax'', ''invalid syntax'')),
     pl_eval = (\<lambda>ev t. Inr (PFloat (Fin 3))), pl_str = (\<lambda>e. []), pl_repr = (\<lambda>v. [])\<rparr>"

definition gpm_request :: ComputeRequest where
  "gpm_request = \<lparr>cq_values = Some [(''GPM'', Fin 100)], cq_wellUid = None, cq_bindings = None\<rparr>"

lemma library_py_parses: "parses_library library_py"
  by (simp add: parses_library_def library_py_def FORMULAS_def LIBRARY_TREES_def)

theorem compute_formula_correct_witness:
  "\<exists>r. compute_formula library_py (new_ring_store 10) ''impact_force'' gpm_request = Inr r \<and> cp_result r = Fin 3"
proof -
  define f where "f = last FORMULAS"
  have "f \<in> set FORMULAS" "fd_key f = ''impact_force''" by (simp_all add: f_def FORMULAS_def)
  with compute_formula_correct [OF library_py_parses, of f "new_ring_store 10" gpm_request] show ?thesis
    by (auto simp: library_py_def float_of_num_def)
qed

end
