(* ===== verification/Reports.thy ===== *)
theory Reports
  imports Tables "HOL-Library.Product_Lexorder"
begin

text \<open>
  The reporting endpoints (\<^verbatim>\<open>backend/app/api/reports.py\<close>) and the parameter catalogue
  (\<^verbatim>\<open>api/parameters.py\<close>). What a query means to the database is a parameter where engines differ: folding to
  lower case, \<^verbatim>\<open>LIKE\<close>, whether NULL and NaN sort first, the collation of texts, and what the driver makes of a
  bound value that is not a text. openpyxl is the function that takes the rows of a sheet to a file or an exception.
\<close>

record report_db =
  rd_lower :: "string \<Rightarrow> string"
  rd_like :: "string \<Rightarrow> string \<Rightarrow> bool"
  rd_nulls_first :: bool
  rd_nans_first :: bool
  rd_collate :: "string \<Rightarrow> string"
  rd_bind_text :: "json \<Rightarrow> string res"

section \<open>Filters\<close>

text \<open>
  \<^verbatim>\<open>repr(s)\<close>: in double quotes when it contains a single and no double quote, with the quote, the backslash and
  the characters that do not print escaped.
\<close>

definition hex_digit :: "nat \<Rightarrow> char" where
  "hex_digit n = char_of (if n < 10 then 48 + n else 87 + n)"

definition repr_char :: "char \<Rightarrow> char \<Rightarrow> string" where
  "repr_char quote c = (let n = of_char c in
     if c = quote \<or> c = CHR 0x5C then [CHR 0x5C, c]
     else if n = 10 then [CHR 0x5C, CHR ''n''] else if n = 13 then [CHR 0x5C, CHR ''r''] else if n = 9 then [CHR 0x5C, CHR ''t'']
     else if n < 32 \<or> 127 \<le> n \<and> n \<le> 160 \<or> n = 173 then [CHR 0x5C, CHR ''x'', hex_digit (n div 16), hex_digit (n mod 16)]
     else [c])"

definition repr_str :: "string \<Rightarrow> string" where
  "repr_str s = (let quote = (if CHR 0x27 \<in> set s \<and> CHR 0x22 \<notin> set s then CHR 0x22 else CHR 0x27) in
     quote # concat (map (repr_char quote) s) @ [quote])"

definition invalid_date :: "string \<Rightarrow> exn" where
  "invalid_date raw = HTTPException 400 (''invalid date: '' @ repr_str raw)"

text \<open>A date is its day number, so a date is always true in a condition.\<close>

definition api_parse_date :: "string option \<Rightarrow> int option res" where
  "api_parse_date raw = (case raw of
      None \<Rightarrow> Inr None
    | Some [] \<Rightarrow> Inr None
    | Some s \<Rightarrow> (if length s \<notin> {7, 8, 10} then Inl (invalid_date s)
        else case iso_date s of None \<Rightarrow> Inl (invalid_date s) | Some d \<Rightarrow> Inr (Some d)))"

record report_filter =
  rf_field :: "string option"
  rf_rig :: "string option"
  rf_well_uid :: "string option"
  rf_operation_type :: "string option"
  rf_mud_system :: "string option"
  rf_date_from :: "int option"
  rf_date_to :: "int option"

text \<open>\<^verbatim>\<open>if x: stmt.where(column == x)\<close>; a column that is NULL never satisfies it.\<close>

definition where_text :: "string option \<Rightarrow> string option \<Rightarrow> bool" where
  "where_text x column = (case x of None \<Rightarrow> True | Some [] \<Rightarrow> True | Some s \<Rightarrow> column = Some s)"

definition where_date :: "(int \<Rightarrow> int \<Rightarrow> bool) \<Rightarrow> int option \<Rightarrow> int option \<Rightarrow> bool" where
  "where_date cmp x column = (case x of None \<Rightarrow> True | Some d \<Rightarrow> (case column of None \<Rightarrow> False | Some c \<Rightarrow> cmp c d))"

definition report_filters :: "report_filter \<Rightarrow> Report \<Rightarrow> bool" where
  "report_filters q r = (where_text (rf_field q) (rp_field r) \<and> where_text (rf_rig q) (rp_rig r) \<and>
     where_text (rf_well_uid q) (rp_well_uid r) \<and> where_text (rf_operation_type q) (rp_operation_type r) \<and>
     where_text (rf_mud_system q) (rp_mud_system r) \<and>
     where_date (\<ge>) (rf_date_from q) (rp_report_date r) \<and> where_date (\<le>) (rf_date_to q) (rp_report_date r))"

text \<open>\<^verbatim>\<open>ORDER BY report_date\<close>: a rank for NULL, then the date.\<close>

definition date_rank :: "report_db \<Rightarrow> int option \<Rightarrow> nat \<times> int" where
  "date_rank db d = (case d of None \<Rightarrow> (if rd_nulls_first db then 0 else 2, 0) | Some x \<Rightarrow> (1, x))"

section \<open>Remarks\<close>

record RemarkContext =
  rc_id :: int
  rc_report_id :: int
  rc_time :: "datetime option"
  rc_depth :: "pyfloat option"
  rc_category :: "string option"
  rc_text :: "string option"
  rc_report_date :: "int option"
  rc_field :: "string option"
  rc_rig :: "string option"
  rc_well_uid :: "string option"
  rc_operation_type :: "string option"
  rc_mud_system :: "string option"

definition remark_context :: "int \<Rightarrow> Remark \<Rightarrow> Report \<Rightarrow> RemarkContext" where
  "remark_context i m r = \<lparr>rc_id = i, rc_report_id = rm_report_id m, rc_time = rm_time m, rc_depth = rm_depth m,
     rc_category = rm_category m, rc_text = rm_text m, rc_report_date = rp_report_date r, rc_field = rp_field r,
     rc_rig = rp_rig r, rc_well_uid = rp_well_uid r, rc_operation_type = rp_operation_type r, rc_mud_system = rp_mud_system r\<rparr>"

definition where_like :: "report_db \<Rightarrow> string \<Rightarrow> string option \<Rightarrow> bool" where
  "where_like db pattern column = (case column of None \<Rightarrow> False | Some s \<Rightarrow> rd_like db (rd_lower db s) pattern)"

definition where_keyword :: "report_db \<Rightarrow> string option \<Rightarrow> Remark \<Rightarrow> bool" where
  "where_keyword db keyword m = (case keyword of None \<Rightarrow> True | Some [] \<Rightarrow> True
    | Some k \<Rightarrow> (let pattern = ''%'' @ lower k @ ''%'' in
        where_like db pattern (rm_text m) \<or> where_like db pattern (rm_category m)))"

text \<open>The join of the remarks with their reports.\<close>

definition remark_rows :: "app_db \<Rightarrow> ((int \<times> Remark) \<times> Report) list" where
  "remark_rows d = concat (map (\<lambda>(i, m). map (\<lambda>(j, r). ((i, m), r))
     (filter (\<lambda>(j, r). rm_report_id m = j) (ad_reports d))) (ad_remarks d))"

definition search_rows :: "report_db \<Rightarrow> string option \<Rightarrow> report_filter \<Rightarrow> app_db \<Rightarrow> RemarkContext list" where
  "search_rows db keyword q d =
     map (\<lambda>((i, m), r). remark_context i m r)
       (sort_key (\<lambda>((i, m), r). (date_rank db (rp_report_date r), i))
         (filter (\<lambda>((i, m), r). report_filters q r \<and> where_keyword db keyword m) (remark_rows d)))"

definition remark_filter :: "string option \<Rightarrow> string option \<Rightarrow> int option \<Rightarrow> int option \<Rightarrow> report_filter" where
  "remark_filter fld well_uid date_from date_to = \<lparr>rf_field = fld, rf_rig = None, rf_well_uid = well_uid,
     rf_operation_type = None, rf_mud_system = None, rf_date_from = date_from, rf_date_to = date_to\<rparr>"

definition search_remarks :: "report_db \<Rightarrow> string option \<Rightarrow> string option \<Rightarrow> string option \<Rightarrow> string option \<Rightarrow> string option
    \<Rightarrow> app_db \<Rightarrow> RemarkContext list res" where
  "search_remarks db keyword fld well_uid date_from date_to d =
     rbind (api_parse_date date_from) (\<lambda>from. rbind (api_parse_date date_to) (\<lambda>until.
       Inr (search_rows db keyword (remark_filter fld well_uid from until) d)))"

text \<open>The cells of the exported sheet.\<close>

definition iso_day :: "int \<Rightarrow> string" where
  "iso_day n = (case ord2ymd n of (y, m, d) \<Rightarrow> pad 4 y @ ''-'' @ pad 2 m @ ''-'' @ pad 2 d)"

text \<open>\<^verbatim>\<open>datetime.isoformat()\<close>, of a UTC time where it is aware.\<close>

definition iso_moment :: "datetime \<Rightarrow> string" where
  "iso_moment t = (let us = dt_us t; secs = us div 1000000; sod = secs mod 86400 in
     iso_day (secs div 86400 + epoch_ord) @ ''T'' @ pad 2 (sod div 3600) @ '':'' @ pad 2 (sod div 60 mod 60) @ '':''
       @ pad 2 (sod mod 60) @ (if us mod 1000000 = 0 then [] else ''.'' @ pad 6 (us mod 1000000))
       @ (if dt_aware t then ''+00:00'' else []))"

datatype sheet_cell = CText "string option" | CNumber "pyfloat option" | CMoment datetime

definition REMARK_HEADERS :: "sheet_cell list" where
  "REMARK_HEADERS = map (\<lambda>t. CText (Some t)) [''Report Date'', ''Field'', ''Rig'', ''Well UID'', ''Operation'', ''Mud System'',
     ''Time'', ''Depth'', ''Category'', ''Remark'']"

definition remark_cells :: "RemarkContext \<Rightarrow> sheet_cell list" where
  "remark_cells r = [CText (map_option iso_day (rc_report_date r)), CText (rc_field r), CText (rc_rig r), CText (rc_well_uid r),
     CText (rc_operation_type r), CText (rc_mud_system r), CText (map_option iso_moment (rc_time r)), CNumber (rc_depth r),
     CText (rc_category r), CText (rc_text r)]"

definition export_remarks :: "report_db \<Rightarrow> (string \<Rightarrow> sheet_cell list list \<Rightarrow> 'f res) \<Rightarrow> string option \<Rightarrow> string option
    \<Rightarrow> string option \<Rightarrow> string option \<Rightarrow> string option \<Rightarrow> app_db \<Rightarrow> 'f res" where
  "export_remarks db workbook keyword fld well_uid date_from date_to d =
     rbind (search_remarks db keyword fld well_uid date_from date_to d) (\<lambda>results.
       workbook ''Remarks'' (REMARK_HEADERS # map remark_cells results))"

section \<open>Reports and mud properties\<close>

definition list_reports :: "report_db \<Rightarrow> report_filter \<Rightarrow> string option \<Rightarrow> string option \<Rightarrow> app_db \<Rightarrow> Report rows res" where
  "list_reports db q date_from date_to d =
     rbind (api_parse_date date_from) (\<lambda>from. rbind (api_parse_date date_to) (\<lambda>until.
       Inr (sort_key (\<lambda>(i, r). (date_rank db (rp_report_date r), i))
         (filter (\<lambda>(i, r). report_filters (q\<lparr>rf_date_from := from, rf_date_to := until\<rparr>) r) (ad_reports d)))))"

definition list_mud_properties :: "int option \<Rightarrow> string option \<Rightarrow> app_db \<Rightarrow> MudProperty rows res" where
  "list_mud_properties report_id well_uid d =
     (if report_id = None \<and> well_uid = None then Inl (HTTPException 400 ''report_id or well_uid is required'')
      else Inr (sort_key (\<lambda>(i, p). (mp_report_id p, i))
        (filter (\<lambda>(i, p). (case report_id of None \<Rightarrow> True | Some j \<Rightarrow> mp_report_id p = j) \<and>
             (case well_uid of None \<Rightarrow> True
              | Some w \<Rightarrow> list_ex (\<lambda>(j, r). mp_report_id p = j \<and> rp_well_uid r = Some w) (ad_reports d)))
           (ad_mud_properties d))))"

section \<open>Saved searches\<close>

definition list_searches :: "string option \<Rightarrow> app_db \<Rightarrow> SavedSearch rows" where
  "list_searches m d = rows_where (\<lambda>s. case m of None \<Rightarrow> True | Some x \<Rightarrow> ss_module s = x) (ad_searches d)"

record SavedSearchCreate =
  sc_name :: string
  sc_module :: string
  sc_criteria :: "(string \<times> json) list"
  sc_owner_id :: "int option"

text \<open>An owner has to exist where the engine checks foreign keys.\<close>

definition create_search :: "sql \<Rightarrow> datetime \<Rightarrow> SavedSearchCreate \<Rightarrow> (int \<times> SavedSearch) handler" where
  "create_search sq now b d =
     (let s = \<lparr>ss_name = sc_name b, ss_owner_id = sc_owner_id b, ss_module = sc_module b, ss_criteria = JObj (sc_criteria b),
               ss_created_at = now\<rparr>
      in if \<not> refers sq (sc_owner_id b) (ad_users d) then Inl DbError
         else rbind (insert_row sq no_key s (ad_searches d)) (\<lambda>(i, t). Inr ((i, s), d\<lparr>ad_searches := t\<rparr>)))"

definition search_not_found :: "int \<Rightarrow> exn" where
  "search_not_found i = HTTPException 404 (''search '' @ show_int i @ '' not found'')"

text \<open>Whether Python takes a value for true.\<close>

fun json_truth :: "json \<Rightarrow> bool" where
  "json_truth JNull = False" | "json_truth (JBool b) = b" | "json_truth (JNum q) = (q \<noteq> 0)"
| "json_truth (JStr s) = (s \<noteq> [])" | "json_truth (JList xs) = (xs \<noteq> [])" | "json_truth (JObj xs) = (xs \<noteq> [])"

definition criteria_get :: "(string \<times> json) list \<Rightarrow> string \<Rightarrow> json" where
  "criteria_get c k = (case map_of c k of Some v \<Rightarrow> v | None \<Rightarrow> JNull)"

text \<open>
  What the search path makes of a stored criterion: a false value is no condition, a keyword that is not a text
  has no \<^verbatim>\<open>lower\<close>, a date that is not a text is a TypeError, and any other value is up to the driver.
\<close>

definition keyword_of :: "json \<Rightarrow> string option res" where
  "keyword_of v = (if \<not> json_truth v then Inr None else case v of JStr s \<Rightarrow> Inr (Some s) | _ \<Rightarrow> Inl AttributeError)"

definition bound_text :: "report_db \<Rightarrow> json \<Rightarrow> string option res" where
  "bound_text db v = (if \<not> json_truth v then Inr None
     else case v of JStr s \<Rightarrow> Inr (Some s) | _ \<Rightarrow> rbind (rd_bind_text db v) (\<lambda>s. Inr (Some s)))"

definition date_of :: "json \<Rightarrow> int option res" where
  "date_of v = (if \<not> json_truth v then Inr None else case v of JStr s \<Rightarrow> api_parse_date (Some s) | _ \<Rightarrow> Inl TypeError)"

definition run_search :: "report_db \<Rightarrow> int \<Rightarrow> app_db \<Rightarrow> RemarkContext list res" where
  "run_search db i d = (case map_of (ad_searches d) i of
      None \<Rightarrow> Inl (search_not_found i)
    | Some s \<Rightarrow> rbind (if json_truth (ss_criteria s) then (case ss_criteria s of JObj c \<Rightarrow> Inr c | _ \<Rightarrow> Inl AttributeError) else Inr [])
        (\<lambda>c. rbind (date_of (criteria_get c ''date_from'')) (\<lambda>from.
             rbind (date_of (criteria_get c ''date_to'')) (\<lambda>until.
             rbind (keyword_of (criteria_get c ''keyword'')) (\<lambda>k.
             rbind (bound_text db (criteria_get c ''field'')) (\<lambda>f.
             rbind (bound_text db (criteria_get c ''well_uid'')) (\<lambda>w.
               Inr (search_rows db k (remark_filter f w from until) d))))))))"

definition delete_search :: "sql \<Rightarrow> int \<Rightarrow> unit handler" where
  "delete_search sq i d = (case map_of (ad_searches d) i of
      None \<Rightarrow> Inl (search_not_found i)
    | Some s \<Rightarrow> rbind (delete_row sq i (ad_searches d)) (\<lambda>t. Inr ((), d\<lparr>ad_searches := t\<rparr>)))"

section \<open>Depths of interest\<close>

definition depth_rank :: "report_db \<Rightarrow> pyfloat \<Rightarrow> nat \<times> pyfloat" where
  "depth_rank db x = (if x = NaN then (if rd_nans_first db then 0 else 2) else 1, x)"

definition list_depths :: "report_db \<Rightarrow> string option \<Rightarrow> app_db \<Rightarrow> DepthOfInterest rows" where
  "list_depths db well_uid d = sort_key (\<lambda>(i, x). (depth_rank db (di_depth x), i))
     (filter (\<lambda>(i, x). case well_uid of None \<Rightarrow> True | Some w \<Rightarrow> di_well_uid x = w) (ad_depths d))"

record DepthCreate =
  dc_well_uid :: string
  dc_depth :: pyfloat
  dc_note :: "string option"
  dc_report_id :: "int option"

definition create_depth :: "sql \<Rightarrow> datetime \<Rightarrow> DepthCreate \<Rightarrow> (int \<times> DepthOfInterest) handler" where
  "create_depth sq now b d =
     (let x = \<lparr>di_well_uid = dc_well_uid b, di_report_id = dc_report_id b, di_depth = dc_depth b, di_note = dc_note b,
               di_created_at = now\<rparr>
      in if \<not> refers sq (dc_report_id b) (ad_reports d) then Inl DbError
         else rbind (insert_row sq no_key x (ad_depths d)) (\<lambda>(i, t). Inr ((i, x), d\<lparr>ad_depths := t\<rparr>)))"

definition delete_depth :: "sql \<Rightarrow> int \<Rightarrow> unit handler" where
  "delete_depth sq i d = (case map_of (ad_depths d) i of
      None \<Rightarrow> Inl (HTTPException 404 (''depth '' @ show_int i @ '' not found''))
    | Some x \<Rightarrow> rbind (delete_row sq i (ad_depths d)) (\<lambda>t. Inr ((), d\<lparr>ad_depths := t\<rparr>)))"

definition scaffold :: "string \<Rightarrow> json" where
  "scaffold m = JObj [(''module'', JStr m), (''status'', JStr ''scaffold''), (''items'', JList [])]"

definition mud_stock :: json where "mud_stock = scaffold ''mud-stock''"
definition well_path :: json where "well_path = scaffold ''well-path''"
definition time_analysis :: json where "time_analysis = scaffold ''time-analysis''"
definition tools :: json where "tools = scaffold ''tools''"

section \<open>The parameter catalogue\<close>

record ParameterCreate =
  pr_mnemonic :: string
  pr_description :: "string option"
  pr_default_unit :: "string option"
  pr_wits_id :: "string option"

record ParameterUpdate =
  px_description :: "string option option"
  px_default_unit :: "string option option"
  px_wits_id :: "string option option"

definition mnemonic_key :: "ParameterCatalog \<Rightarrow> string option" where
  "mnemonic_key p = Some (pc_mnemonic p)"

definition parameter_exists :: exn where
  "parameter_exists = HTTPException 409 ''parameter with this mnemonic already exists''"

definition get_by_mnemonic :: "string \<Rightarrow> app_db \<Rightarrow> (int \<times> ParameterCatalog) res" where
  "get_by_mnemonic m d = (case select_one (\<lambda>p. pc_mnemonic p = m) (ad_parameters d) of
      None \<Rightarrow> Inl (HTTPException 404 ''parameter not found'') | Some q \<Rightarrow> Inr q)"

definition list_parameters :: "report_db \<Rightarrow> app_db \<Rightarrow> ParameterCatalog rows" where
  "list_parameters db d = sort_key (\<lambda>(i, p). rd_collate db (pc_mnemonic p)) (ad_parameters d)"

definition create_parameter :: "sql \<Rightarrow> ParameterCreate \<Rightarrow> (int \<times> ParameterCatalog) handler" where
  "create_parameter sq b d = (case select_one (\<lambda>p. pc_mnemonic p = pr_mnemonic b) (ad_parameters d) of
      Some q \<Rightarrow> Inl parameter_exists
    | None \<Rightarrow>
        (let p = \<lparr>pc_mnemonic = pr_mnemonic b, pc_description = pr_description b, pc_default_unit = pr_default_unit b,
                  pc_wits_id = pr_wits_id b\<rparr>
         in case insert_row sq mnemonic_key p (ad_parameters d) of
              Inl e \<Rightarrow> Inl parameter_exists
            | Inr (i, t) \<Rightarrow> Inr ((i, p), d\<lparr>ad_parameters := t\<rparr>)))"

definition update_parameter :: "sql \<Rightarrow> string \<Rightarrow> ParameterUpdate \<Rightarrow> (int \<times> ParameterCatalog) handler" where
  "update_parameter sq m b d = rbind (get_by_mnemonic m d) (\<lambda>(i, p).
     let p' = p\<lparr>pc_description := set_field (px_description b) (pc_description p),
                pc_default_unit := set_field (px_default_unit b) (pc_default_unit p),
                pc_wits_id := set_field (px_wits_id b) (pc_wits_id p)\<rparr>
     in rbind (update_row sq mnemonic_key i p' (ad_parameters d)) (\<lambda>t. Inr ((i, p'), d\<lparr>ad_parameters := t\<rparr>)))"

definition delete_parameter :: "sql \<Rightarrow> string \<Rightarrow> unit handler" where
  "delete_parameter sq m d = rbind (get_by_mnemonic m d) (\<lambda>(i, p).
     rbind (delete_row sq i (ad_parameters d)) (\<lambda>t. Inr ((), d\<lparr>ad_parameters := t\<rparr>)))"

section \<open>Searching finds what it should\<close>

text \<open>
  What LIKE means for a keyword without wildcards and escapes: the text contains it. A filter is what it says of
  the columns of a report.
\<close>

definition plain :: "string \<Rightarrow> bool" where
  "plain k = list_all (\<lambda>c. c \<notin> {CHR ''%'', CHR ''_'', CHR 0x5C}) k"

definition like_contains :: "report_db \<Rightarrow> bool" where
  "like_contains db = (\<forall>k s. plain k \<longrightarrow> rd_like db s (''%'' @ k @ ''%'') = (\<exists>a b. s = a @ k @ b))"

definition mentions :: "report_db \<Rightarrow> string \<Rightarrow> string option \<Rightarrow> bool" where
  "mentions db k column = (\<exists>s a b. column = Some s \<and> rd_lower db s = a @ lower k @ b)"

lemma lower_char_plain: "lower_char c \<in> {CHR ''%'', CHR ''_'', CHR 0x5C} \<Longrightarrow> c = lower_char c"
proof -
  assume a: "lower_char c \<in> {CHR ''%'', CHR ''_'', CHR 0x5C}"
  have "(code_of (lower_char c) :: nat) \<in> {37, 95, 92}" using a by auto
  moreover have "code_of (char_of (code_of c + 32 :: nat) :: char) = (code_of c + 32 :: nat)" if "code_of c \<le> (222 :: nat)"
    using that by simp
  ultimately show "c = lower_char c" by (auto simp: lower_char_def Let_def split: if_splits)
qed

lemma plain_lower: "plain k \<Longrightarrow> plain (lower k)"
  using lower_char_plain by (fastforce simp: plain_def lower_def list_all_iff)

lemma where_keyword_mentions:
  assumes "like_contains db" "plain k" "k \<noteq> []"
  shows "where_keyword db (Some k) m \<longleftrightarrow> mentions db k (rm_text m) \<or> mentions db k (rm_category m)"
proof -
  have "rd_like db s (''%'' @ lower k @ ''%'') = (\<exists>a b. s = a @ lower k @ b)" for s
    using assms(1) plain_lower [OF assms(2)] unfolding like_contains_def by blast
  then show ?thesis using assms(3)
    by (cases k) (auto simp: where_keyword_def where_like_def mentions_def Let_def split: option.splits)
qed

lemma in_search_rows:
  "c \<in> set (search_rows db k q d) \<longleftrightarrow> (\<exists>i m r. (i, m) \<in> set (ad_remarks d) \<and> (rm_report_id m, r) \<in> set (ad_reports d) \<and>
     report_filters q r \<and> where_keyword db k m \<and> c = remark_context i m r)"
  by (force simp: search_rows_def remark_rows_def)

lemma distinct_remark_rows:
  assumes "distinct (map fst (ad_remarks d))" "distinct (map fst (ad_reports d))"
  shows "distinct (map (fst \<circ> fst) (remark_rows d))"
proof -
  have one: "length (filter (\<lambda>(j, r). n = j) t) \<le> 1" if "distinct (map fst t)" for n :: int and t :: "Report rows"
    using that by (induction t) (force simp: filter_empty_conv)+
  have "distinct (map (fst \<circ> fst) (concat (map (\<lambda>(i, m). map (\<lambda>(j, r). ((i, m), r))
      (filter (\<lambda>(j, r). rm_report_id m = j) (ad_reports d))) ms)))" if "distinct (map fst ms)" for ms
    using that
  proof (induction ms)
    case (Cons p ms)
    obtain i m where p: "p = (i, m)" by (cases p)
    let ?rs = "filter (\<lambda>(j, r). rm_report_id m = j) (ad_reports d)"
    have "distinct (map (fst \<circ> fst) (map (\<lambda>(j, r). ((i, m), r)) ?rs))"
      using one [OF assms(2), of "rm_report_id m"] by (cases ?rs) auto
    moreover have "i \<notin> fst ` set ms" using Cons.prems p by auto
    ultimately show ?case using Cons.IH Cons.prems p by (force simp: comp_def)
  qed simp
  then show ?thesis using assms(1) by (simp add: remark_rows_def)
qed

lemma search_rows_ids:
  assumes "distinct (map fst (ad_remarks d))" "distinct (map fst (ad_reports d))"
  shows "distinct (map rc_id (search_rows db k q d))"
proof -
  have "rc_id \<circ> (\<lambda>((i, m), r). remark_context i m r) = fst \<circ> fst" by (auto simp: remark_context_def)
  moreover have "distinct (map f (sort_key g xs)) = distinct (map f xs)" for f :: "((int \<times> Remark) \<times> Report) \<Rightarrow> int" and g :: "_ \<Rightarrow> (nat \<times> int) \<times> int" and xs
    by (metis distinct_map distinct_sort set_sort inj_on_def)
  ultimately show ?thesis using distinct_remark_rows [OF assms]
    by (simp add: search_rows_def distinct_map_filter)
qed

lemma fst_le: "p \<le> q \<Longrightarrow> fst p \<le> fst q" for p q :: "(nat \<times> int) \<times> int"
  by (simp only: less_eq_prod_def [of p q]) auto

lemma search_rows_sorted: "sorted (map (\<lambda>c. date_rank db (rc_report_date c)) (search_rows db k q d))"
proof -
  let ?g = "\<lambda>((i, m), r). (date_rank db (rp_report_date r), i)"
  have "sorted (map fst (map ?g (sort_key ?g xs)))" for xs :: "((int \<times> Remark) \<times> Report) list"
  proof -
    have "sorted_wrt (\<lambda>x y. ?g x \<le> ?g y) (sort_key ?g xs)"
      using sorted_sort_key [of ?g xs] by (simp only: sorted_map)
    then have "sorted_wrt (\<lambda>x y. fst (?g x) \<le> fst (?g y)) (sort_key ?g xs)"
      by (rule sorted_wrt_mono_rel [rotated]) (rule fst_le)
    then show ?thesis by (simp only: sorted_map map_map comp_def)
  qed
  moreover have "map (\<lambda>c. date_rank db (rc_report_date c)) (map (\<lambda>((i, m), r). remark_context i m r) ys) = map fst (map ?g ys)" for ys
    by (auto simp: remark_context_def)
  ultimately show ?thesis by (simp only: search_rows_def)
qed

text \<open>A criterion that is a text or null, as the front end saves them.\<close>

fun criterion :: "json \<Rightarrow> string option" where
  "criterion (JStr s) = Some s" | "criterion v = None"

definition textual :: "json \<Rightarrow> bool" where
  "textual v = (case v of JNull \<Rightarrow> True | JStr s \<Rightarrow> True | _ \<Rightarrow> False)"

lemma date_of_text: "textual v \<Longrightarrow> date_of v = api_parse_date (criterion v)"
  by (cases v) (auto simp: textual_def date_of_def api_parse_date_def split: list.splits)

lemma keyword_text: "textual v \<Longrightarrow> \<exists>k. keyword_of v = Inr k \<and> (k = criterion v \<or> (k = None \<and> criterion v = Some []))"
  by (cases v) (auto simp: textual_def keyword_of_def)

lemma bound_text_text: "textual v \<Longrightarrow> \<exists>f. bound_text db v = Inr f \<and> (f = criterion v \<or> (f = None \<and> criterion v = Some []))"
  by (cases v) (auto simp: textual_def bound_text_def)

lemma search_rows_empty_text:
  assumes "k = k' \<or> (k = None \<and> k' = Some [])" "f = f' \<or> (f = None \<and> f' = Some [])" "w = w' \<or> (w = None \<and> w' = Some [])"
  shows "search_rows db k (remark_filter f w lo hi) d = search_rows db k' (remark_filter f' w' lo hi) d"
proof -
  have "where_text f = where_text f'" "where_text w = where_text w'" using assms by (auto simp: where_text_def fun_eq_iff)
  then have "report_filters (remark_filter f w lo hi) = report_filters (remark_filter f' w' lo hi)"
    by (simp add: report_filters_def remark_filter_def fun_eq_iff)
  moreover have "where_keyword db k = where_keyword db k'" using assms(1) by (auto simp: where_keyword_def fun_eq_iff)
  ultimately show ?thesis by (simp only: search_rows_def)
qed

section \<open>Properties\<close>

text \<open>
  C24. The remark search. For a keyword without wildcards the answer holds, once each, exactly the remarks whose
  text or category contains the keyword regardless of case and whose report satisfies the given filters, with the
  columns of that report, ordered by its date.
\<close>

theorem search_finds_exactly:
  assumes "like_contains db" "plain k" "k \<noteq> []" "distinct (map fst (ad_remarks d))" "distinct (map fst (ad_reports d))"
    and "search_remarks db (Some k) fld w date_from date_to d = Inr found"
  shows "\<exists>lo hi. api_parse_date date_from = Inr lo \<and> api_parse_date date_to = Inr hi \<and>
    (\<forall>c. c \<in> set found \<longleftrightarrow> (\<exists>i m r. (i, m) \<in> set (ad_remarks d) \<and> (rm_report_id m, r) \<in> set (ad_reports d) \<and>
       (mentions db k (rm_text m) \<or> mentions db k (rm_category m)) \<and>
       where_text fld (rp_field r) \<and> where_text w (rp_well_uid r) \<and>
       where_date (\<ge>) lo (rp_report_date r) \<and> where_date (\<le>) hi (rp_report_date r) \<and> c = remark_context i m r)) \<and>
    distinct (map rc_id found) \<and> sorted (map (\<lambda>c. date_rank db (rc_report_date c)) found)"
proof -
  obtain lo hi where p: "api_parse_date date_from = Inr lo" "api_parse_date date_to = Inr hi"
      "found = search_rows db (Some k) (remark_filter fld w lo hi) d"
    using assms(6) by (auto simp: search_remarks_def rbind_eq_Inr)
  have c: "\<forall>c. c \<in> set found \<longleftrightarrow> (\<exists>i m r. (i, m) \<in> set (ad_remarks d) \<and> (rm_report_id m, r) \<in> set (ad_reports d) \<and>
       (mentions db k (rm_text m) \<or> mentions db k (rm_category m)) \<and>
       where_text fld (rp_field r) \<and> where_text w (rp_well_uid r) \<and>
       where_date (\<ge>) lo (rp_report_date r) \<and> where_date (\<le>) hi (rp_report_date r) \<and> c = remark_context i m r)"
    unfolding p(3) in_search_rows where_keyword_mentions [OF assms(1-3)]
    by (auto simp: report_filters_def remark_filter_def where_text_def)
  show ?thesis
    by (intro exI [of _ lo] exI [of _ hi] conjI c) (use p search_rows_ids [OF assms(4,5)] search_rows_sorted in auto)
qed

text \<open>
  Saved and ad hoc searches agree. Running a search that was saved with textual criteria answers what the search
  endpoint answers for these criteria, errors included, whatever else was stored in between.
\<close>

theorem saved_search_replays:
  assumes "create_search sq now b d = Inr ((i, s), d')" "map_of (ad_searches d'') i = map_of (ad_searches d') i" "fresh_ids sq"
    and "table_ok no_key (ad_searches d)" "\<forall>k. textual (criteria_get (sc_criteria b) k)"
  shows "run_search db i d'' = search_remarks db (criterion (criteria_get (sc_criteria b) ''keyword''))
     (criterion (criteria_get (sc_criteria b) ''field'')) (criterion (criteria_get (sc_criteria b) ''well_uid''))
     (criterion (criteria_get (sc_criteria b) ''date_from'')) (criterion (criteria_get (sc_criteria b) ''date_to'')) d''"
proof -
  let ?c = "criteria_get (sc_criteria b)"
  from assms(1) obtain t where t: "insert_row sq no_key s (ad_searches d) = Inr (i, t)" "ad_searches d' = t"
      "ss_criteria s = JObj (sc_criteria b)"
    by (auto simp: create_search_def Let_def rbind_eq_Inr split: if_splits)
  have row: "map_of (ad_searches d'') i = Some s"
    using stored.ins_row [OF _ t(1), of i] assms(2-4) t(2) by simp
  obtain k f w where k: "keyword_of (?c ''keyword'') = Inr k" "bound_text db (?c ''field'') = Inr f" "bound_text db (?c ''well_uid'') = Inr w"
      "k = criterion (?c ''keyword'') \<or> (k = None \<and> criterion (?c ''keyword'') = Some [])"
      "f = criterion (?c ''field'') \<or> (f = None \<and> criterion (?c ''field'') = Some [])"
      "w = criterion (?c ''well_uid'') \<or> (w = None \<and> criterion (?c ''well_uid'') = Some [])"
    using keyword_text bound_text_text assms(5) by metis
  have empty: "(if json_truth (ss_criteria s) then (case ss_criteria s of JObj c \<Rightarrow> Inr c | _ \<Rightarrow> Inl AttributeError) else Inr []) = Inr (sc_criteria b)"
    by (cases "sc_criteria b") (simp_all add: t(3))
  have rows: "search_rows db k (remark_filter f w lo hi) d'' =
      search_rows db (criterion (?c ''keyword'')) (remark_filter (criterion (?c ''field'')) (criterion (?c ''well_uid'')) lo hi) d''" for lo hi
    by (rule search_rows_empty_text [OF k(4-6)])
  show ?thesis unfolding run_search_def row option.case empty rbind_Inr k(1-3) rows search_remarks_def
    using date_of_text assms(5) by simp
qed

section \<open>Witnesses\<close>

definition occurs :: "string \<Rightarrow> string \<Rightarrow> bool" where
  "occurs k s = list_ex (\<lambda>i. take (length k) (drop i s) = k) [0..<length s + 1]"

lemma occurs_iff: "occurs k s \<longleftrightarrow> (\<exists>a b. s = a @ k @ b)"
proof
  assume "occurs k s"
  then obtain i where "take (length k) (drop i s) = k" by (auto simp: occurs_def list_ex_iff)
  then have "s = take i s @ k @ drop (length k) (drop i s)" by (metis append_take_drop_id)
  then show "\<exists>a b. s = a @ k @ b" by blast
next
  assume "\<exists>a b. s = a @ k @ b"
  then obtain a b where "s = a @ k @ b" by blast
  then show "occurs k s" by (auto simp: occurs_def list_ex_iff intro!: bexI [of _ "length a"])
qed

definition ex_report_db :: report_db where
  "ex_report_db = \<lparr>rd_lower = lower, rd_like = (\<lambda>s p. occurs (butlast (tl p)) s), rd_nulls_first = True, rd_nans_first = True,
     rd_collate = (\<lambda>s. s), rd_bind_text = (\<lambda>v. Inl DbError)\<rparr>"

lemma ex_like_contains: "like_contains ex_report_db"
  by (simp add: like_contains_def ex_report_db_def occurs_iff)

definition ex_report :: Report where
  "ex_report = \<lparr>rp_report_date = Some 738000, rp_field = Some ''North'', rp_rig = None, rp_well_uid = Some ''w1'', rp_hole_size = None,
     rp_operation_type = None, rp_mud_system = None, rp_created_at = DT True 0\<rparr>"

definition ex_remark :: "string \<Rightarrow> Remark" where
  "ex_remark t = \<lparr>rm_report_id = 1, rm_time = None, rm_depth = None, rm_category = None, rm_text = Some t\<rparr>"

definition ex_reports :: app_db where
  "ex_reports = \<lparr>ad_servers = [], ad_parameters = [], ad_units = [], ad_pages = [], ad_users = [], ad_grants = [],
     ad_reports = [(1, ex_report)], ad_remarks = [(1, ex_remark ''Trip gas''), (2, ex_remark ''drilling'')],
     ad_mud_properties = [], ad_searches = [], ad_depths = []\<rparr>"

definition ex_found :: "RemarkContext list" where
  "ex_found = search_rows ex_report_db (Some ''GAS'') (remark_filter (Some ''North'') None None None) ex_reports"

theorem search_finds_exactly_witness: "map rc_text ex_found = [Some ''Trip gas''] \<and> distinct (map rc_id ex_found)"
proof -
  have "search_remarks ex_report_db (Some ''GAS'') (Some ''North'') None None None ex_reports = Inr ex_found"
    by (simp add: search_remarks_def api_parse_date_def ex_found_def)
  from search_finds_exactly [OF ex_like_contains _ _ _ _ this]
  have "distinct (map rc_id ex_found)" by (auto simp: plain_def ex_reports_def)
  moreover have "map rc_text ex_found = [Some ''Trip gas'']" by code_simp
  ultimately show ?thesis by simp
qed

definition ex_search :: SavedSearchCreate where
  "ex_search = \<lparr>sc_name = ''gas'', sc_module = ''remarks'', sc_criteria = [(''keyword'', JStr ''gas''), (''date_from'', JStr ''x'')], sc_owner_id = None\<rparr>"

theorem saved_search_replays_witness:
  "\<exists>i s d'. create_search (serial_db True) (DT True 0) ex_search ex_reports = Inr ((i, s), d') \<and>
     run_search ex_report_db i d' = Inl (HTTPException 400 (''invalid date: '' @ repr_str ''x''))"
proof -
  have c: "create_search (serial_db True) (DT True 0) ex_search ex_reports = Inr ((1, \<lparr>ss_name = ''gas'', ss_owner_id = None,
      ss_module = ''remarks'', ss_criteria = JObj [(''keyword'', JStr ''gas''), (''date_from'', JStr ''x'')], ss_created_at = DT True 0\<rparr>),
      ex_reports\<lparr>ad_searches := [(1, \<lparr>ss_name = ''gas'', ss_owner_id = None, ss_module = ''remarks'',
        ss_criteria = JObj [(''keyword'', JStr ''gas''), (''date_from'', JStr ''x'')], ss_created_at = DT True 0\<rparr>)]\<rparr>)"
    by (simp add: create_search_def Let_def insert_row_def refers_def key_free_def ex_search_def ex_reports_def serial_db_def)
  have t: "\<forall>k. textual (criteria_get (sc_criteria ex_search) k)" by (simp add: criteria_get_def ex_search_def textual_def)
  have "table_ok no_key (ad_searches ex_reports)" by (simp add: table_ok_def ex_reports_def)
  from saved_search_replays [OF c refl serial_db_fresh this t] show ?thesis unfolding c
    by (simp add: search_remarks_def criteria_get_def ex_search_def api_parse_date_def invalid_date_def)
qed

end
