(* ===== verification/SampleTypes.thy ===== *)
theory SampleTypes
  imports Parse
begin

text \<open>
  The types of the data that leaves the parser: what an answer of a store can make of the untyped
  cells of a row, and that turning a parsed block into samples cannot go wrong on them, except where a depth
  index is a text that pydantic refuses.
\<close>

text \<open>The index of a sample of a log: an aware datetime of a time log, a number or a datetime of any other.\<close>

definition index_typed :: "IndexType \<Rightarrow> pyval \<Rightarrow> bool" where
  "index_typed it v = (if is_time it then (case v of VDt d \<Rightarrow> dt_aware d | _ \<Rightarrow> False)
     else (case v of VStr s \<Rightarrow> False | _ \<Rightarrow> True))"

text \<open>A row as the parser makes it: never empty, an index cell of its log, no datetime in another column.\<close>

definition row_typed :: "IndexType \<Rightarrow> row \<Rightarrow> bool" where
  "row_typed it r = (case r of [] \<Rightarrow> False
     | c # cs \<Rightarrow> (case c of None \<Rightarrow> True | Some v \<Rightarrow> (if is_time it then index_typed it v else (\<forall>d. v \<noteq> VDt d))) \<and>
        list_all (\<lambda>c. case c of Some (VDt d) \<Rightarrow> False | _ \<Rightarrow> True) cs)"

definition sample_typed :: "IndexType \<Rightarrow> string list \<Rightarrow> curve_sample \<Rightarrow> bool" where
  "sample_typed it ms s = (cs_mnemonic s \<in> set ms \<and> (cs_value s = None) = (cs_text s \<noteq> None) \<and> index_typed it (cs_index s))"

lemma decode_cell_other: "decode_cell raw False it nulls \<noteq> Some (VDt d)"
  by (simp add: decode_cell_def Let_def split: option.splits)

lemma parse_datetime_aware: "parse_datetime v = Some d \<Longrightarrow> dt_aware d"
  by (auto simp: parse_datetime_def parse_dt_def Let_def split: option.splits if_splits)

lemma decode_cell_typed:
  "decode_cell raw True it nulls = Some v \<Longrightarrow> if is_time it then index_typed it v else (\<forall>d. v \<noteq> VDt d)"
  using parse_datetime_aware by (auto simp: decode_cell_def index_typed_def Let_def split: option.splits if_splits)

lemma decode_row_typed: "row_typed it (decode_row it nulls t)"
proof -
  obtain c cs where c: "split_on (CHR '','') t = c # cs" by (cases "split_on (CHR '','') t") auto
  have "list_all (\<lambda>c. case c of Some (VDt d) \<Rightarrow> False | _ \<Rightarrow> True) (map (\<lambda>(col, raw). decode_cell raw (col = 0) it nulls) (enumerate 1 cs))"
    using decode_cell_other by (fastforce simp: list_all_iff in_set_enumerate_eq split: option.splits pyval.splits)
  then show ?thesis using decode_cell_typed [of c it nulls]
    by (auto simp: decode_row_def c row_typed_def split: option.splits)
qed

lemma parsed_rows_typed:
  assumes "parse_log_data lx xml (Some it) hn = Inr rs" "r \<in> set rs"
  shows "list_all (row_typed it) (b_rows (ldr_block r))"
proof -
  from assms obtain n where "read_log_data (Some it) hn n = Some r"
    by (auto simp: parse_log_data_def rbind_eq_Inr map_filter_def split: if_splits)
  then show ?thesis
    using decode_row_typed by (auto simp: read_log_data_def Let_def list_all_iff split: option.splits)
qed

text \<open>What the loop over the columns and the loop over the rows can end with.\<close>

definition pyd_typed :: "(string \<Rightarrow> pyval option) \<Rightarrow> bool" where
  "pyd_typed pyd = (\<forall>t s. pyd t \<noteq> Some (VStr s))"

definition typed_outcome :: "IndexType \<Rightarrow> string list \<Rightarrow> curve_sample list res \<Rightarrow> bool" where
  "typed_outcome it ms r = (case r of
      Inl e \<Rightarrow> e = ValidationError \<and> \<not> is_time it
    | Inr ss \<Rightarrow> list_all (sample_typed it ms) ss)"

lemma validate_index_typed:
  assumes "pyd_typed pyd" "if is_time it then index_typed it idx else (\<forall>d. idx \<noteq> VDt d)"
  shows "case validate_index pyd idx of Inl e \<Rightarrow> e = ValidationError \<and> \<not> is_time it | Inr i \<Rightarrow> index_typed it i"
  using assms by (cases idx) (auto simp: validate_index_def pyd_typed_def index_typed_def split: if_splits option.splits pyval.splits)

lemma make_sample_typed:
  assumes "pyd_typed pyd" "if is_time it then index_typed it idx else (\<forall>d. idx \<noteq> VDt d)" "\<forall>d. val \<noteq> VDt d" "m \<in> set ms"
  shows "case make_sample pyd m idx u val of Inl e \<Rightarrow> e = ValidationError \<and> \<not> is_time it | Inr s \<Rightarrow> sample_typed it ms s"
  using validate_index_typed [OF assms(1,2)] assms(3,4)
  by (cases "validate_index pyd idx"; cases val) (simp_all add: make_sample_def sample_typed_def)

lemma row_samples_typed:
  assumes "pyd_typed pyd" "if is_time it then index_typed it idx else (\<forall>d. idx \<noteq> VDt d)"
    and "list_all (\<lambda>c. case c of Some (VDt d) \<Rightarrow> False | _ \<Rightarrow> True) (tl r)" "0 < col" "set ns \<subseteq> set ms"
  shows "typed_outcome it ms (row_samples pyd us r idx col ns)"
  using assms(4,5)
proof (induction ns arbitrary: col)
  case (Cons m ns)
  have ih: "typed_outcome it ms (row_samples pyd us r idx (col + 1) ns)" using Cons by simp
  show ?case
  proof (cases "if col < length r then r ! col else None")
    case (Some v)
    then have "Some v \<in> set (tl r)" using Cons.prems(1) by (cases r; cases col) (auto split: if_splits dest: nth_mem)
    with assms(3) have "\<forall>d. v \<noteq> VDt d" by (auto simp: list_all_iff)
    define u where "u = (if col < length us then us ! col else None)"
    have o: "case make_sample pyd m idx u v of Inl e \<Rightarrow> e = ValidationError \<and> \<not> is_time it | Inr s \<Rightarrow> sample_typed it ms s"
      using make_sample_typed [OF assms(1,2) \<open>\<forall>d. v \<noteq> VDt d\<close>] Cons.prems(2) by simp
    have "row_samples pyd us r idx col (m # ns) =
        rbind (make_sample pyd m idx u v) (\<lambda>s. rbind (row_samples pyd us r idx (col + 1) ns) (\<lambda>ss. Inr (s # ss)))"
      by (simp only: row_samples.simps Some option.case u_def)
    with o ih show ?thesis
      by (cases "make_sample pyd m idx u v"; cases "row_samples pyd us r idx (col + 1) ns") (auto simp: typed_outcome_def)
  qed (use ih in simp)
qed (simp add: typed_outcome_def)

lemma samples_rows_typed:
  assumes "pyd_typed pyd" "list_all (row_typed it) rows"
  shows "typed_outcome it (drop 1 ms) (samples_rows pyd ms us rows)"
  using assms(2)
proof (induction rows)
  case (Cons r rows)
  obtain c cs where r: "r = c # cs" using Cons.prems by (cases r) (auto simp: row_typed_def)
  show ?case
  proof (cases c)
    case (Some idx)
    with Cons.prems r have "if is_time it then index_typed it idx else (\<forall>d. idx \<noteq> VDt d)"
        "list_all (\<lambda>c. case c of Some (VDt d) \<Rightarrow> False | _ \<Rightarrow> True) (tl r)"
      by (auto simp: row_typed_def)
    from row_samples_typed [OF assms(1) this, of 1 "drop 1 ms" "drop 1 ms" us] Cons r Some show ?thesis
      by (auto simp: typed_outcome_def rbind_def split: sum.splits)
  qed (use Cons r in simp)
qed (simp add: typed_outcome_def)

section \<open>Properties\<close>

text \<open>
  C23. Type safety of a parsed log. Whatever XML a store answers, turning a block of it into samples never
  raises a TypeError, and of a time log it never fails: every sample belongs to a curve of the block other
  than the index, carries either a number or a text, and has an aware datetime as index for a time log
  and a number or a datetime otherwise.
\<close>

theorem parsed_samples_well_typed:
  assumes "parse_log_data lx xml (Some it) header_null = Inr results" "r \<in> set results" "pyd_typed pyd"
  shows "case samples pyd (ldr_block r) of
      Inl e \<Rightarrow> e = ValidationError \<and> \<not> is_time it
    | Inr ss \<Rightarrow> \<forall>s \<in> set ss. cs_mnemonic s \<in> set (drop 1 (b_mnemonics (ldr_block r))) \<and>
        (cs_value s = None) = (cs_text s \<noteq> None) \<and> index_typed it (cs_index s)"
  using samples_rows_typed [OF assms(3) parsed_rows_typed [OF assms(1,2)], of "b_mnemonics (ldr_block r)" "b_units (ldr_block r)"]
  by (auto simp: samples_def typed_outcome_def sample_typed_def list_all_iff split: sum.splits)

text \<open>A time log of one row, whatever the text.\<close>

definition time_answer :: node where
  "time_answer = el ''log'' [(''uid'', ''L'')] None [el ''logData'' [] None
     [el ''mnemonicList'' [] (Some ''TIME,ROP'') [], el ''data'' [] (Some ''2024-01-01T00:00:00Z,12 m'') []]]"

definition time_lx :: lxml where
  "time_lx = \<lparr>lx_recover = (\<lambda>s. Inr (Some time_answer)), lx_strict = (\<lambda>s. Inr (Some time_answer)), lx_tostring = (\<lambda>n. []),
     lx_message = (\<lambda>e. [])\<rparr>"

definition time_parsed :: "LogDataResult list" where
  "time_parsed = (case parse_log_data time_lx [] (Some DATE_TIME) None of Inr rs \<Rightarrow> rs | Inl e \<Rightarrow> [])"

theorem parsed_samples_well_typed_witness:
  "\<exists>s. samples (\<lambda>t. None) (ldr_block (hd time_parsed)) = Inr [s] \<and> cs_text s = Some ''12 m'' \<and> cs_value s = None \<and>
     index_typed DATE_TIME (cs_index s)"
proof -
  have p: "parse_log_data time_lx [] (Some DATE_TIME) None = Inr time_parsed" "hd time_parsed \<in> set time_parsed"
    by code_simp+
  have "(case samples (\<lambda>t. None) (ldr_block (hd time_parsed)) of Inr ss \<Rightarrow> map cs_text ss | Inl e \<Rightarrow> []) = [Some ''12 m'']"
    by code_simp
  then have "\<exists>s. samples (\<lambda>t. None) (ldr_block (hd time_parsed)) = Inr [s] \<and> cs_text s = Some ''12 m''"
    by (auto split: sum.splits)
  moreover note parsed_samples_well_typed [OF p, of "\<lambda>t. None"]
  ultimately show ?thesis by (auto simp: pyd_typed_def)
qed

end
