(* ===== verification/FetchBound.thy ===== *)
theory FetchBound
  imports Client
begin

text \<open>
  The +2 loop ends whatever the server does: a service that counts the queries it answers, the number of
  queries one call makes, and that a server which keeps answering the same page is asked at most twice.
\<close>

definition passed :: "('s \<Rightarrow> 'a \<times> 's) \<Rightarrow> 's \<times> nat \<Rightarrow> 'a \<times> 's \<times> nat" where
  "passed f p = (let (r, s) = f (fst p) in (r, s, snd p))"

text \<open>The service with a counter of the GetFromStore calls beside its state.\<close>

definition counted :: "'s service \<Rightarrow> ('s \<times> nat) service" where
  "counted svc = \<lparr>svc_get_version = passed (svc_get_version svc), svc_get_cap = (\<lambda>opts. passed (svc_get_cap svc opts)),
     svc_get_from_store = (\<lambda>ty q opts cap p. let (r, s) = svc_get_from_store svc ty q opts cap (fst p) in (r, s, snd p + 1)),
     svc_add_to_store = (\<lambda>ty x opts. passed (svc_add_to_store svc ty x opts)),
     svc_update_in_store = (\<lambda>ty x opts. passed (svc_update_in_store svc ty x opts)),
     svc_delete_from_store = (\<lambda>ty q opts. passed (svc_delete_from_store svc ty q opts)),
     svc_get_base_msg = (\<lambda>code. passed (svc_get_base_msg svc code)), svc_str = svc_str svc\<rparr>"

lemma counted_error:
  "witsml_error svc code supp s = (e, s') \<Longrightarrow> witsml_error (counted svc) code supp (s, n) = (e, s', n)"
  by (auto simp: witsml_error_def get_base_msg_def counted_def passed_def split: option.splits prod.splits sum.splits response.splits)

lemma counted_fetch_batch:
  assumes "fetch_batch lx svc rq c s = (r, s')"
  shows "\<exists>k \<le> 1. fetch_batch lx (counted svc) rq c (s, n) = (r, s', n + k)"
proof (cases "log_data_query lx (lr_uid_well rq) (lr_uid_wellbore rq) (lr_uid rq) (lr_mnemonics rq) (lr_index_type rq)
      c (lr_end rq) (lr_index_uom rq) (lr_max_return_nodes rq)")
  case (Inl e)
  then show ?thesis using assms by (intro exI [of _ 0]) (simp add: fetch_batch_def)
next
  case (Inr q)
  obtain a t where a: "svc_get_from_store svc (qq_wml_type q) (qq_query_xml q) (qq_options_in q) [] s = (a, t)"
    by (cases "svc_get_from_store svc (qq_wml_type q) (qq_query_xml q) (qq_options_in q) [] s")
  then have c: "svc_get_from_store (counted svc) (qq_wml_type q) (qq_query_xml q) (qq_options_in q) [] (s, n) = (a, t, n + 1)"
    by (simp add: counted_def)
  show ?thesis
  proof (cases a)
    case (Inl e)
    then show ?thesis using assms a c Inr by (intro exI [of _ 1]) (simp add: fetch_batch_def get_from_store_def)
  next
    case (Inr resp)
    obtain rc x supp where "result_triple resp = (rc, x, supp)" by (cases "result_triple resp")
    moreover obtain e t' where "witsml_error svc (Some (or_zero rc)) supp t = (e, t')" by (cases "witsml_error svc (Some (or_zero rc)) supp t")
    moreover note counted_error [OF this, of "n + 1"]
    ultimately show ?thesis using assms a c Inr \<open>log_data_query _ _ _ _ _ _ _ _ _ _ = Inr q\<close>
      by (intro exI [of _ 1]) (auto simp: fetch_batch_def get_from_store_def split: if_splits)
  qed
qed

lemma counted_fetch_loop:
  assumes "fetch_loop m lx svc rq st s = (r, s')"
  shows "\<exists>k \<le> m. fetch_loop m lx (counted svc) rq st (s, n) = (r, s', n + k)"
  using assms
proof (induction m arbitrary: st s n)
  case (Suc m)
  obtain b t where b: "fetch_batch lx svc rq (ls_cursor st) s = (b, t)" by (cases "fetch_batch lx svc rq (ls_cursor st) s")
  obtain k where k: "k \<le> 1" "fetch_batch lx (counted svc) rq (ls_cursor st) (s, n) = (b, t, n + k)"
    using counted_fetch_batch [OF b] by blast
  show ?case
  proof (cases "\<exists>result batch st'. b = Inr (result, batch) \<and> after_batch rq result batch st = Inr (st', True)")
    case True
    then obtain result batch st' where s: "b = Inr (result, batch)" "after_batch rq result batch st = Inr (st', True)" by blast
    then have "fetch_loop m lx svc rq st' t = (r, s')" using Suc.prems b by simp
    from Suc.IH [OF this, of "n + k"] obtain k' where "k' \<le> m" "fetch_loop m lx (counted svc) rq st' (t, n + k) = (r, s', n + k + k')"
      by blast
    then show ?thesis using k s by (intro exI [of _ "k + k'"]) simp
  next
    case False
    then have "fetch_loop (Suc m) lx (counted svc) rq st (s, n) = (r, s', n + k)"
      using Suc.prems b k(2) by (cases b) (auto simp: sbind_def lift_res_def split: sum.splits prod.splits if_splits)
    then show ?thesis using k(1) by auto
  qed
qed (intro exI [of _ 0], simp)

text \<open>A server that gives every query the same answer.\<close>

definition same_answer :: "'s service \<Rightarrow> response res \<Rightarrow> bool" where
  "same_answer svc a = (\<forall>ty q opts cap s. fst (svc_get_from_store svc ty q opts cap s) = a)"

text \<open>No page of the answer resumes at a NaN, which is not equal to itself.\<close>

definition resumable :: "lxml \<Rightarrow> log_request \<Rightarrow> response res \<Rightarrow> bool" where
  "resumable lx rq a = (\<forall>resp b bs v. a = Inr resp \<longrightarrow>
     parse_log_data lx (or_str (fst (snd (result_triple resp))) '''') (Some (lr_index_type rq)) None = Inr (b # bs) \<longrightarrow>
     continuation_index (ldr_block b) (lr_direction rq) = Inr (Some v) \<longrightarrow> \<not> is_nan v)"

lemma same_batch:
  assumes "same_answer svc a" "fetch_batch lx svc rq c s = (Inr p, s')"
  shows "\<exists>resp. a = Inr resp \<and> fst p = or_zero (fst (result_triple resp)) \<and>
    parse_log_data lx (or_str (fst (snd (result_triple resp))) '''') (Some (lr_index_type rq)) None = Inr (snd p)"
proof -
  obtain q where q: "log_data_query lx (lr_uid_well rq) (lr_uid_wellbore rq) (lr_uid rq) (lr_mnemonics rq) (lr_index_type rq)
      c (lr_end rq) (lr_index_uom rq) (lr_max_return_nodes rq) = Inr q"
    using assms(2) by (cases "log_data_query lx (lr_uid_well rq) (lr_uid_wellbore rq) (lr_uid rq) (lr_mnemonics rq) (lr_index_type rq)
      c (lr_end rq) (lr_index_uom rq) (lr_max_return_nodes rq)") (auto simp: fetch_batch_def)
  obtain t where t: "svc_get_from_store svc (qq_wml_type q) (qq_query_xml q) (qq_options_in q) [] s = (a, t)"
    using assms(1) unfolding same_answer_def by (metis prod.collapse)
  show ?thesis
  proof (cases a)
    case (Inl e)
    then show ?thesis using assms(2) q t by (simp add: fetch_batch_def get_from_store_def)
  next
    case (Inr resp)
    then show ?thesis using assms(2) q t
      by (cases "result_triple resp") (auto simp: fetch_batch_def get_from_store_def rbind_eq_Inr split: if_splits prod.splits)
  qed
qed

lemma same_page_stops:
  assumes "after_batch rq result batch st = Inr (st1, True)" "ls_last_index st2 = ls_last_index st1"
    and "\<And>b bs v. batch = b # bs \<Longrightarrow> continuation_index (ldr_block b) (lr_direction rq) = Inr (Some v) \<Longrightarrow> \<not> is_nan v"
  shows "after_batch rq result batch st2 \<noteq> Inr (st3, True)"
proof -
  obtain st' v where v: "take_batch (lr_direction rq) batch st = Inr (st', Some v)" "ls_last_index st1 = Some v"
    using assms(1) by (auto simp: after_batch_def rbind_eq_Inr split: if_splits option.splits)
  then obtain b bs where b: "batch = b # bs" "continuation_index (ldr_block b) (lr_direction rq) = Inr (Some v)"
    by (cases batch) (auto simp: take_batch_def rbind_eq_Inr)
  have "same_index v (Some v)" using assms(3) [OF b] val_eq_iff by (simp add: same_index_def)
  with b v(2) assms(2) show ?thesis by (auto simp: after_batch_def take_batch_def)
qed

text \<open>An iteration after which the loop does not go on asks at most once.\<close>

lemma counted_stop:
  assumes "fetch_batch lx svc rq (ls_cursor st) s = (b, s')" "fetch_loop (Suc m) lx svc rq st s = (r, t)"
    and "\<And>result batch st'. b = Inr (result, batch) \<Longrightarrow> after_batch rq result batch st \<noteq> Inr (st', True)"
  shows "t = s' \<and> (\<exists>k \<le> 1. fetch_loop (Suc m) lx (counted svc) rq st (s, n) = (r, t, n + k))"
proof -
  obtain k where k: "k \<le> 1" "fetch_batch lx (counted svc) rq (ls_cursor st) (s, n) = (b, s', n + k)"
    using counted_fetch_batch [OF assms(1)] by blast
  have "t = s'" using assms
    by (cases b) (auto simp: sbind_def lift_res_def split: sum.splits prod.splits if_splits)
  moreover have "fetch_loop (Suc m) lx (counted svc) rq st (s, n) = (r, s', n + k)"
    using k assms by (cases b) (auto simp: sbind_def lift_res_def split: sum.splits prod.splits if_splits)
  ultimately show ?thesis using k(1) by blast
qed

lemma same_answer_two:
  assumes "same_answer svc a" "resumable lx rq a" "fetch_loop m lx svc rq st s = (r, s')"
  shows "\<exists>k \<le> 2. fetch_loop m lx (counted svc) rq st (s, n) = (r, s', n + k)"
proof (cases "m \<le> 2")
  case True
  then show ?thesis using counted_fetch_loop [OF assms(3), of n] by (meson le_trans)
next
  case False
  then obtain m' where m: "m = Suc (Suc m')" by (metis add_2_eq_Suc le_add_diff_inverse linear)
  obtain b t where b: "fetch_batch lx svc rq (ls_cursor st) s = (b, t)" by (cases "fetch_batch lx svc rq (ls_cursor st) s")
  show ?thesis
  proof (cases "\<exists>result batch st'. b = Inr (result, batch) \<and> after_batch rq result batch st = Inr (st', True)")
    case False
    then show ?thesis using counted_stop [OF b, of "Suc m'" r s' n] assms(3) unfolding m by (meson le_trans one_le_numeral)
  next
    case True
    then obtain result batch st1 where one: "b = Inr (result, batch)" "after_batch rq result batch st = Inr (st1, True)" by blast
    obtain k where k: "k \<le> 1" "fetch_batch lx (counted svc) rq (ls_cursor st) (s, n) = (b, t, n + k)"
      using counted_fetch_batch [OF b] by blast
    have rest: "fetch_loop (Suc m') lx svc rq st1 t = (r, s')" using assms(3) b one unfolding m by simp
    obtain b2 t2 where b2: "fetch_batch lx svc rq (ls_cursor st1) t = (b2, t2)" by (cases "fetch_batch lx svc rq (ls_cursor st1) t")
    have end2: "after_batch rq result2 batch2 st1 \<noteq> Inr (st2, True)" if "b2 = Inr (result2, batch2)" for result2 batch2 st2
    proof -
      obtain resp where resp: "a = Inr resp" "result = or_zero (fst (result_triple resp))"
          "parse_log_data lx (or_str (fst (snd (result_triple resp))) '''') (Some (lr_index_type rq)) None = Inr batch"
        using same_batch [OF assms(1) b [unfolded one(1)]] by auto
      moreover have "result2 = or_zero (fst (result_triple resp))"
          "parse_log_data lx (or_str (fst (snd (result_triple resp))) '''') (Some (lr_index_type rq)) None = Inr batch2"
        using same_batch [OF assms(1) b2 [unfolded that]] resp(1) by auto
      ultimately have "result2 = result" "batch2 = batch" by auto
      then show ?thesis using same_page_stops [OF one(2) refl] assms(2) resp unfolding resumable_def by auto
    qed
    obtain k2 where k2: "k2 \<le> 1" "fetch_loop (Suc m') lx (counted svc) rq st1 (t, n + k) = (r, s', n + k + k2)"
      using counted_stop [OF b2 rest] end2 by blast
    have "fetch_loop m lx (counted svc) rq st (s, n) = (r, s', n + (k + k2))"
      unfolding m using k(2) one k2(2) by (simp add: add.assoc)
    then show ?thesis using k(1) k2(1) by (intro exI [of _ "k + k2"]) simp
  qed
qed

lemma counted_get_log_data:
  assumes "get_log_data lx svc rq s = (r, s')" "fetch_loop MAX_TRUNCATION_ITERATIONS lx svc rq (init_loop rq) s = (st, t)"
    and "fetch_loop MAX_TRUNCATION_ITERATIONS lx (counted svc) rq (init_loop rq) (s, n) = (st, t, n + k)"
  shows "get_log_data lx (counted svc) rq (s, n) = (r, s', n + k)"
  using assms by (cases st) (auto simp: get_log_data_def sbind_def lift_res_def)

section \<open>Properties\<close>

text \<open>
  C17. Fetching a log ends, whatever the server answers: one call asks for at most 1000 pages, and at most two when the
  server gives every query the same answer and no page of it resumes at a NaN. Counting the queries changes neither
  the result nor what the server is left with.
\<close>

theorem get_log_data_ends:
  assumes "get_log_data lx svc rq s = (r, s')"
  shows "(\<exists>n \<le> 1000. get_log_data lx (counted svc) rq (s, 0) = (r, s', n)) \<and>
    (\<forall>a. same_answer svc a \<longrightarrow> resumable lx rq a \<longrightarrow> (\<exists>n \<le> 2. get_log_data lx (counted svc) rq (s, 0) = (r, s', n)))"
proof -
  obtain st t where l: "fetch_loop MAX_TRUNCATION_ITERATIONS lx svc rq (init_loop rq) s = (st, t)"
    by (cases "fetch_loop MAX_TRUNCATION_ITERATIONS lx svc rq (init_loop rq) s")
  show ?thesis
    using counted_fetch_loop [OF l, of 0] same_answer_two [OF _ _ l, of _ 0] counted_get_log_data [OF assms l, of 0]
    unfolding MAX_TRUNCATION_ITERATIONS_def by fastforce
qed

text \<open>A server that reports every page as truncated and always sends the same row.\<close>

definition stuck_page_doc :: node where
  "stuck_page_doc = el ''log'' [(''uid'', ''L'')] None [el ''logData'' [] None
     [el ''mnemonicList'' [] (Some ''TIME,ROP'') [], el ''data'' [] (Some ''2024-01-01T00:00:00Z,12 m'') []]]"

definition page_lx :: lxml where
  "page_lx = \<lparr>lx_recover = (\<lambda>x. Inr (Some stuck_page_doc)), lx_strict = (\<lambda>x. Inr (Some stuck_page_doc)), lx_tostring = (\<lambda>n. []), lx_message = (\<lambda>e. [])\<rparr>"

definition stuck_answer :: "response res" where
  "stuck_answer = Inr (RSeq [OInt 2, OStr ''page'', ONone])"

definition stuck :: "unit service" where
  "stuck = \<lparr>svc_get_version = Pair (Inl TransportError), svc_get_cap = (\<lambda>opts. Pair (Inl TransportError)),
     svc_get_from_store = (\<lambda>ty q opts cap. Pair stuck_answer), svc_add_to_store = (\<lambda>ty x opts. Pair (Inl TransportError)),
     svc_update_in_store = (\<lambda>ty x opts. Pair (Inl TransportError)), svc_delete_from_store = (\<lambda>ty x opts. Pair (Inl TransportError)),
     svc_get_base_msg = (\<lambda>code. Pair (Inl TransportError)), svc_str = (\<lambda>r. [])\<rparr>"

definition stuck_request :: log_request where
  "stuck_request = \<lparr>lr_uid_well = ''W'', lr_uid_wellbore = ''B'', lr_uid = ''L'', lr_mnemonics = [''TIME'', ''ROP''],
     lr_index_type = DATE_TIME, lr_direction = INCREASING, lr_start = None, lr_end = None, lr_index_uom = None, lr_max_return_nodes = None\<rparr>"

lemma stuck_page: "case parse_log_data page_lx ''page'' (Some DATE_TIME) None of
    Inr (b # bs) \<Rightarrow> (case continuation_index (ldr_block b) INCREASING of Inr (Some v) \<Rightarrow> \<not> is_nan v | _ \<Rightarrow> True) | _ \<Rightarrow> True"
  by code_simp

theorem get_log_data_ends_witness:
  "\<exists>r n. n \<le> 2 \<and> get_log_data page_lx (counted stuck) stuck_request ((), 0) = (r, (), n)"
proof -
  have "same_answer stuck stuck_answer" by (simp add: same_answer_def stuck_def)
  moreover have "resumable page_lx stuck_request stuck_answer"
    using stuck_page by (auto simp: resumable_def stuck_answer_def stuck_request_def result_triple_def item_def or_str_def)
  moreover obtain r where "get_log_data page_lx stuck stuck_request () = (r, ())"
    by (cases "get_log_data page_lx stuck stuck_request ()") auto
  note get_log_data_ends [OF this]
  ultimately show ?thesis by blast
qed

end
