(* ===== verification/StoreContract.thy ===== *)
theory StoreContract
  imports MockStore
begin

text \<open>
  What the mock store promises, independently of its four dictionaries and of how rows are kept: one finite map from
  typed keys to objects, and three ways a request changes it. A log is its header and a map from index values to
  cells, where a NaN, which is equal to nothing, is not a key. The locale states the contract once for any
  store that reads a request as a command on such a map; it is interpreted on the operations of the mock store.
\<close>

section \<open>Commands on a map\<close>

text \<open>A request is refused with a code, ignored with a code, crashes, or adds, changes or removes one object.\<close>

datatype ('k, 'o) command = Answer int | Crash | Add 'k 'o | Change 'k "'o \<Rightarrow> 'o" | Remove 'k

fun exec :: "('k, 'o) command \<Rightarrow> ('k \<Rightarrow> 'o option) \<Rightarrow> int option \<times> ('k \<Rightarrow> 'o option)" where
  "exec (Answer c) m = (Some c, m)"
| "exec Crash m = (None, m)"
| "exec (Add k v) m = (if m k = None then (Some RC_SUCCESS, m(k := Some v)) else (Some RC_ERROR_DUPLICATE, m))"
| "exec (Change k f) m = (case m k of None \<Rightarrow> (Some RC_ERROR_NOT_FOUND, m) | Some v \<Rightarrow> (Some RC_SUCCESS, m(k := Some (f v))))"
| "exec (Remove k) m = (if m k = None then (Some RC_ERROR_NOT_FOUND, m) else (Some RC_SUCCESS, m(k := None)))"

fun exec_all :: "('k, 'o) command list \<Rightarrow> ('k \<Rightarrow> 'o option) \<Rightarrow> int option list \<times> ('k \<Rightarrow> 'o option)" where
  "exec_all [] m = ([], m)"
| "exec_all (c # cs) m = (let (a, m') = exec c m; (as, m'') = exec_all cs m' in (a # as, m''))"

text \<open>The key a command is about.\<close>

fun target :: "('k, 'o) command \<Rightarrow> 'k option" where
  "target (Answer c) = None" | "target Crash = None" | "target (Add k v) = Some k" | "target (Change k f) = Some k"
| "target (Remove k) = Some k"

lemma exec_frame: "target c \<noteq> Some k \<Longrightarrow> snd (exec c m) k = m k"
  by (cases c) (auto split: option.splits)

text \<open>The requests of a client, in their order, on a store.\<close>

fun run_requests :: "('r \<Rightarrow> 's \<Rightarrow> int option \<times> 's) \<Rightarrow> 'r list \<Rightarrow> 's \<Rightarrow> int option list \<times> 's" where
  "run_requests perform [] s = ([], s)"
| "run_requests perform (r # rs) s = (let (a, s') = perform r s; (as, s'') = run_requests perform rs s' in (a # as, s''))"

locale object_store =
  fixes view :: "'s \<Rightarrow> 'k \<Rightarrow> 'o option" and perform :: "'r \<Rightarrow> 's \<Rightarrow> int option \<times> 's" and meaning :: "'r \<Rightarrow> ('k, 'o) command"
  assumes refines: "(fst (perform r s), view (snd (perform r s))) = exec (meaning r) (view s)"
begin

text \<open>Every run of the store is a run of its commands on the map.\<close>

lemma runs_refine: "(fst (run_requests perform rs s), view (snd (run_requests perform rs s))) = exec_all (map meaning rs) (view s)"
proof (induction rs arbitrary: s)
  case (Cons r rs)
  obtain a s' where "perform r s = (a, s')" by (cases "perform r s")
  with refines [of r s, symmetric] Cons.IH [of s', symmetric] show ?case by (simp add: split_beta)
qed simp

lemma frame: "target (meaning r) \<noteq> Some k \<Longrightarrow> view (snd (perform r s)) k = view s k"
  using exec_frame [of "meaning r" k "view s"] refines [of r s] by (metis snd_conv)

lemma added: "meaning r = Add k v \<Longrightarrow> view s k = None \<Longrightarrow> fst (perform r s) = Some RC_SUCCESS \<and> view (snd (perform r s)) k = Some v"
  using refines [of r s] by auto

lemma added_once: "meaning r = Add k v \<Longrightarrow> view s k = Some w \<Longrightarrow> fst (perform r s) = Some RC_ERROR_DUPLICATE \<and> view (snd (perform r s)) = view s"
  using refines [of r s] by auto

text \<open>Adding and removing again leaves the map as it was.\<close>

lemma add_remove:
  assumes "meaning r = Add k v" "meaning r' = Remove k" "view s k = None"
  shows "view (snd (perform r' (snd (perform r s)))) = view s"
  using refines [of r s] refines [of r' "snd (perform r s)"] assms by auto

end

section \<open>The map of the mock store\<close>

datatype obj_key = KWell string | KWellbore string | KLog log_key | KMudLog log_key

datatype object = OWell node | OWellbore node | OLog StoredLog "pyval \<Rightarrow> string list option" | OMudLog StoredMudLog

definition row_map :: "store_row list \<Rightarrow> pyval \<Rightarrow> string list option" where
  "row_map rows i = (if is_nan i then None else dget i rows)"

definition header_of :: "StoredLog \<Rightarrow> StoredLog" where
  "header_of lg = lg\<lparr>sl_rows := []\<rparr>"

definition log_object :: "StoredLog \<Rightarrow> object" where
  "log_object lg = OLog (header_of lg) (row_map (sl_rows lg))"

fun view_store :: "MockStore \<Rightarrow> obj_key \<Rightarrow> object option" where
  "view_store s (KWell k) = map_option (OWell \<circ> sw_element) (map_of (ms_wells s) k)"
| "view_store s (KWellbore k) = map_option (OWellbore \<circ> swb_element) (map_of (ms_wellbores s) k)"
| "view_store s (KLog k) = map_option log_object (map_of (ms_logs s) k)"
| "view_store s (KMudLog k) = map_option OMudLog (map_of (ms_mudlogs s) k)"

text \<open>The rows a document brings to a log, in its order.\<close>

definition data_row :: "StoredLog \<Rightarrow> string list \<Rightarrow> string \<Rightarrow> store_row list" where
  "data_row h incoming t = (let cells = map strip (split_on (CHR '','') t) in
     case parse_index (Some (hd cells)) (sl_index_type h) of
       None \<Rightarrow> []
     | Some i \<Rightarrow> [(i, stored_cells (if sl_mnemonics h = [] then incoming else sl_mnemonics h) incoming (sl_null_value h) cells)])"

definition document_rows :: "StoredLog \<Rightarrow> node \<Rightarrow> store_row list" where
  "document_rows h n = (case xml_first n ''logData'' of
      None \<Rightarrow> []
    | Some ld \<Rightarrow> if incoming_mnemonics h ld = [] then []
        else concat (map (\<lambda>d. case node_text d of None \<Rightarrow> [] | Some t \<Rightarrow> data_row h (incoming_mnemonics h ld) t) (xml_children ld ''data'')))"

text \<open>Later rows of an index win over earlier ones and over what is stored.\<close>

definition override :: "(pyval \<Rightarrow> string list option) \<Rightarrow> store_row list \<Rightarrow> pyval \<Rightarrow> string list option" where
  "override m rows = m ++ map_of (rev (filter (\<lambda>p. \<not> is_nan (fst p)) rows))"

fun append_rows :: "node \<Rightarrow> object \<Rightarrow> object" where
  "append_rows n (OLog h m) = (let rows = document_rows h n in
     OLog (if rows = [] then h else h\<lparr>sl_object_growing := True\<rparr>) (override m rows))"
| "append_rows n x = x"

fun append_intervals :: "node \<Rightarrow> object \<Rightarrow> object" where
  "append_intervals n (OMudLog ml) = (let new = xml_children n ''geologyInterval'' in
     OMudLog (if new = [] then ml else ml\<lparr>sm_intervals := sm_intervals ml @ new, sm_object_growing := True\<rparr>))"
| "append_intervals n x = x"

section \<open>The commands of the requests\<close>

datatype store_request = AddObject string string | UpdateObject string string | DeleteObject string string

type_synonym obj_command = "(obj_key, object) command"

definition mudlog_of :: "node \<Rightarrow> StoredMudLog" where
  "mudlog_of n = \<lparr>sm_uid = attr_or_empty n ''uid'', sm_uid_well = attr_or_empty n ''uidWell'',
     sm_uid_wellbore = attr_or_empty n ''uidWellbore'', sm_name = xml_text n ''name'', sm_name_well = xml_text n ''nameWell'',
     sm_name_wellbore = xml_text n ''nameWellbore'', sm_object_growing = False, sm_intervals = xml_children n ''geologyInterval''\<rparr>"

text \<open>A new object, refused without an element of its type or without a uid.\<close>

definition new_object :: "string \<Rightarrow> node \<Rightarrow> (node \<Rightarrow> obj_key) \<Rightarrow> (node \<Rightarrow> object) \<Rightarrow> obj_command" where
  "new_object tag rt key obj = (case root_or_first rt tag of
      None \<Rightarrow> Answer RC_ERROR_BAD_INPUT
    | Some n \<Rightarrow> if attr_or_empty n ''uid'' = [] then Answer RC_ERROR_BAD_INPUT else Add (key n) (obj n))"

definition bore_key :: "node \<Rightarrow> obj_key" where
  "bore_key n = KWellbore (wellbore_key (attr_or_empty n ''uidWell'') (attr_or_empty n ''uid''))"

definition add_command :: "string \<Rightarrow> node \<Rightarrow> obj_command" where
  "add_command ty rt =
     (if ty = ''well'' then new_object ''well'' rt (\<lambda>n. KWell (attr_or_empty n ''uid'')) OWell
      else if ty = ''wellbore'' then new_object ''wellbore'' rt bore_key OWellbore
      else if ty = ''log'' then new_object ''log'' rt (KLog \<circ> log_key_of)
        (\<lambda>n. OLog (read_stored_log n) (override Map.empty (document_rows (read_stored_log n) n)))
      else if ty = ''mudlog'' then new_object ''mudLog'' rt (KMudLog \<circ> log_key_of) (OMudLog \<circ> mudlog_of)
      else Answer RC_ERROR_BAD_INPUT)"

definition changed_object :: "string \<Rightarrow> node \<Rightarrow> (node \<Rightarrow> obj_key) \<Rightarrow> (node \<Rightarrow> object \<Rightarrow> object) \<Rightarrow> obj_command" where
  "changed_object tag rt key f = (case root_or_first rt tag of
      None \<Rightarrow> Answer RC_ERROR_BAD_INPUT | Some n \<Rightarrow> Change (key n) (f n))"

definition update_command :: "string \<Rightarrow> node \<Rightarrow> obj_command" where
  "update_command ty rt =
     (if ty = ''log'' then changed_object ''log'' rt (KLog \<circ> log_key_of) append_rows
      else if ty = ''mudlog'' then changed_object ''mudLog'' rt (KMudLog \<circ> log_key_of) append_intervals
      else if ty = ''well'' \<or> ty = ''wellbore'' then Answer RC_SUCCESS
      else Answer RC_ERROR_BAD_INPUT)"

definition removed_object :: "string \<Rightarrow> node \<Rightarrow> (node \<Rightarrow> obj_key) \<Rightarrow> obj_command" where
  "removed_object tag rt key = (case xml_first rt tag of None \<Rightarrow> Answer RC_ERROR_NOT_FOUND | Some n \<Rightarrow> Remove (key n))"

definition delete_command :: "string \<Rightarrow> node \<Rightarrow> obj_command" where
  "delete_command ty rt =
     (if ty = ''well'' then (case xml_first rt ''well'' of
          None \<Rightarrow> Answer RC_ERROR_NOT_FOUND
        | Some n \<Rightarrow> if attr_or_empty n ''uid'' = [] then Answer RC_ERROR_NOT_FOUND else Remove (KWell (attr_or_empty n ''uid'')))
      else if ty = ''wellbore'' then removed_object ''wellbore'' rt bore_key
      else if ty = ''log'' then removed_object ''log'' rt (KLog \<circ> log_key_of)
      else if ty = ''mudlog'' then removed_object ''mudLog'' rt (KMudLog \<circ> log_key_of)
      else Answer RC_ERROR_NOT_FOUND)"

text \<open>What a request means: its document read, a malformed or empty one refused.\<close>

definition store_type :: "string \<Rightarrow> string" where
  "store_type wml_type = lower (strip wml_type)"

fun store_command :: "lxml \<Rightarrow> store_request \<Rightarrow> obj_command" where
  "store_command lx (AddObject ty xml) = (case lx_recover lx xml of
      Inr (Some rt) \<Rightarrow> add_command (store_type ty) rt | _ \<Rightarrow> Answer RC_ERROR_BAD_INPUT)"
| "store_command lx (UpdateObject ty xml) = (case lx_recover lx xml of
      Inr (Some rt) \<Rightarrow> update_command (store_type ty) rt | _ \<Rightarrow> Answer RC_ERROR_BAD_INPUT)"
| "store_command lx (DeleteObject ty xml) = (case lx_recover lx xml of
      Inr (Some rt) \<Rightarrow> delete_command (store_type ty) rt
    | Inr None \<Rightarrow> if store_type ty \<in> {''well'', ''wellbore'', ''log'', ''mudlog''} then Crash else Answer RC_ERROR_NOT_FOUND
    | Inl e \<Rightarrow> Answer RC_ERROR_BAD_INPUT)"

text \<open>The operations of the store, an exception as no code.\<close>

fun perform_request :: "lxml \<Rightarrow> store_request \<Rightarrow> MockStore \<Rightarrow> int option \<times> MockStore" where
  "perform_request lx (AddObject ty xml) s = (let (a, s') = add_object lx ty xml s in (Some (fst a), s'))"
| "perform_request lx (UpdateObject ty xml) s = (let (a, s') = update_object lx ty xml s in (Some (fst a), s'))"
| "perform_request lx (DeleteObject ty xml) s = (case delete_object lx ty xml s of
      Inl e \<Rightarrow> (None, s) | Inr (a, s') \<Rightarrow> (Some (fst a), s'))"

section \<open>The mock store refines the map\<close>

lemma dget_dput: "\<not> is_nan i \<Longrightarrow> dget i (dput k v d) = (if k = i then Some v else dget i d)"
  by (cases "is_nan k") (induction d, auto simp: val_eq_iff val_eq_iff2 dput_update dget_map_of lookup_update)

lemma row_map_dput: "row_map (dput k v d) = (if is_nan k then row_map d else (row_map d)(k := Some v))"
  by (auto simp: row_map_def fun_eq_iff dget_dput)

lemma row_map_fold: "row_map (fold (\<lambda>(i, c). dput i c) rows d) = override (row_map d) rows"
proof (induction rows arbitrary: d)
  case (Cons p rows)
  then show ?case by (cases p) (auto simp: row_map_dput override_def)
qed (simp add: override_def)

lemma override_Nil [simp]: "override m [] = m"
  by (simp add: override_def)

lemma ingest_data_step:
  assumes "node_text d = Some t"
  shows "ingest_data (sl_index_type h) (sl_null_value h) (if sl_mnemonics h = [] then inc else sl_mnemonics h) inc (d # ds) (rows, k) =
    ingest_data (sl_index_type h) (sl_null_value h) (if sl_mnemonics h = [] then inc else sl_mnemonics h) inc ds
      (fold (\<lambda>(i, c). dput i c) (data_row h inc t) rows, k + length (data_row h inc t))"
  using assms
  by (cases "parse_index (Some (hd (map strip (split_on (CHR '','') t)))) (sl_index_type h)") (simp_all add: data_row_def Let_def)

lemma ingest_data_rows:
  "ingest_data (sl_index_type h) (sl_null_value h) (if sl_mnemonics h = [] then inc else sl_mnemonics h) inc ds (rows, k) =
     (let new = concat (map (\<lambda>d. case node_text d of None \<Rightarrow> [] | Some t \<Rightarrow> data_row h inc t) ds)
      in (fold (\<lambda>(i, c). dput i c) new rows, k + length new))"
proof (induction ds arbitrary: rows k)
  case (Cons d ds)
  show ?case
  proof (cases "node_text d")
    case (Some t)
    show ?thesis unfolding ingest_data_step [OF Some] Cons.IH by (simp add: Some Let_def)
  qed (use Cons.IH in \<open>simp del: split_paired_All\<close>)
qed simp

lemma ingest_logdata_rows:
  "ingest_logdata lg n = (lg\<lparr>sl_rows := fold (\<lambda>(i, c). dput i c) (document_rows lg n) (sl_rows lg)\<rparr>, length (document_rows lg n))"
proof (cases "xml_first n ''logData''")
  case (Some ld)
  show ?thesis
    by (simp only: ingest_logdata_def document_rows_def Some option.case Let_def ingest_data_rows split: if_splits) simp
qed (simp add: ingest_logdata_def document_rows_def)

lemma header_simps: "sl_mnemonics (header_of lg) = sl_mnemonics lg" "sl_null_value (header_of lg) = sl_null_value lg"
    "sl_index_type (header_of lg) = sl_index_type lg"
  by (simp_all add: header_of_def sl_mnemonics_def)

lemma header_fields: "incoming_mnemonics (header_of lg) = incoming_mnemonics lg" "data_row (header_of lg) = data_row lg"
  unfolding incoming_mnemonics_def [abs_def] data_row_def [abs_def] header_simps by simp_all

lemma document_rows_header: "document_rows (header_of lg) n = document_rows lg n"
  unfolding document_rows_def header_fields ..

text \<open>Updating a dictionary is updating the map.\<close>

lemma view_wells: "view_store (s\<lparr>ms_wells := AList.update k w (ms_wells s)\<rparr>) = (view_store s)(KWell k := Some (OWell (sw_element w)))"
  by (rule ext, rename_tac x, case_tac x) (auto simp: lookup_update)

lemma view_wellbores: "view_store (s\<lparr>ms_wellbores := AList.update k w (ms_wellbores s)\<rparr>) =
    (view_store s)(KWellbore k := Some (OWellbore (swb_element w)))"
  by (rule ext, rename_tac x, case_tac x) (auto simp: lookup_update)

lemma view_logs: "view_store (s\<lparr>ms_logs := AList.update k lg (ms_logs s)\<rparr>) = (view_store s)(KLog k := Some (log_object lg))"
  by (rule ext, rename_tac x, case_tac x) (auto simp: lookup_update)

lemma view_mudlogs: "view_store (s\<lparr>ms_mudlogs := AList.update k ml (ms_mudlogs s)\<rparr>) = (view_store s)(KMudLog k := Some (OMudLog ml))"
  by (rule ext, rename_tac x, case_tac x) (auto simp: lookup_update)

lemma view_deleted:
  "view_store (s\<lparr>ms_wells := AList.delete k (ms_wells s)\<rparr>) = (view_store s)(KWell k := None)"
  "view_store (s\<lparr>ms_wellbores := AList.delete k (ms_wellbores s)\<rparr>) = (view_store s)(KWellbore k := None)"
  "view_store (s\<lparr>ms_logs := AList.delete l (ms_logs s)\<rparr>) = (view_store s)(KLog l := None)"
  "view_store (s\<lparr>ms_mudlogs := AList.delete l (ms_mudlogs s)\<rparr>) = (view_store s)(KMudLog l := None)"
  by (rule ext, rename_tac x, case_tac x; auto simp: delete_conv')+

lemmas views = view_wells view_wellbores view_logs view_mudlogs view_deleted

lemma new_log_object: "log_object (fst (ingest_logdata (read_stored_log n) n)) =
    OLog (read_stored_log n) (override Map.empty (document_rows (read_stored_log n) n))"
proof -
  have "sl_rows (read_stored_log n) = []" "header_of (read_stored_log n) = read_stored_log n"
    by (simp_all add: read_stored_log_def header_of_def Let_def)
  moreover have "row_map [] = Map.empty" by (simp add: row_map_def fun_eq_iff)
  ultimately show ?thesis by (simp add: ingest_logdata_rows log_object_def row_map_fold) (simp add: header_of_def)
qed

lemma updated_log_object:
  "append_rows n (log_object lg) = log_object (if snd (ingest_logdata lg n) = 0 then fst (ingest_logdata lg n)
     else fst (ingest_logdata lg n)\<lparr>sl_object_growing := True\<rparr>)"
  by (simp add: ingest_logdata_rows log_object_def row_map_fold document_rows_header Let_def) (simp add: header_of_def)

lemma add_refines:
  "(Some (fst (fst (add_object lx ty xml s))), view_store (snd (add_object lx ty xml s))) =
     exec (store_command lx (AddObject ty xml)) (view_store s)"
  by (auto simp: add_object_def add_command_def new_object_def bore_key_def store_type_def add_well_def add_wellbore_def add_log_def
      add_mudlog_def mudlog_of_def Let_def views new_log_object comp_def split: sum.splits option.splits)

lemma update_refines:
  "(Some (fst (fst (update_object lx ty xml s))), view_store (snd (update_object lx ty xml s))) =
     exec (store_command lx (UpdateObject ty xml)) (view_store s)"
proof -
  have log: "(Some (fst (fst (update_log rt s))), view_store (snd (update_log rt s))) =
      exec (changed_object ''log'' rt (KLog \<circ> log_key_of) append_rows) (view_store s)" for rt
    by (auto simp: update_log_def changed_object_def Let_def split_beta view_logs updated_log_object
        split: option.splits)
  have mudlog: "(Some (fst (fst (update_mudlog rt s))), view_store (snd (update_mudlog rt s))) =
      exec (changed_object ''mudLog'' rt (KMudLog \<circ> log_key_of) append_intervals) (view_store s)" for rt
    by (auto simp: update_mudlog_def changed_object_def Let_def view_mudlogs fun_upd_idem split: option.splits)
  show ?thesis
    by (auto simp: update_object_def update_command_def store_type_def Let_def log [simplified] mudlog [simplified] split: sum.splits option.splits)
qed

lemma delete_refines:
  "(case delete_object lx ty xml s of Inl e \<Rightarrow> (None, view_store s) | Inr (a, s') \<Rightarrow> (Some (fst a), view_store s')) =
     exec (store_command lx (DeleteObject ty xml)) (view_store s)"
proof -
  have "(Some (fst (fst (delete_well rt s))), view_store (snd (delete_well rt s))) = exec (delete_command ''well'' rt) (view_store s)" for rt
    by (auto simp: delete_well_def delete_command_def nothing_matched_def or_none_def or_str_def views split: option.splits)
  moreover have "(Some (fst (fst (delete_wellbore rt s))), view_store (snd (delete_wellbore rt s))) =
      exec (removed_object ''wellbore'' rt bore_key) (view_store s)" for rt
    by (auto simp: delete_wellbore_def removed_object_def nothing_matched_def bore_key_def Let_def views split: option.splits)
  moreover have "(Some (fst (fst (delete_log rt s))), view_store (snd (delete_log rt s))) =
      exec (removed_object ''log'' rt (KLog \<circ> log_key_of)) (view_store s)" for rt
    by (auto simp: delete_log_def removed_object_def nothing_matched_def views split: option.splits)
  moreover have "(Some (fst (fst (delete_mudlog rt s))), view_store (snd (delete_mudlog rt s))) =
      exec (removed_object ''mudLog'' rt (KMudLog \<circ> log_key_of)) (view_store s)" for rt
    by (auto simp: delete_mudlog_def removed_object_def nothing_matched_def views split: option.splits)
  ultimately show ?thesis
    by (auto simp: delete_object_def delete_command_def nothing_matched_def store_type_def Let_def prod_eq_iff split: sum.splits option.splits if_splits prod.splits)
qed

interpretation mock: object_store view_store "perform_request lx" "store_command lx" for lx
proof
  fix r s
  show "(fst (perform_request lx r s), view_store (snd (perform_request lx r s))) = exec (store_command lx r) (view_store s)"
  proof (cases r)
    case (AddObject ty xml)
    then show ?thesis using add_refines [where lx = lx and ty = ty and xml = xml and s = s]
      by (simp add: split_beta del: store_command.simps)
  next
    case (UpdateObject ty xml)
    then show ?thesis using update_refines [where lx = lx and ty = ty and xml = xml and s = s]
      by (simp add: split_beta del: store_command.simps)
  next
    case (DeleteObject ty xml)
    then show ?thesis using delete_refines [where lx = lx and ty = ty and xml = xml and s = s]
      by (cases "delete_object lx ty xml s") (auto simp del: store_command.simps)
  qed
qed

section \<open>Properties\<close>

text \<open>
  C4. The mock store implements the map. For any sequence of AddToStore, UpdateInStore and DeleteFromStore requests, well
  formed or not, the codes it answers and the objects it ends with are those of the requests' commands on one map:
  an object is added once, a log keeps one row per index, the newest, and nothing but the addressed object changes.
\<close>

theorem store_refines_map:
  "(fst (run_requests (perform_request lx) requests s), view_store (snd (run_requests (perform_request lx) requests s))) =
     exec_all (map (store_command lx) requests) (view_store s)"
  by (rule mock.runs_refine)

end
