(* ===== verification/Compare.thy ===== *)
theory Compare
  imports StoreApi RingStore
begin

text \<open>
  The comparison of up to four wells (\<^verbatim>\<open>backend/app/api/comparison.py\<close>): the buffered curves of every well and the
  lithology its mud logs give, best effort. While a handler waits for the store the ingestion may go on, so the warm
  store is given as it is when the loop reaches a well and as it is when the lithology of the well has arrived.
\<close>

definition MAX_WELLS :: nat where "MAX_WELLS = 4"

definition csv_item :: "string \<Rightarrow> string list \<Rightarrow> string list" where
  "csv_item piece out = (let item = strip piece in if item \<noteq> [] \<and> item \<notin> set out then out @ [item] else out)"

definition split_csv :: "string option \<Rightarrow> string list" where
  "split_csv raw = (case or_none raw of None \<Rightarrow> [] | Some s \<Rightarrow> fold csv_item (split_on (CHR '','') s) [])"

section \<open>Best-effort queries\<close>

text \<open>Any exception and any answer that is not a success is None.\<close>

definition run_query :: "'s service \<Rightarrow> QbeQuery \<Rightarrow> 's \<Rightarrow> string option \<times> 's" where
  "run_query svc q s = (case get_from_store svc (qq_wml_type q) (qq_query_xml q) (qq_options_in q) s of
      (Inl e, s') \<Rightarrow> (None, s')
    | (Inr (return_code, xml_out, supp_msg), s') \<Rightarrow> (if is_success (Some return_code) then xml_out else None, s'))"

text \<open>A query that cannot be built raises; an answer that does not parse is no wellbores.\<close>

definition find_wellbore_uids :: "lxml \<Rightarrow> 's service \<Rightarrow> string \<Rightarrow> (string list, 's) act" where
  "find_wellbore_uids lx svc well_uid = sbind (lift_res (wellbore_query lx well_uid None ID_ONLY)) (\<lambda>q s.
     case run_query svc q s of
       (None, s') \<Rightarrow> (Inr [], s')
     | (Some xml, s') \<Rightarrow> (case parse_wellbores lx xml of
           Inl e \<Rightarrow> (Inr [], s') | Inr wbs \<Rightarrow> (Inr (filter (\<lambda>u. u \<noteq> []) (map wb_uid wbs)), s')))"

record LithologyRow =
  lt_mdTop :: "pyfloat option"
  lt_mdBottom :: "pyfloat option"
  lt_uom :: "string option"
  lt_type :: "string option"
  lt_codeLith :: "string option"
  lt_lithPc :: "pyfloat option"
  lt_description :: "string option"

text \<open>One row per lithology, and one for an interval without any.\<close>

definition interval_rows :: "geology_interval \<Rightarrow> LithologyRow list" where
  "interval_rows gi = (if gi_lithologies gi \<noteq> []
     then map (\<lambda>l. \<lparr>lt_mdTop = gi_md_top gi, lt_mdBottom = gi_md_bottom gi, lt_uom = gi_md_uom gi, lt_type = lith_type l,
            lt_codeLith = lith_code_lith l, lt_lithPc = lith_lith_pc l,
            lt_description = (case or_none (lith_description l) of Some d \<Rightarrow> Some d | None \<Rightarrow> gi_description gi)\<rparr>) (gi_lithologies gi)
     else [\<lparr>lt_mdTop = gi_md_top gi, lt_mdBottom = gi_md_bottom gi, lt_uom = gi_md_uom gi, lt_type = gi_type_lithology gi,
            lt_codeLith = None, lt_lithPc = None, lt_description = gi_description gi\<rparr>])"

definition mudlog_rows :: "mud_log list \<Rightarrow> LithologyRow list" where
  "mudlog_rows mls = concat (map (\<lambda>ml. concat (map interval_rows (ml_geology_intervals ml))) mls)"

fun wellbore_lithology :: "lxml \<Rightarrow> 's service \<Rightarrow> string \<Rightarrow> string list \<Rightarrow> LithologyRow list \<Rightarrow> (LithologyRow list, 's) act" where
  "wellbore_lithology lx svc well_uid [] rows = lift_res (Inr rows)"
| "wellbore_lithology lx svc well_uid (wb # wbs) rows =
     sbind (lift_res (mudlog_query lx well_uid wb None None None ''m'' ANY_PART)) (\<lambda>q s.
       case run_query svc q s of
         (None, s') \<Rightarrow> wellbore_lithology lx svc well_uid wbs rows s'
       | (Some xml, s') \<Rightarrow> (case parse_mudlogs lx xml of
             Inl e \<Rightarrow> wellbore_lithology lx svc well_uid wbs rows s'
           | Inr mudlogs \<Rightarrow> wellbore_lithology lx svc well_uid wbs (rows @ mudlog_rows mudlogs) s'))"

definition lithology_for_well :: "lxml \<Rightarrow> 's service \<Rightarrow> string \<Rightarrow> (LithologyRow list, 's) act" where
  "lithology_for_well lx svc well_uid = sbind (find_wellbore_uids lx svc well_uid) (\<lambda>uids.
     if uids = [] then lift_res (Inr []) else wellbore_lithology lx svc well_uid uids [])"

section \<open>The warm store\<close>

definition curves_for_well :: "(int \<Rightarrow> int) \<Rightarrow> RingBufferStore \<Rightarrow> string \<Rightarrow> string list \<Rightarrow> int \<Rightarrow> wire_curves res" where
  "curves_for_well local st well_uid mnemonics limit =
     rmap (\<lambda>(m, ss). rbind (rmap (sample_to_wire local) ss) (\<lambda>ws. Inr (m, ws)))
       (get_recent well_uid (if mnemonics = [] then None else Some mnemonics) None (Some limit) st)"

definition name_in_store :: "RingBufferStore \<Rightarrow> string \<Rightarrow> string option" where
  "name_in_store st well_uid = (case find_first (\<lambda>r. wst_well_uid r = well_uid) (well_status st) of
      None \<Rightarrow> None | Some r \<Rightarrow> wst_name r)"

section \<open>The endpoint\<close>

record ComparedWell =
  cw_wellUid :: string
  cw_name :: "string option"
  cw_curves :: wire_curves
  cw_lithology :: "LithologyRow list"

definition compared_well :: "lxml \<Rightarrow> (int \<Rightarrow> int) \<Rightarrow> 's service \<Rightarrow> (string \<Rightarrow> RingBufferStore) \<Rightarrow> (string \<Rightarrow> RingBufferStore)
    \<Rightarrow> string list \<Rightarrow> int \<Rightarrow> string \<Rightarrow> (ComparedWell, 's) act" where
  "compared_well lx local svc before after mnems limit uid = sbind (lift_res (curves_for_well local (before uid) uid mnems limit)) (\<lambda>curves s.
     let (lith, s') = lithology_for_well lx svc uid s in
     (Inr \<lparr>cw_wellUid = uid, cw_name = name_in_store (after uid) uid, cw_curves = curves,
           cw_lithology = (case lith of Inl e \<Rightarrow> [] | Inr rows \<Rightarrow> rows)\<rparr>, s'))"

fun compared_wells :: "lxml \<Rightarrow> (int \<Rightarrow> int) \<Rightarrow> 's service \<Rightarrow> (string \<Rightarrow> RingBufferStore) \<Rightarrow> (string \<Rightarrow> RingBufferStore)
    \<Rightarrow> string list \<Rightarrow> int \<Rightarrow> string list \<Rightarrow> (ComparedWell list, 's) act" where
  "compared_wells lx local svc before after mnems limit [] = lift_res (Inr [])"
| "compared_wells lx local svc before after mnems limit (uid # uids) =
     sbind (compared_well lx local svc before after mnems limit uid) (\<lambda>w.
     sbind (compared_wells lx local svc before after mnems limit uids) (\<lambda>ws. lift_res (Inr (w # ws))))"

definition compare :: "lxml \<Rightarrow> (int \<Rightarrow> int) \<Rightarrow> 's service \<Rightarrow> (string \<Rightarrow> RingBufferStore) \<Rightarrow> (string \<Rightarrow> RingBufferStore)
    \<Rightarrow> string \<Rightarrow> string option \<Rightarrow> int \<Rightarrow> (ComparedWell list, 's) act" where
  "compare lx local svc before after wells mnemonics limit =
     (let well_uids = split_csv (Some wells) in
      if well_uids = [] then lift_res (Inl (bad_request ''At least one well_uid is required.''))
      else if MAX_WELLS < length well_uids then
        lift_res (Inl (bad_request (''At most '' @ show_int (int MAX_WELLS) @ '' wells may be compared at once.'')))
      else compared_wells lx local svc before after (split_csv mnemonics) limit well_uids)"

section \<open>A comparison does not fail\<close>

text \<open>Samples that pydantic has validated: no index is a text.\<close>

definition validated :: "RingBufferStore \<Rightarrow> bool" where
  "validated st = list_all (\<lambda>(k, b). list_all (\<lambda>s. plain_index (cs_index s)) b) (rb_curves st)"

lemma split_csv_distinct: "distinct (split_csv raw)"
proof -
  have "distinct out \<Longrightarrow> distinct (fold csv_item ps out)" for ps out
    by (induction ps arbitrary: out) (auto simp: csv_item_def Let_def)
  then show ?thesis by (simp add: split_csv_def split: option.splits)
qed

lemma buffer_validated:
  assumes "validated st" "s \<in> set (buffer st w m)"
  shows "plain_index (cs_index s)"
proof -
  obtain b where "map_of (rb_curves st) (w, m) = Some b" "s \<in> set b"
    using assms(2) by (cases "map_of (rb_curves st) (w, m)") (simp_all add: buffer_def)
  with assms(1) show ?thesis unfolding validated_def list_all_iff by (fastforce dest: map_of_SomeD)
qed

lemma recent_validated:
  assumes "validated st"
  shows "(m, ss) \<in> set (get_recent w mnems None limit st) \<Longrightarrow> list_all (\<lambda>s. plain_index (cs_index s)) ss"
proof -
  have items: "list_all (\<lambda>s. plain_index (cs_index s)) (recent_items None limit (buffer st w x))" for x
  proof -
    have "set (recent_items None limit (buffer st w x)) \<subseteq> set (buffer st w x)"
      by (auto simp: recent_items_def Let_def tail_slice_def lastn_def dest: in_set_dropD split: option.splits if_splits)
    then show ?thesis using buffer_validated [OF assms, of _ w x] by (auto simp: list_all_iff)
  qed
  have "list_all (\<lambda>p. list_all (\<lambda>s. plain_index (cs_index s)) (snd p)) out \<Longrightarrow>
      list_all (\<lambda>p. list_all (\<lambda>s. plain_index (cs_index s)) (snd p)) (fold (\<lambda>m out. let b = buffer st w m in
           if b = [] then out else AList.update m (recent_items None limit b) out) ms out)" for ms out
  proof (induction ms arbitrary: out)
    case (Cons x ms)
    have "set (AList.update x v out) \<subseteq> insert (x, v) (set out)" for v by (induction out) auto
    moreover have "list_all (\<lambda>s. plain_index (cs_index s)) (recent_items None limit (buffer st w x))" by (rule items)
    ultimately have "list_all (\<lambda>p. list_all (\<lambda>s. plain_index (cs_index s)) (snd p)) (AList.update x (recent_items None limit (buffer st w x)) out)"
      using Cons.prems unfolding list_all_iff [of "\<lambda>p. list_all (\<lambda>s. plain_index (cs_index s)) (snd p)"] by (metis (no_types, lifting) insertE snd_conv subsetD)
    with Cons show ?case by (simp add: Let_def)
  qed simp
  from this [of "[]"] have "list_all (\<lambda>p. list_all (\<lambda>s. plain_index (cs_index s)) (snd p)) (get_recent w mnems None limit st)"
    by (simp add: get_recent_def Let_def)
  then show "(m, ss) \<in> set (get_recent w mnems None limit st) \<Longrightarrow> list_all (\<lambda>s. plain_index (cs_index s)) ss"
    by (metis (no_types, lifting) list_all_iff snd_conv)
qed

lemma wire_validated: "plain_index (cs_index s) \<Longrightarrow> \<exists>w. sample_to_wire local s = Inr w"
  by (cases "cs_index s") (auto simp: sample_to_wire_def wire_index_float_def plain_index_def)

lemma rmap_total: "list_all (\<lambda>x. \<exists>y. f x = Inr y) xs \<Longrightarrow> \<exists>ys. rmap f xs = Inr ys"
  by (induction xs) auto

lemma curves_validated: "validated st \<Longrightarrow> \<exists>c. curves_for_well local st w ms limit = Inr c"
proof -
  assume v: "validated st"
  have "\<exists>ws. rmap (sample_to_wire local) ss = Inr ws" if "(m, ss) \<in> set (get_recent w x None (Some limit) st)" for m ss x
    using rmap_total recent_validated [OF v that] wire_validated by (metis (mono_tags, lifting) list_all_iff)
  then show ?thesis unfolding curves_for_well_def
    by (intro rmap_total) (fastforce simp: list_all_iff)
qed

text \<open>What the endpoint answers for a well does not depend on the store but for the lithology.\<close>

lemma compared_well_outcome:
  assumes "validated (before uid)"
  shows "\<exists>w s'. compared_well lx local svc before after ms limit uid s = (Inr w, s') \<and> cw_wellUid w = uid \<and>
    cw_name w = name_in_store (after uid) uid \<and> curves_for_well local (before uid) uid ms limit = Inr (cw_curves w)"
proof -
  obtain c where "curves_for_well local (before uid) uid ms limit = Inr c" using curves_validated [OF assms] by blast
  then show ?thesis by (simp add: compared_well_def split_beta)
qed

lemma compared_wells_outcome:
  assumes "list_all (\<lambda>u. validated (before u)) uids"
  shows "\<exists>ws s'. compared_wells lx local svc before after ms limit uids s = (Inr ws, s') \<and>
    list_all2 (\<lambda>u w. cw_wellUid w = u \<and> cw_name w = name_in_store (after u) u \<and>
      curves_for_well local (before u) u ms limit = Inr (cw_curves w)) uids ws"
  using assms
proof (induction uids arbitrary: s)
  case (Cons u uids)
  then obtain w s1 where w: "compared_well lx local svc before after ms limit u s = (Inr w, s1)" "cw_wellUid w = u"
      "cw_name w = name_in_store (after u) u" "curves_for_well local (before u) u ms limit = Inr (cw_curves w)"
    using compared_well_outcome [of before u lx local svc after ms limit s] by auto
  from Cons.IH [of s1] Cons.prems obtain ws s2 where "compared_wells lx local svc before after ms limit uids s1 = (Inr ws, s2)"
      "list_all2 (\<lambda>u w. cw_wellUid w = u \<and> cw_name w = name_in_store (after u) u \<and>
        curves_for_well local (before u) u ms limit = Inr (cw_curves w)) uids ws" by auto
  with w show ?case by simp
qed simp

section \<open>Properties\<close>

text \<open>
  C27. A comparison never fails for one to four wells, whatever the WITSML store does: it answers one entry per
  distinct well in the requested order with the buffered curves and the name of that well; none or more than four
  wells are a 400 and ask the store nothing.
\<close>

theorem comparison_survives:
  assumes "\<forall>u. validated (before u)"
  shows "case compare lx local svc before after wells mnemonics limit s of
      (Inr out, s') \<Rightarrow> length out \<in> {1..4} \<and> distinct (map cw_wellUid out) \<and>
        list_all2 (\<lambda>u w. cw_wellUid w = u \<and> cw_name w = name_in_store (after u) u \<and>
          curves_for_well local (before u) u (split_csv mnemonics) limit = Inr (cw_curves w)) (split_csv (Some wells)) out
    | (Inl e, s') \<Rightarrow> (\<exists>d. e = HTTPException 400 d) \<and> s' = s \<and> length (split_csv (Some wells)) \<notin> {1..4}"
proof -
  let ?u = "split_csv (Some wells)" and ?m = "split_csv mnemonics"
  have v: "list_all (\<lambda>u. validated (before u)) ?u" using assms by (simp add: list_all_iff)
  obtain ws s' where ws: "compared_wells lx local svc before after ?m limit ?u s = (Inr ws, s')"
      "list_all2 (\<lambda>u w. cw_wellUid w = u \<and> cw_name w = name_in_store (after u) u \<and>
        curves_for_well local (before u) u ?m limit = Inr (cw_curves w)) ?u ws"
    using compared_wells_outcome [where before = before and after = after and lx = lx and local = local and svc = svc and ms = ?m and limit = limit and s = s, OF v] by blast
  have "map cw_wellUid ws = ?u" using ws(2) by (induction rule: list_all2_induct) auto
  then have d: "distinct (map cw_wellUid ws)" "length ws = length ?u" using split_csv_distinct [of "Some wells"] by (simp, metis length_map)
  consider "?u = []" | "?u \<noteq> []" "MAX_WELLS < length ?u" | "?u \<noteq> []" "length ?u \<le> MAX_WELLS" using not_less by blast
  then show ?thesis
  proof cases
    case 1
    then show ?thesis by (simp add: compare_def bad_request_def)
  next
    case 2
    then have "\<exists>d. compare lx local svc before after wells mnemonics limit s = (Inl (HTTPException 400 d), s)"
      by (simp add: compare_def bad_request_def)
    moreover have "length ?u \<notin> {1..4}" using 2(2) by (simp add: MAX_WELLS_def)
    ultimately show ?thesis by auto
  next
    case 3
    then have "compare lx local svc before after wells mnemonics limit s = (Inr ws, s')" using ws(1) by (simp add: compare_def)
    moreover have "length ws \<in> {1..4}" using 3 d(2) by (cases ?u) (simp_all add: MAX_WELLS_def)
    ultimately show ?thesis using ws(2) d(1) by simp
  qed
qed

text \<open>A store that is down: both wells are answered with what is buffered.\<close>

definition down :: "unit service" where
  "down = \<lparr>svc_get_version = Pair (Inl TransportError), svc_get_cap = (\<lambda>opts. Pair (Inl TransportError)),
     svc_get_from_store = (\<lambda>ty q opts cap. Pair (Inl TransportError)), svc_add_to_store = (\<lambda>ty x opts. Pair (Inl TransportError)),
     svc_update_in_store = (\<lambda>ty x opts. Pair (Inl TransportError)), svc_delete_from_store = (\<lambda>ty x opts. Pair (Inl TransportError)),
     svc_get_base_msg = (\<lambda>code. Pair (Inl TransportError)), svc_str = (\<lambda>r. [])\<rparr>"

theorem comparison_survives_witness:
  "\<exists>out. compare ref_lxml (\<lambda>t. t) down (\<lambda>u. new_ring_store 5) (\<lambda>u. new_ring_store 5) ''A,B,A'' None 10 () = (Inr out, ()) \<and>
     map cw_wellUid out = [''A'', ''B'']"
proof -
  have u: "split_csv (Some ''A,B,A'') = [''A'', ''B'']" by code_simp
  have v: "\<forall>u :: string. validated (new_ring_store 5)" by (simp add: validated_def new_ring_store_def)
  show ?thesis
    using comparison_survives [OF v, where lx = ref_lxml and local = "\<lambda>t. t" and svc = down and after = "\<lambda>u. new_ring_store 5"
      and wells = "''A,B,A''" and mnemonics = None and limit = 10 and s = "()"]
    unfolding u by (auto simp: list_all2_Cons1 split: prod.splits sum.splits)
qed

end
