(* ===== verification/PyFormat.thy ===== *)
theory PyFormat
  imports PyTime
begin

text \<open>The formats \<^verbatim>\<open>.3f\<close> and \<^verbatim>\<open>.4g\<close> of a float: the digits are those of the exact value, rounded half to even.\<close>

text \<open>A natural number of units of \<open>10 ^ - k\<close>, without trailing zeros and without a trailing point.\<close>

definition fixed_text :: "nat \<Rightarrow> int \<Rightarrow> string" where
  "fixed_text k m = (let s = pad (k + 1) m; i = take (length s - k) s; f = strip_zeros (drop (length s - k) s) in
     if f = [] then i else i @ ''.'' @ f)"

definition sign_of :: "rat \<Rightarrow> string" where
  "sign_of q = (if q < 0 then ''-'' else [])"

text \<open>\<^verbatim>\<open>f"{x:.3f}".rstrip("0").rstrip(".")\<close>.\<close>

definition format_3f :: "pyfloat \<Rightarrow> string" where
  "format_3f x = (case x of Fin q \<Rightarrow> sign_of q @ fixed_text 3 (rhe (\<bar>q\<bar> * 1000)) | PInf \<Rightarrow> ''inf'' | NInf \<Rightarrow> ''-inf'' | NaN \<Rightarrow> ''nan'')"

text \<open>Four significant digits and the exponent of the first.\<close>

definition four_digits :: "rat \<Rightarrow> int \<times> int" where
  "four_digits a = (let e = floor_log10 a; m = rhe (a / 10 powi (e - 3)) in if m = 10000 then (1000, e + 1) else (m, e))"

text \<open>\<^verbatim>\<open>f"{x:.4g}"\<close>.\<close>

definition format_4g :: "pyfloat \<Rightarrow> string" where
  "format_4g x = (case x of
      PInf \<Rightarrow> ''inf'' | NInf \<Rightarrow> ''-inf'' | NaN \<Rightarrow> ''nan''
    | Fin q \<Rightarrow> if q = 0 then ''0''
        else (let (m, e) = four_digits \<bar>q\<bar> in
          sign_of q @ (if - 4 \<le> e \<and> e < 4 then fixed_text (nat (3 - e)) m
            else fixed_text 3 m @ ''e'' @ (if e < 0 then ''-'' else ''+'') @ pad 2 \<bar>e\<bar>)))"

end
