(* ===== verification/Export.thy ===== *)
theory Export
  imports CurvesApi Compare PyFormat
begin

text \<open>
  The exports: gathering the samples of a well from the warm store and the history (\<^verbatim>\<open>backend/app/api/export.py\<close>),
  pivoting them into the rows of a sheet (\<^verbatim>\<open>export/excel.py\<close>) and drawing them as tracks (\<^verbatim>\<open>export/pdf.py\<close>).
  openpyxl and reportlab are functions that take a sheet or a list of drawing operations to a file. A read of the
  history that fails is a table that is absent. Sorting a list that contains a NaN, which Python leaves to the order of the
  comparisons, puts it first.
\<close>

section \<open>Gathering\<close>

definition is_safe_char :: "char \<Rightarrow> bool" where
  "is_safe_char c = (let n = code_of c :: nat in (65 \<le> n \<and> n \<le> 90) \<or> (97 \<le> n \<and> n \<le> 122) \<or> is_digit c \<or> c \<in> {CHR ''.'', CHR ''_'', CHR ''-''})"

text \<open>\<^verbatim>\<open>re.sub("[^A-Za-z0-9._-]+", "_", s)\<close>.\<close>

fun sub_unsafe :: "bool \<Rightarrow> string \<Rightarrow> string" where
  "sub_unsafe in_run [] = []"
| "sub_unsafe in_run (c # cs) = (if is_safe_char c then c # sub_unsafe False cs
     else if in_run then sub_unsafe True cs else CHR ''_'' # sub_unsafe True cs)"

definition strip_char :: "char \<Rightarrow> string \<Rightarrow> string" where
  "strip_char c s = rev (dropWhile (\<lambda>x. x = c) (rev (dropWhile (\<lambda>x. x = c) s)))"

definition safe_filename :: "string \<Rightarrow> string \<Rightarrow> string" where
  "safe_filename stem ext = or_str (Some (strip_char (CHR ''_'') (sub_unsafe False stem))) ''export'' @ ''.'' @ ext"

definition row_to_sample :: "database \<Rightarrow> CurveSampleRow \<Rightarrow> curve_sample" where
  "row_to_sample db r = \<lparr>cs_mnemonic = cr_mnemonic r,
     cs_index = (case cr_index_dt r of Some d \<Rightarrow> VDt (db_load_dt db d)
       | None \<Rightarrow> VFloat (case cr_index_float r of Some x \<Rightarrow> x | None \<Rightarrow> Fin 0)),
     cs_value = cr_value r, cs_text = cr_text r, cs_uom = cr_uom r\<rparr>"

definition history_samples :: "database \<Rightarrow> CurveSampleRow list option \<Rightarrow> string \<Rightarrow> string list \<Rightarrow> nat \<Rightarrow> (string \<times> curve_sample list) list" where
  "history_samples db table well_uid mnemonics limit = (case table of
      None \<Rightarrow> []
    | Some rows \<Rightarrow> fold (\<lambda>r d. alist_push (cr_mnemonic r) (row_to_sample db r) d)
        (take limit (db_order db (filter (\<lambda>r. cr_well_uid r = well_uid \<and> (mnemonics = [] \<or> cr_mnemonic r \<in> set mnemonics)) rows))) [])"

text \<open>The number an index is compared by. A validated sample has no text as index.\<close>

definition index_ts :: "(int \<Rightarrow> int) \<Rightarrow> pyval \<Rightarrow> pyfloat" where
  "index_ts local v = (case v of VDt d \<Rightarrow> timestamp local d | VFloat x \<Rightarrow> x | VStr s \<Rightarrow> NaN)"

text \<open>A sample whose number was seen already is skipped; a NaN is never seen.\<close>

definition take_unseen :: "(int \<Rightarrow> int) \<Rightarrow> curve_sample \<Rightarrow> pyfloat list \<times> curve_sample list \<Rightarrow> pyfloat list \<times> curve_sample list" where
  "take_unseen local s p = (let ts = index_ts local (cs_index s) in
     if list_ex (fl_eq ts) (fst p) then p else (ts # fst p, snd p @ [s]))"

definition merge_curve :: "(int \<Rightarrow> int) \<Rightarrow> nat \<Rightarrow> curve_sample list \<Rightarrow> curve_sample list" where
  "merge_curve local limit ss =
     (let combined = sort_key (\<lambda>s. index_ts local (cs_index s)) (snd (fold (take_unseen local) ss ([], [])))
      in if limit < length combined then lastn limit combined else combined)"

definition samples_of :: "(string \<times> curve_sample list) list \<Rightarrow> string \<Rightarrow> curve_sample list" where
  "samples_of d m = (case map_of d m of Some ss \<Rightarrow> ss | None \<Rightarrow> [])"

text \<open>The order of a set of texts is not determined: \<open>arrange\<close> is the order it happens to have.\<close>

definition gather_curves :: "(int \<Rightarrow> int) \<Rightarrow> (string set \<Rightarrow> string list) \<Rightarrow> database \<Rightarrow> CurveSampleRow list option \<Rightarrow> RingBufferStore
    \<Rightarrow> string \<Rightarrow> string list \<Rightarrow> nat \<Rightarrow> (string \<times> curve_sample list) list" where
  "gather_curves local arrange db table st well_uid mnemonics limit =
     (let warm = get_recent well_uid (if mnemonics = [] then None else Some mnemonics) None (Some (int limit)) st;
          history = history_samples db table well_uid mnemonics limit
      in map (\<lambda>m. (m, merge_curve local limit (samples_of warm m @ samples_of history m)))
           (arrange (set (map fst warm) \<union> set (map fst history))))"

definition ordered_mnemonics :: "string list \<Rightarrow> (string \<times> curve_sample list) list \<Rightarrow> string list" where
  "ordered_mnemonics requested curves = (if requested \<noteq> []
     then (case filter (\<lambda>m. m \<in> set (map fst curves)) requested of [] \<Rightarrow> map fst curves | ms \<Rightarrow> ms)
     else sort (map fst curves))"

section \<open>The sheet\<close>

text \<open>Datetimes lose their time zone.\<close>

definition index_to_cell :: "pyval \<Rightarrow> pyval res" where
  "index_to_cell v = (case v of VDt d \<Rightarrow> Inr (VDt (DT False (dt_us d))) | VFloat x \<Rightarrow> Inr (VFloat x)
    | VStr s \<Rightarrow> (case float_of_string s of Some x \<Rightarrow> Inr (VFloat x) | None \<Rightarrow> Inl ValueError))"

type_synonym sheet_cells = "(string \<times> pyval option) list"

definition cell_of :: "curve_sample \<Rightarrow> pyval option" where
  "cell_of s = (case cs_value s of Some x \<Rightarrow> Some (VFloat x) | None \<Rightarrow> map_option VStr (cs_text s))"

definition pivot_sample :: "string \<Rightarrow> curve_sample \<Rightarrow> (pyval \<times> sheet_cells) list \<Rightarrow> (pyval \<times> sheet_cells) list" where
  "pivot_sample mnem s by_index =
     (let cell = (case dget (cs_index s) by_index of None \<Rightarrow> [] | Some c \<Rightarrow> c)
      in dput (cs_index s) (AList.update mnem (cell_of s) cell) by_index)"

definition present_mnemonics :: "(string \<times> curve_sample list) list \<Rightarrow> string list \<Rightarrow> string list" where
  "present_mnemonics curves mnemonics = (case filter (\<lambda>m. samples_of curves m \<noteq> []) mnemonics of
      [] \<Rightarrow> map fst (filter (\<lambda>p. snd p \<noteq> []) curves) | ms \<Rightarrow> ms)"

definition unit_of :: "curve_sample list \<Rightarrow> string option" where
  "unit_of ss = (case find_first (\<lambda>s. or_none (cs_uom s) \<noteq> None) ss of None \<Rightarrow> None | Some s \<Rightarrow> cs_uom s)"

text \<open>Columns, rows in the order of their indices, and units. The cells of a row are set after its index.\<close>

definition assemble_rows :: "(int \<Rightarrow> int) \<Rightarrow> (string \<times> curve_sample list) list \<Rightarrow> string list \<Rightarrow> string
    \<Rightarrow> string list \<times> sheet_cells list \<times> (string \<times> string option) list" where
  "assemble_rows local curves mnemonics index_label =
     (let present = present_mnemonics curves mnemonics;
          units = fold (\<lambda>m d. if map_of d m = None then AList.update m (unit_of (samples_of curves m)) d else d) present [];
          by_index = fold (\<lambda>m. fold (pivot_sample m) (samples_of curves m)) present [];
          rows = map (\<lambda>(ix, cells). fold (\<lambda>(m, c). AList.update m c) cells [(index_label, Some ix)])
            (sort_key (\<lambda>(ix, cells). index_ts local ix) by_index)
      in (index_label # present, rows, units))"

record sheet =
  sh_title :: string
  sh_header :: "string list"
  sh_rows :: "pyval option list list"
  sh_date_index :: bool
  sh_widths :: "nat list"
  sh_freeze_panes :: string

definition sheet_row :: "string list \<Rightarrow> string \<Rightarrow> sheet_cells \<Rightarrow> pyval option list res" where
  "sheet_row columns index_label r = rmap (\<lambda>col. case (case map_of r col of Some v \<Rightarrow> v | None \<Rightarrow> None) of
      None \<Rightarrow> Inr None
    | Some v \<Rightarrow> if col = index_label then rbind (index_to_cell v) (\<lambda>x. Inr (Some x)) else Inr (Some v)) columns"

definition header_cell :: "string \<Rightarrow> (string \<times> string option) list \<Rightarrow> string \<Rightarrow> string" where
  "header_cell index_label units col = (if col = index_label then index_label
     else case (case map_of units col of Some u \<Rightarrow> or_none u | None \<Rightarrow> None) of
         None \<Rightarrow> col | Some uom \<Rightarrow> col @ '' ('' @ uom @ '')'')"

definition is_datetime_at :: "string \<Rightarrow> sheet_cells \<Rightarrow> bool" where
  "is_datetime_at col r = (case map_of r col of Some (Some (VDt d)) \<Rightarrow> True | _ \<Rightarrow> False)"

definition build_curves_xlsx :: "(sheet \<Rightarrow> 'f res) \<Rightarrow> string \<Rightarrow> string list \<Rightarrow> sheet_cells list \<Rightarrow> string \<Rightarrow> (string \<times> string option) list \<Rightarrow> 'f res" where
  "build_curves_xlsx workbook well_uid columns rows index_label units =
     rbind (rmap (sheet_row columns index_label) rows) (\<lambda>out.
       workbook \<lparr>sh_title = or_str (Some (take 31 (or_str (Some well_uid) ''curves''))) ''curves'',
         sh_header = map (header_cell index_label units) columns, sh_rows = out,
         sh_date_index = list_ex (is_datetime_at index_label) rows,
         sh_widths = map (\<lambda>i. if i = 0 then 22 else 16) [0..<length columns], sh_freeze_panes = ''A2''\<rparr>)"

section \<open>The tracks\<close>

datatype draw =
    SetFill string | SetStroke string | SetFont string nat | SetLineWidth pyfloat
  | Rect pyfloat pyfloat pyfloat pyfloat bool bool
  | DrawString pyfloat pyfloat string
  | Circle pyfloat pyfloat pyfloat
  | DrawPath "(pyfloat \<times> pyfloat) list"
  | ShowPage

definition WELL_COLORS :: "string list" where
  "WELL_COLORS = [''#1f77b4'', ''#d62728'', ''#2ca02c'', ''#9467bd'']"
definition AXIS :: string where "AXIS = ''#888888''"
definition TEXT :: string where "TEXT = ''#222222''"

text \<open>reportlab's millimetre and page size.\<close>

record page_size =
  ps_mm :: pyfloat
  ps_width :: pyfloat
  ps_height :: pyfloat

record well_bundle =
  bu_wellUid :: "string option"
  bu_name :: "string option"
  bu_curves :: wire_curves

definition collect_mnemonics :: "well_bundle list \<Rightarrow> string list" where
  "collect_mnemonics wells = fold (\<lambda>w out. fold (\<lambda>(m, ss) out. if m \<in> set out then out else out @ [m]) (bu_curves w) out) wells []"

definition points :: "wire_sample list \<Rightarrow> (pyfloat \<times> pyfloat) list" where
  "points ss = sort_key fst (concat (map (\<lambda>s. case wi_v s of None \<Rightarrow> [] | Some v \<Rightarrow> [(wi_i s, v)]) ss))"

text \<open>A quotient whose divisor is not zero.\<close>

definition fl_quot :: "pyfloat \<Rightarrow> pyfloat \<Rightarrow> pyfloat" where
  "fl_quot a b = (case fl_div a b of Inr x \<Rightarrow> x | Inl e \<Rightarrow> NaN)"

definition least :: "pyfloat list \<Rightarrow> pyfloat" where
  "least xs = fold (\<lambda>x m. if fl_lt x m then x else m) (tl xs) (hd xs)"

definition greatest :: "pyfloat list \<Rightarrow> pyfloat" where
  "greatest xs = fold (\<lambda>x m. if fl_lt m x then x else m) (tl xs) (hd xs)"

definition value_span :: "pyfloat list \<Rightarrow> pyfloat" where
  "value_span xs = (let d = fl_sub (greatest xs) (least xs) in if d = Fin 0 then Fin 1 else d)"

definition mms :: "page_size \<Rightarrow> rat \<Rightarrow> pyfloat" where
  "mms pg n = fl_mul (fround n) (ps_mm pg)"

record draw_meta =
  dm_generatedAt :: "string option"
  dm_indexType :: "string option"
  dm_wellCount :: "int option"

text \<open>The time of generation is printed when no other is given.\<close>

definition minute_stamp :: "int \<Rightarrow> string" where
  "minute_stamp us = (let secs = us div 1000000; sod = secs mod 86400; (y, m, d) = ord2ymd (secs div 86400 + epoch_ord) in
     show_int y @ ''-'' @ pad 2 m @ ''-'' @ pad 2 d @ '' '' @ pad 2 (sod div 3600) @ '':'' @ pad 2 (sod div 60 mod 60) @ '' UTC'')"

definition draw_header :: "page_size \<Rightarrow> int \<Rightarrow> string \<Rightarrow> draw_meta \<Rightarrow> pyfloat \<Rightarrow> draw list \<times> pyfloat" where
  "draw_header pg now title meta upper =
     (let bits = [''generated '' @ or_str (dm_generatedAt meta) (minute_stamp now)] @
            (case or_none (dm_indexType meta) of None \<Rightarrow> [] | Some t \<Rightarrow> [''index: '' @ t]) @
            (case dm_wellCount meta of None \<Rightarrow> [] | Some n \<Rightarrow> [''wells: '' @ show_int n])
      in ([SetFill TEXT, SetFont ''Helvetica-Bold'' 16, DrawString (mms pg 18) upper (or_str (Some title) ''Curve Tracks''),
           SetFont ''Helvetica'' 9, SetFill AXIS, DrawString (mms pg 18) (fl_sub upper (mms pg 6)) (join ''   '' bits)],
          fl_sub upper (mms pg 14)))"

definition draw_series :: "(pyfloat \<Rightarrow> pyfloat) \<Rightarrow> (pyfloat \<Rightarrow> pyfloat) \<Rightarrow> string \<times> (pyfloat \<times> pyfloat) list \<Rightarrow> draw list" where
  "draw_series sx sy p = (case snd p of
      [] \<Rightarrow> []
    | [(i, v)] \<Rightarrow> [SetStroke (fst p), SetLineWidth (fround (8 / 10)), Circle (sx i) (sy v) (fround (6 / 10))]
    | ps \<Rightarrow> [SetStroke (fst p), SetLineWidth (fround (8 / 10)), DrawPath (map (\<lambda>(i, v). (sx i, sy v)) ps)])"

definition draw_track :: "page_size \<Rightarrow> string \<Rightarrow> (string \<times> (pyfloat \<times> pyfloat) list) list \<Rightarrow> pyfloat \<Rightarrow> pyfloat \<Rightarrow> pyfloat \<Rightarrow> pyfloat \<Rightarrow> draw list" where
  "draw_track pg mnemonic series x y w h =
     (let frame = [SetStroke AXIS, SetLineWidth (fround (5 / 10)), Rect x y w h True False,
            SetFill TEXT, SetFont ''Helvetica-Bold'' 9,
            DrawString (fl_add x (mms pg 2)) (fl_sub (fl_add y h) (mms pg 4)) mnemonic];
          all_pts = concat (map snd series)
      in if all_pts = [] then frame @ [SetFill AXIS, SetFont ''Helvetica-Oblique'' 8,
             DrawString (fl_add x (mms pg 2)) (fl_add y (fl_quot h (Fin 2))) ''no data'']
         else (let xs = map fst all_pts; vs = map snd all_pts;
                   plot_x = fl_add x (mms pg 14); plot_w = fl_sub (fl_sub w (mms pg 14)) (mms pg 2);
                   plot_y = fl_add y (mms pg 2); plot_h = fl_sub h (mms pg 6);
                   sx = (\<lambda>ix. fl_add plot_x (fl_mul (fl_quot (fl_sub ix (least xs)) (value_span xs)) plot_w));
                   sy = (\<lambda>v. fl_add plot_y (fl_mul (fl_quot (fl_sub v (least vs)) (value_span vs)) plot_h))
               in frame @ [SetFill AXIS, SetFont ''Helvetica'' 6,
                    DrawString (fl_add x (mms pg (15 / 10))) (fl_sub (fl_add plot_y plot_h) (mms pg 2)) (format_4g (greatest vs)),
                    DrawString (fl_add x (mms pg (15 / 10))) plot_y (format_4g (least vs))]
                  @ concat (map (draw_series sx sy) series)))"

definition bundle_uid :: "nat \<times> well_bundle \<Rightarrow> string" where
  "bundle_uid p = or_str (bu_wellUid (snd p)) (or_str (bu_name (snd p)) (''well'' @ show_int (int (fst p))))"

definition well_colors :: "well_bundle list \<Rightarrow> (string \<times> string) list" where
  "well_colors wells = fold (\<lambda>p. AList.update (bundle_uid p) (WELL_COLORS ! (fst p mod length WELL_COLORS))) (enumerate 0 wells) []"

definition color_of :: "well_bundle list \<Rightarrow> nat \<times> well_bundle \<Rightarrow> string" where
  "color_of wells p = (case map_of (well_colors wells) (bundle_uid p) of Some c \<Rightarrow> c | None \<Rightarrow> [])"

text \<open>The legend, from left to right.\<close>

fun draw_legend :: "page_size \<Rightarrow> well_bundle list \<Rightarrow> pyfloat \<Rightarrow> pyfloat \<Rightarrow> (nat \<times> well_bundle) list \<Rightarrow> draw list" where
  "draw_legend pg wells upper lx [] = []"
| "draw_legend pg wells upper lx (p # ps) =
     [SetFill (color_of wells p), Rect lx (fl_sub upper (mms pg 2)) (mms pg 4) (mms pg 3) False True, SetFill TEXT,
      DrawString (fl_add lx (mms pg 5)) (fl_sub upper (mms pg 2)) (take 28 (or_str (bu_name (snd p)) (bundle_uid p)))]
     @ draw_legend pg wells upper (fl_add lx (fl_add (mms pg 5) (mms pg 40))) ps"

definition track_series :: "well_bundle list \<Rightarrow> string \<Rightarrow> (string \<times> (pyfloat \<times> pyfloat) list) list" where
  "track_series wells mnem = concat (map (\<lambda>p.
     let pts = points (case map_of (bu_curves (snd p)) mnem of Some ss \<Rightarrow> ss | None \<Rightarrow> [])
     in if pts = [] then [] else [(color_of wells p, pts)]) (enumerate 0 wells))"

text \<open>The tracks from top to bottom; one that would start below the margin starts a page.\<close>

fun draw_tracks :: "page_size \<Rightarrow> well_bundle list \<Rightarrow> pyfloat \<Rightarrow> string list \<Rightarrow> draw list" where
  "draw_tracks pg wells y [] = []"
| "draw_tracks pg wells y (m # ms) =
     (let margin = mms pg 15; track_h = mms pg 40; w = fl_sub (ps_width pg) (fl_mul (Fin 2) margin);
          new = fl_lt y margin; y' = (if new then fl_sub (fl_sub (ps_height pg) margin) track_h else y)
      in (if new then [ShowPage] else []) @ draw_track pg m (track_series wells m) margin y' w track_h
         @ draw_tracks pg wells (fl_sub y' (fl_add track_h (mms pg 6))) ms)"

definition build_tracks_pdf :: "page_size \<Rightarrow> (draw list \<Rightarrow> 'f res) \<Rightarrow> int \<Rightarrow> string \<Rightarrow> well_bundle list \<Rightarrow> draw_meta \<Rightarrow> 'f res" where
  "build_tracks_pdf pg canvas now title wells meta =
     (let meta' = meta\<lparr>dm_wellCount := (case dm_wellCount meta of None \<Rightarrow> Some (int (length wells)) | n \<Rightarrow> n)\<rparr>;
          margin = mms pg 15; mnemonics = collect_mnemonics wells;
          (header, upper) = draw_header pg now title meta' (fl_sub (ps_height pg) margin);
          legend = (if 1 < length wells then [SetFont ''Helvetica'' 8] @ draw_legend pg wells upper (mms pg 18) (enumerate 0 wells) else []);
          upper' = (if 1 < length wells then fl_sub upper (mms pg 8) else upper);
          y = fl_sub upper' (mms pg 40)
      in canvas (header @ legend @
           (if mnemonics = [] then [SetFill AXIS, SetFont ''Helvetica-Oblique'' 11, DrawString margin y ''No curve data to plot.''] else []) @
           draw_tracks pg wells y mnemonics @ [ShowPage]))"

section \<open>The endpoints\<close>

definition export_xlsx :: "(int \<Rightarrow> int) \<Rightarrow> (string set \<Rightarrow> string list) \<Rightarrow> database \<Rightarrow> (sheet \<Rightarrow> 'f res) \<Rightarrow> CurveSampleRow list option
    \<Rightarrow> RingBufferStore \<Rightarrow> string \<Rightarrow> string list \<Rightarrow> string \<Rightarrow> nat \<Rightarrow> ('f \<times> string) res" where
  "export_xlsx local arrange db workbook table st well_uid mnemonics index_type limit =
     (let curves = gather_curves local arrange db table st well_uid mnemonics limit;
          mnems = ordered_mnemonics mnemonics curves;
          index_label = (if index_type = ''depth'' then ''Depth'' else ''Time'');
          (columns, rows, units) = assemble_rows local curves mnems index_label
      in rbind (build_curves_xlsx workbook well_uid columns rows index_label units) (\<lambda>data.
           Inr (data, safe_filename (well_uid @ ''_curves'') ''xlsx'')))"

text \<open>The dash of the default title has no code below 256 and is a parameter.\<close>

definition export_pdf :: "(int \<Rightarrow> int) \<Rightarrow> (string set \<Rightarrow> string list) \<Rightarrow> database \<Rightarrow> page_size \<Rightarrow> (draw list \<Rightarrow> 'f res) \<Rightarrow> int \<Rightarrow> string
    \<Rightarrow> CurveSampleRow list option \<Rightarrow> RingBufferStore \<Rightarrow> string \<Rightarrow> string list \<Rightarrow> string option \<Rightarrow> string \<Rightarrow> nat \<Rightarrow> ('f \<times> string) res" where
  "export_pdf local arrange db pg canvas now dash table st well_uid mnemonics title index_type limit =
     (let curves = gather_curves local arrange db table st well_uid mnemonics limit;
          mnems = ordered_mnemonics mnemonics curves
      in rbind (rmap (\<lambda>m. rbind (rmap (sample_to_wire local) (samples_of curves m)) (\<lambda>ws. Inr (m, ws))) mnems) (\<lambda>wire.
           let nm = name_in_store st well_uid in
           rbind (build_tracks_pdf pg canvas now (or_str title (''Curve Tracks '' @ dash @ '' '' @ or_str nm well_uid))
               [\<lparr>bu_wellUid = Some well_uid, bu_name = nm, bu_curves = fold (\<lambda>(m, ws). AList.update m ws) wire []\<rparr>]
               \<lparr>dm_generatedAt = Some (minute_stamp now), dm_indexType = Some index_type, dm_wellCount = None\<rparr>) (\<lambda>data.
             Inr (data, safe_filename (well_uid @ ''_tracks'') ''pdf''))))"

section \<open>What is exported\<close>

abbreviation ts_of :: "(int \<Rightarrow> int) \<Rightarrow> curve_sample \<Rightarrow> pyfloat" where
  "ts_of local s \<equiv> index_ts local (cs_index s)"

text \<open>Skipping what was seen keeps the first sample of every number.\<close>

lemma take_unseen_all:
  assumes "\<forall>s \<in> set ss. ts_of local s \<noteq> NaN"
  shows "set (fst (fold (take_unseen local) ss ([], []))) = ts_of local ` set ss \<and>
    ts_of local ` set (snd (fold (take_unseen local) ss ([], []))) = ts_of local ` set ss \<and>
    distinct (map (ts_of local) (snd (fold (take_unseen local) ss ([], [])))) \<and>
    (\<forall>s \<in> set (snd (fold (take_unseen local) ss ([], []))). find_first (\<lambda>x. ts_of local x = ts_of local s) ss = Some s)"
  using assms
proof (induction ss rule: rev_induct)
  case (snoc x ss)
  let ?p = "fold (take_unseen local) ss ([], [])"
  have ff: "find_first P (xs @ ys) = (case find_first P xs of None \<Rightarrow> find_first P ys | r \<Rightarrow> r)" for P :: "curve_sample \<Rightarrow> bool" and xs ys
    by (induction xs) auto
  have none: "find_first P xs = None \<longleftrightarrow> (\<forall>y \<in> set xs. \<not> P y)" for P :: "curve_sample \<Rightarrow> bool" and xs by (induction xs) auto
  have seen: "list_ex (fl_eq (ts_of local x)) (fst ?p) \<longleftrightarrow> ts_of local x \<in> ts_of local ` set ss"
    using snoc by (auto simp: list_ex_iff fl_eq_def)
  show ?case
  proof (cases "ts_of local x \<in> ts_of local ` set ss")
    case True
    then have "fold (take_unseen local) (ss @ [x]) ([], []) = ?p" using seen by (simp add: take_unseen_def Let_def)
    then show ?thesis using snoc True by (auto simp: ff)
  next
    case False
    then have "fold (take_unseen local) (ss @ [x]) ([], []) = (ts_of local x # fst ?p, snd ?p @ [x])"
      using seen by (simp add: take_unseen_def Let_def)
    moreover have "find_first (\<lambda>y. ts_of local y = ts_of local x) ss = None" using False unfolding none by (metis imageI)
    ultimately show ?thesis using snoc False by (auto simp: ff)
  qed
qed simp

lemma lastn_cut: "set (lastn n xs) \<subseteq> set xs" "length (lastn n xs) = min n (length xs)"
  by (auto simp: lastn_def dest: in_set_dropD)

lemma merge_curve_newest:
  fixes local ss limit
  assumes "\<forall>s \<in> set ss. ts_of local s \<noteq> NaN"
  defines "cur \<equiv> merge_curve local limit ss"
  shows "sorted (map (ts_of local) cur) \<and> distinct (map (ts_of local) cur) \<and> length cur \<le> limit \<and>
    (\<forall>s \<in> set cur. find_first (\<lambda>x. ts_of local x = ts_of local s) ss = Some s) \<and>
    (\<forall>x \<in> set ss. ts_of local x \<in> ts_of local ` set cur \<or> (length cur = limit \<and> (\<forall>s \<in> set cur. ts_of local x < ts_of local s)))"
proof -
  let ?u = "snd (fold (take_unseen local) ss ([], []))"
  define c where "c = sort_key (ts_of local) ?u"
  note u = take_unseen_all [OF assms(1)]
  have c: "set c = set ?u" "sorted (map (ts_of local) c)" "distinct (map (ts_of local) c)"
    using u by (simp_all add: c_def distinct_map)
  have cur: "cur = (if limit < length c then lastn limit c else c)" unfolding cur_def merge_curve_def c_def Let_def ..
  obtain d where d: "c = d @ cur" "d = [] \<or> length cur = limit"
  proof (cases "limit < length c")
    case True
    then have "c = take (length c - limit) c @ cur" "length cur = limit" using cur by (simp_all add: lastn_def)
    then show ?thesis using that by blast
  qed (use cur that [of "[]"] in auto)
  have s: "sorted (map (ts_of local) cur)" "distinct (map (ts_of local) cur)"
      "\<forall>x \<in> set d. \<forall>s \<in> set cur. ts_of local x < ts_of local s"
    using c(2,3) unfolding d(1) by (auto simp: sorted_append less_le)
  have "\<forall>x \<in> set ss. ts_of local x \<in> ts_of local ` set c" using u c(1) by auto
  then have rest: "\<forall>x \<in> set ss. ts_of local x \<in> ts_of local ` set cur \<or> (length cur = limit \<and> (\<forall>s \<in> set cur. ts_of local x < ts_of local s))"
    using s(3) d unfolding d(1) by (auto simp: image_iff)
  have len: "length cur \<le> limit" using cur by (auto simp: lastn_cut)
  have "set cur \<subseteq> set ?u" using c(1) d(1) by auto
  then have first: "\<forall>s \<in> set cur. find_first (\<lambda>x. ts_of local x = ts_of local s) ss = Some s"
    using u [THEN conjunct2, THEN conjunct2, THEN conjunct2] by (meson subsetD)
  show ?thesis by (intro conjI s(1,2) len first rest)
qed

section \<open>Properties\<close>


text \<open>One curve in both stores: the warm value at depth 100 wins over the persisted one.\<close>

definition saved_row :: "rat \<Rightarrow> rat \<Rightarrow> CurveSampleRow" where
  "saved_row i v = \<lparr>cr_server_id = 1, cr_well_uid = ''W'', cr_wellbore_uid = ''B'', cr_log_uid = ''L'', cr_mnemonic = ''ROP'',
     cr_index_float = Some (Fin i), cr_index_dt = None, cr_value = Some (Fin v), cr_text = None, cr_uom = None\<rparr>"

definition ex_export_db :: database where
  "ex_export_db = \<lparr>db_float_ge = (\<lambda>x y. fl_le y x), db_dt_ge = (\<lambda>d d'. dt_us d' \<le> dt_us d), db_order = (\<lambda>rs. rs), db_load_dt = (\<lambda>d. d)\<rparr>"

definition ex_gathered :: "(string \<times> curve_sample list) list" where
  "ex_gathered = gather_curves (\<lambda>t. t) (\<lambda>K. sorted_list_of_set K) ex_export_db (Some [saved_row 99 1, saved_row 100 2]) ex_curves ''W'' [''ROP''] 10"


text \<open>A curve that is named like the index column takes its place: the row has lost its index.\<close>

lemma index_column_overwritten:
  "assemble_rows (\<lambda>t. t) [(''Depth'', [\<lparr>cs_mnemonic = ''Depth'', cs_index = VFloat (Fin 100), cs_value = Some (Fin 7), cs_text = None, cs_uom = None\<rparr>])]
     [''Depth''] ''Depth'' = ([''Depth'', ''Depth''], [[(''Depth'', Some (VFloat (Fin 7)))]], [(''Depth'', None)])"
  by code_simp

end
