(* ===== verification/Simulator.thy ===== *)
theory Simulator
  imports StoreContract Wire StoreApi PyFormat
begin

text \<open>
  \<^verbatim>\<open>simulator/feed_simulator.py\<close>: the rig that fills a store with a fleet of wells and keeps appending rows to their
  logs. The source of random numbers, the sine and the clock are parameters that are read in order; the state of
  the rig is its fleet and how far these were read. The loop of the rig does not end: it is modelled up to any number
  of iterations, and before each of them other clients may have changed the store in any way.
\<close>

section \<open>Constants and catalog\<close>

definition NULL_VALUE :: string where "NULL_VALUE = DEFAULT_NULL_VALUE"
definition NULL_INJECT_PROB :: pyfloat where "NULL_INJECT_PROB = fround (3 / 100)"
definition BURST_EVERY_TICKS :: nat where "BURST_EVERY_TICKS = 12"
definition BURST_ROWS :: nat where "BURST_ROWS = 250"
definition DEPTH_STEP_M :: pyfloat where "DEPTH_STEP_M = Fin (1 / 2)"

record Curve =
  cu_mnemonic :: string
  cu_unit :: string
  cu_description :: string

abbreviation curve :: "string \<Rightarrow> string \<Rightarrow> string \<Rightarrow> Curve" where
  "curve m u d \<equiv> \<lparr>cu_mnemonic = m, cu_unit = u, cu_description = d\<rparr>"

definition TIME_INDEX :: Curve where "TIME_INDEX = curve ''TIME'' ''s'' ''Date time index''"
definition DEPTH_INDEX :: Curve where "DEPTH_INDEX = curve ''DEPTH'' ''m'' ''Measured depth index''"

definition TIME_CURVES :: "Curve list" where
  "TIME_CURVES = [TIME_INDEX, curve ''DEPTH'' ''m'' ''Measured depth'', curve ''ROP'' ''m/h'' ''Rate of penetration'',
     curve ''WOB'' ''klbf'' ''Weight on bit'', curve ''RPM'' ''rpm'' ''Rotary speed'', curve ''TORQUE'' ''kN.m'' ''Surface torque'',
     curve ''SPP'' ''kPa'' ''Standpipe pressure'', curve ''FLOWIN'' ''L/min'' ''Flow in'', curve ''HOOKLOAD'' ''klbf'' ''Hookload'',
     curve ''TOTGAS'' ''%'' ''Total gas'', curve ''C1'' ''ppm'' ''Methane'']"

definition DEPTH_CURVES :: "Curve list" where
  "DEPTH_CURVES = [DEPTH_INDEX, curve ''ROP'' ''m/h'' ''Rate of penetration'', curve ''WOB'' ''klbf'' ''Weight on bit'',
     curve ''RPM'' ''rpm'' ''Rotary speed'', curve ''TORQUE'' ''kN.m'' ''Surface torque'', curve ''TOTGAS'' ''%'' ''Total gas'',
     curve ''C1'' ''ppm'' ''Methane'', curve ''C2'' ''ppm'' ''Ethane'', curve ''C3'' ''ppm'' ''Propane'', curve ''C4'' ''ppm'' ''Butane'']"

section \<open>The world of the rig\<close>

text \<open>
  The \<open>i\<close>-th \<^verbatim>\<open>random.random()\<close>, \<^verbatim>\<open>math.sin\<close> of a finite float, \<^verbatim>\<open>math.tau\<close>, the \<open>i\<close>-th \<^verbatim>\<open>datetime.now\<close> in microseconds and
  the configured interval.
\<close>

record sim_env =
  sim_random :: "nat \<Rightarrow> pyfloat"
  sim_sin :: "pyfloat \<Rightarrow> pyfloat"
  sim_tau :: pyfloat
  sim_clock :: "nat \<Rightarrow> int"
  sim_interval :: pyfloat

text \<open>How many random numbers were drawn, and how often the clock was read.\<close>

type_synonym reads = "nat \<times> nat"

definition draw_random :: "sim_env \<Rightarrow> reads \<Rightarrow> pyfloat \<times> reads" where
  "draw_random env g = (sim_random env (fst g), (Suc (fst g), snd g))"

text \<open>\<^verbatim>\<open>random.uniform(a, b)\<close>.\<close>

definition uniform :: "sim_env \<Rightarrow> pyfloat \<Rightarrow> pyfloat \<Rightarrow> reads \<Rightarrow> pyfloat \<times> reads" where
  "uniform env a b g = (let (r, g') = draw_random env g in (fl_add a (fl_mul (fl_sub b a) r), g'))"

definition now_utc :: "sim_env \<Rightarrow> reads \<Rightarrow> int \<times> reads" where
  "now_utc env g = (sim_clock env (snd g), (fst g, Suc (snd g)))"

text \<open>Python's \<^verbatim>\<open>max(a, b)\<close> and \<^verbatim>\<open>min(a, b)\<close>.\<close>

definition fl_max :: "pyfloat \<Rightarrow> pyfloat \<Rightarrow> pyfloat" where "fl_max a b = (if fl_lt a b then b else a)"
definition fl_min :: "pyfloat \<Rightarrow> pyfloat \<Rightarrow> pyfloat" where "fl_min a b = (if fl_lt b a then b else a)"

section \<open>Formats\<close>

definition sim_iso_utc :: "int \<Rightarrow> string" where
  "sim_iso_utc us = strftime_ms us"

definition sim_fmt_num :: "pyfloat \<Rightarrow> string" where
  "sim_fmt_num x = (if x = NaN then NULL_VALUE
     else if is_integer x then (case int_of_float x of Inr i \<Rightarrow> show_int i | Inl e \<Rightarrow> [])
     else format_3f x)"

section \<open>Signals\<close>

record SimLog =
  sg_uid :: string
  sg_name :: string
  sg_index_type :: IndexType
  sg_direction :: Direction
  sg_curves :: "Curve list"
  sg_depth :: pyfloat
  sg_last_time :: int
  sg_phase :: pyfloat
  sg_rows_written :: nat

record WellboreState =
  wbs_uid_well :: string
  wbs_name_well :: string
  wbs_uid_wellbore :: string
  wbs_name_wellbore :: string
  wbs_time_log :: SimLog
  wbs_depth_log :: SimLog
  wbs_mudlog_uid :: string
  wbs_mudlog_name :: string
  wbs_mudlog_md :: pyfloat

definition wbs_logs :: "WellboreState \<Rightarrow> SimLog list" where
  "wbs_logs wb = [wbs_time_log wb, wbs_depth_log wb]"

text \<open>A channel that oscillates around a base, plus noise, cut at zero or another least value.\<close>

definition noisy :: "sim_env \<Rightarrow> pyfloat \<Rightarrow> pyfloat \<Rightarrow> pyfloat \<Rightarrow> pyfloat \<Rightarrow> pyfloat \<Rightarrow> reads \<Rightarrow> pyfloat \<times> reads" where
  "noisy env low base amplitude wave noise g =
     (let (u, g') = uniform env (fl_neg noise) noise g in (fl_max low (fl_add (fl_add base (fl_mul amplitude wave)) u), g'))"

definition channel_value :: "sim_env \<Rightarrow> Curve \<Rightarrow> SimLog \<Rightarrow> pyfloat \<Rightarrow> reads \<Rightarrow> pyfloat \<times> reads" where
  "channel_value env c lg t g =
     (let wave = (\<lambda>k. sim_sin env (fl_add (fl_mul t (fround k)) (sg_phase lg)));
          wobble = sim_sin env (fl_add t (sg_phase lg)); m = cu_mnemonic c in
      if m = ''DEPTH'' then (sg_depth lg, g)
      else if m = ''ROP'' then noisy env (Fin 2) (Fin 18) (Fin 6) wobble (Fin (3 / 2)) g
      else if m = ''WOB'' then noisy env (Fin 0) (Fin 25) (Fin 8) (wave (7 / 10)) (Fin 2) g
      else if m = ''RPM'' then noisy env (Fin 0) (Fin 120) (Fin 15) wobble (Fin 4) g
      else if m = ''TORQUE'' then noisy env (Fin 0) (Fin 12) (Fin 4) wobble (Fin 1) g
      else if m = ''SPP'' then noisy env (Fin 0) (Fin 21000) (Fin 2500) wobble (Fin 300) g
      else if m = ''FLOWIN'' then noisy env (Fin 0) (Fin 2200) (Fin 200) wobble (Fin 50) g
      else if m = ''HOOKLOAD'' then noisy env (Fin 0) (Fin 210) (Fin 20) (wave (5 / 10)) (Fin 5) g
      else if m = ''TOTGAS'' then
        (let base = fl_add (fround (12 / 10)) (fl_mul (fround (14 / 10)) (fl_add (wave (3 / 10)) (Fin 1)));
             (u, g') = uniform env (fround (- 3 / 10)) (fround (5 / 10)) g
         in (fl_min (Fin 5) (fl_max (Fin 0) (fl_add base u)), g'))
      else if m = ''C1'' then noisy env (Fin 0) (Fin 4500) (Fin 1500) wobble (Fin 300) g
      else if m = ''C2'' then noisy env (Fin 0) (Fin 900) (Fin 300) wobble (Fin 80) g
      else if m = ''C3'' then noisy env (Fin 0) (Fin 350) (Fin 120) wobble (Fin 40) g
      else if m = ''C4'' then noisy env (Fin 0) (Fin 120) (Fin 50) wobble (Fin 20) g
      else (Fin 0, g))"

text \<open>\<^verbatim>\<open>rows_written * 0.05\<close>.\<close>

definition row_phase :: "SimLog \<Rightarrow> pyfloat" where
  "row_phase lg = fl_mul (fround (of_nat (sg_rows_written lg))) (fround (5 / 100))"

definition advance :: "sim_env \<Rightarrow> SimLog \<Rightarrow> reads \<Rightarrow> SimLog \<times> reads" where
  "advance env lg g =
     (let rop = fl_max (Fin 2) (fl_add (Fin 18) (fl_mul (Fin 6) (sim_sin env (fl_add (row_phase lg) (sg_phase lg))))) in
      if is_depth (sg_index_type lg) then
        (if sg_direction lg = DECREASING then lg\<lparr>sg_depth := fl_max (Fin 0) (fl_sub (sg_depth lg) DEPTH_STEP_M)\<rparr>
         else lg\<lparr>sg_depth := fl_add (sg_depth lg) DEPTH_STEP_M\<rparr>, g)
      else (let dt_seconds = fl_max (Fin (1 / 2)) (sim_interval env); (now, g') = now_utc env g in
        (lg\<lparr>sg_last_time := now, sg_depth := fl_add (sg_depth lg)
           (fl_mul rop (case fl_div dt_seconds (Fin 3600) of Inr h \<Rightarrow> h | Inl e \<Rightarrow> NaN))\<rparr>, g')))"

fun emit_cells :: "sim_env \<Rightarrow> bool \<Rightarrow> SimLog \<Rightarrow> pyfloat \<Rightarrow> Curve list \<Rightarrow> reads \<Rightarrow> string list \<times> reads" where
  "emit_cells env allow_null lg t [] g = ([], g)"
| "emit_cells env allow_null lg t (c # cs) g =
     (let (null, g1) = (if allow_null then (let (r, g') = draw_random env g in (fl_lt r NULL_INJECT_PROB, g')) else (False, g));
          (cell, g2) = (if null then (NULL_VALUE, g1) else (let (v, g') = channel_value env c lg t g1 in (sim_fmt_num v, g')));
          (cells, g3) = emit_cells env allow_null lg t cs g2
      in (cell # cells, g3))"

type_synonym sim_row = "string \<times> string list"

definition emit_row :: "sim_env \<Rightarrow> bool \<Rightarrow> SimLog \<Rightarrow> reads \<Rightarrow> sim_row \<times> SimLog \<times> reads" where
  "emit_row env allow_null lg g =
     (let (lg', g1) = advance env lg g;
          index_token = (if is_time (sg_index_type lg') then sim_iso_utc (sg_last_time lg') else sim_fmt_num (sg_depth lg'));
          (cells, g2) = emit_cells env allow_null lg' (row_phase lg') (tl (sg_curves lg')) g1
      in ((index_token, cells), lg'\<lparr>sg_rows_written := Suc (sg_rows_written lg')\<rparr>, g2))"

fun emit_rows :: "sim_env \<Rightarrow> nat \<Rightarrow> SimLog \<Rightarrow> reads \<Rightarrow> sim_row list \<times> SimLog \<times> reads" where
  "emit_rows env 0 lg g = ([], lg, g)"
| "emit_rows env (Suc n) lg g = (let (r, lg1, g1) = emit_row env True lg g; (rs, lg2, g2) = emit_rows env n lg1 g1 in (r # rs, lg2, g2))"

definition row_csv :: "sim_row \<Rightarrow> string" where
  "row_csv r = join '','' (fst r # snd r)"

section \<open>Documents\<close>

definition sim_well_tree :: "string \<Rightarrow> string \<Rightarrow> node" where
  "sim_well_tree uid nm = new_root ''wells'' [el ''well'' [(''uid'', uid)] None
     [leaf ''name'' nm, leaf ''field'' ''Simulated Field'', leaf ''country'' ''US'', leaf ''operator'' ''Simulator'',
      leaf ''statusWell'' ''drilling'', leaf ''timeZone'' ''+00:00'']]"

definition sim_wellbore_tree :: "string \<Rightarrow> string \<Rightarrow> string \<Rightarrow> string \<Rightarrow> node" where
  "sim_wellbore_tree uid_well name_well uid nm = new_root ''wellbores'' [el ''wellbore'' [(''uidWell'', uid_well), (''uid'', uid)] None
     [leaf ''nameWell'' name_well, leaf ''name'' nm, leaf ''statusWellbore'' ''drilling'']]"

definition log_curve_elements :: "SimLog \<Rightarrow> node list" where
  "log_curve_elements lg = map (\<lambda>(i, c). el ''logCurveInfo'' [(''uid'', ''lci-'' @ cu_mnemonic c)] None
     [leaf ''mnemonic'' (cu_mnemonic c), leaf ''unit'' (cu_unit c), leaf ''curveDescription'' (cu_description c),
      leaf ''typeLogData'' (if i = 0 \<and> is_time (sg_index_type lg) then ''date time'' else ''double''),
      leaf ''nullValue'' NULL_VALUE]) (enumerate 0 (sg_curves lg))"

definition data_block :: "SimLog \<Rightarrow> sim_row list \<Rightarrow> node" where
  "data_block lg rows = el ''logData'' [] None
     ([leaf ''mnemonicList'' (join '','' (map cu_mnemonic (sg_curves lg))), leaf ''unitList'' (join '','' (map cu_unit (sg_curves lg)))]
      @ map (\<lambda>r. leaf ''data'' (row_csv r)) rows)"

definition log_element :: "WellboreState \<Rightarrow> SimLog \<Rightarrow> node list \<Rightarrow> node" where
  "log_element wb lg ks = new_root ''logs''
     [el ''log'' [(''uidWell'', wbs_uid_well wb), (''uidWellbore'', wbs_uid_wellbore wb), (''uid'', sg_uid lg)] None ks]"

definition log_create_tree :: "WellboreState \<Rightarrow> SimLog \<Rightarrow> sim_row \<Rightarrow> node" where
  "log_create_tree wb lg first_row =
     (let index = hd (sg_curves lg);
          bound = (\<lambda>time_tag depth_tag. if is_time (sg_index_type lg) then leaf time_tag (fst first_row)
            else el depth_tag [(''uom'', cu_unit index)] (Some (fst first_row)) [])
      in log_element wb lg
        ([leaf ''nameWell'' (wbs_name_well wb), leaf ''nameWellbore'' (wbs_name_wellbore wb), leaf ''name'' (sg_name lg),
          leaf ''indexType'' (it_value (sg_index_type lg)), leaf ''indexCurve'' (cu_mnemonic index),
          leaf ''direction'' (dir_value (sg_direction lg)), leaf ''nullValue'' NULL_VALUE,
          bound ''startDateTimeIndex'' ''startIndex'', bound ''endDateTimeIndex'' ''endIndex'']
         @ log_curve_elements lg @ [data_block lg [first_row]]))"

definition log_update_tree :: "WellboreState \<Rightarrow> SimLog \<Rightarrow> sim_row list \<Rightarrow> node" where
  "log_update_tree wb lg rows = log_element wb lg [data_block lg rows]"

type_synonym litho = "string \<times> string \<times> pyfloat \<times> string"

definition lithology_element :: "string \<Rightarrow> nat \<times> litho \<Rightarrow> node" where
  "lithology_element uid p = (case p of (i, ltype, code, pc, desc) \<Rightarrow>
     el ''lithology'' [(''uid'', uid @ ''-l'' @ show_int (int (i + 1)))] None
       [leaf ''type'' ltype, leaf ''codeLith'' code, el ''lithPc'' [(''uom'', ''%'')] (Some (sim_fmt_num pc)) [], leaf ''description'' desc])"

definition geology_element :: "string \<Rightarrow> pyfloat \<Rightarrow> pyfloat \<Rightarrow> litho \<Rightarrow> litho \<Rightarrow> node" where
  "geology_element uid md_top md_bottom primary secondary = el ''geologyInterval'' [(''uid'', uid)] None
     ([leaf ''typeLithology'' ''cuttings'', el ''mdTop'' [(''uom'', ''m'')] (Some (sim_fmt_num md_top)) [],
       el ''mdBottom'' [(''uom'', ''m'')] (Some (sim_fmt_num md_bottom)) [],
       leaf ''description'' (fst primary @ '' / '' @ fst secondary)]
      @ map (lithology_element uid) (enumerate 0 [primary, secondary]))"

definition mudlog_create_tree :: "WellboreState \<Rightarrow> node" where
  "mudlog_create_tree wb =
     (let upper = wbs_mudlog_md wb in new_root ''mudLogs'' [el ''mudLog''
        [(''uidWell'', wbs_uid_well wb), (''uidWellbore'', wbs_uid_wellbore wb), (''uid'', wbs_mudlog_uid wb)] None
        [leaf ''nameWell'' (wbs_name_well wb), leaf ''nameWellbore'' (wbs_name_wellbore wb), leaf ''name'' (wbs_mudlog_name wb),
         leaf ''mudLogCompany'' ''Simulator'',
         geology_element ''gi-1'' upper (fl_add upper (Fin 25))
           (''sandstone'', ''SND'', Fin 70, ''Sandstone, fine-medium, good porosity'') (''shale'', ''SHL'', Fin 30, ''Shale, grey interbeds''),
         geology_element ''gi-2'' (fl_add upper (Fin 25)) (fl_add upper (Fin 60))
           (''shale'', ''SHL'', Fin 80, ''Shale, dark grey, calcareous'') (''salt'', ''SLT'', Fin 20, ''Salt stringer, halite'')]])"

section \<open>The fleet\<close>

text \<open>A new log: \<^verbatim>\<open>last_time\<close> and \<^verbatim>\<open>phase\<close> are read in the order of the fields.\<close>

definition new_log :: "sim_env \<Rightarrow> string \<Rightarrow> string \<Rightarrow> IndexType \<Rightarrow> Direction \<Rightarrow> Curve list \<Rightarrow> pyfloat \<Rightarrow> reads \<Rightarrow> SimLog \<times> reads" where
  "new_log env uid nm it dir curves depth g =
     (let (now, g1) = now_utc env g; (phase, g2) = uniform env (Fin 0) (sim_tau env) g1 in
      (\<lparr>sg_uid = uid, sg_name = nm, sg_index_type = it, sg_direction = dir, sg_curves = curves, sg_depth = depth,
        sg_last_time = now, sg_phase = phase, sg_rows_written = 0\<rparr>, g2))"

definition build_wellbore :: "sim_env \<Rightarrow> nat \<Rightarrow> reads \<Rightarrow> WellboreState \<times> reads" where
  "build_wellbore env i g =
     (let uid_well = ''sim-well-'' @ pad 3 (int i); uid_wellbore = uid_well @ ''-wb-1'';
          (u, g1) = uniform env (Fin (- 200)) (Fin 200) g; start_depth = fl_add (Fin 1500) u;
          (time_log, g2) = new_log env (uid_wellbore @ ''-log-time'') ''Time Log'' DATE_TIME INCREASING TIME_CURVES start_depth g1;
          (depth_log, g3) = new_log env (uid_wellbore @ ''-log-depth'') ''Depth Log'' MEASURED_DEPTH
            (if i = 1 then DECREASING else INCREASING) DEPTH_CURVES start_depth g2
      in (\<lparr>wbs_uid_well = uid_well, wbs_name_well = ''Simulated Well '' @ pad 3 (int i), wbs_uid_wellbore = uid_wellbore,
           wbs_name_wellbore = ''Wellbore 1'', wbs_time_log = time_log, wbs_depth_log = depth_log,
           wbs_mudlog_uid = uid_wellbore @ ''-mudlog-1'', wbs_mudlog_name = ''Geology MudLog'', wbs_mudlog_md = start_depth\<rparr>, g3))"

fun build_wellbores :: "sim_env \<Rightarrow> nat list \<Rightarrow> reads \<Rightarrow> WellboreState list \<times> reads" where
  "build_wellbores env [] g = ([], g)"
| "build_wellbores env (i # is) g = (let (wb, g1) = build_wellbore env i g; (wbs, g2) = build_wellbores env is g1 in (wb # wbs, g2))"

definition build_fleet :: "sim_env \<Rightarrow> nat \<Rightarrow> reads \<Rightarrow> WellboreState list \<times> reads" where
  "build_fleet env well_count g = build_wellbores env [1..<well_count + 1] g"

section \<open>The store\<close>

definition already_exists :: "string option \<Rightarrow> bool" where
  "already_exists supp_msg = (case or_none supp_msg of None \<Rightarrow> False
    | Some s \<Rightarrow> (let msg = lower s in contains ''already exist'' msg \<or> contains ''already in the store'' msg
        \<or> contains ''uid_already_exists'' msg))"

definition log_missing :: "int \<Rightarrow> string option \<Rightarrow> bool" where
  "log_missing rc supp_msg = (rc = - 411 \<or> (case or_none supp_msg of None \<Rightarrow> False | Some s \<Rightarrow> contains ''not found'' (lower s)))"

definition sim_add :: "'s service \<Rightarrow> string \<Rightarrow> string \<Rightarrow> 's \<Rightarrow> bool \<times> 's" where
  "sim_add svc wml_type xml s = (case add_to_store svc wml_type xml [] s of
      (Inl e, s') \<Rightarrow> (False, s')
    | (Inr (rc, supp), s') \<Rightarrow> (if is_success (Some rc) then True else already_exists supp, s'))"

text \<open>A document that cannot be built raises; whether it was added is not looked at.\<close>

definition add_document :: "lxml \<Rightarrow> 's service \<Rightarrow> string \<Rightarrow> node \<Rightarrow> (unit, 's) act" where
  "add_document lx svc wml_type tree = sbind (lift_res (serialize lx tree)) (\<lambda>x s. (Inr (), snd (sim_add svc wml_type x s)))"

definition seed_log :: "sim_env \<Rightarrow> lxml \<Rightarrow> 's service \<Rightarrow> WellboreState \<Rightarrow> SimLog \<Rightarrow> reads \<Rightarrow> 's \<Rightarrow> unit res \<times> SimLog \<times> reads \<times> 's" where
  "seed_log env lx svc wb lg g s =
     (let (first_row, lg', g') = emit_row env False lg g; (r, s') = add_document lx svc ''log'' (log_create_tree wb lg' first_row) s
      in (r, lg', g', s'))"

definition seed_wellbore :: "sim_env \<Rightarrow> lxml \<Rightarrow> 's service \<Rightarrow> WellboreState \<Rightarrow> reads \<Rightarrow> 's \<Rightarrow> unit res \<times> WellboreState \<times> reads \<times> 's" where
  "seed_wellbore env lx svc wb g s =
     (case sbind (add_document lx svc ''well'' (sim_well_tree (wbs_uid_well wb) (wbs_name_well wb)))
        (\<lambda>_. add_document lx svc ''wellbore'' (sim_wellbore_tree (wbs_uid_well wb) (wbs_name_well wb) (wbs_uid_wellbore wb) (wbs_name_wellbore wb))) s of
       (Inl e, s1) \<Rightarrow> (Inl e, wb, g, s1)
     | (Inr _, s1) \<Rightarrow> (case seed_log env lx svc wb (wbs_time_log wb) g s1 of
           (Inl e, lg1, g1, s2) \<Rightarrow> (Inl e, wb\<lparr>wbs_time_log := lg1\<rparr>, g1, s2)
         | (Inr _, lg1, g1, s2) \<Rightarrow>
             (let wb1 = wb\<lparr>wbs_time_log := lg1\<rparr> in case seed_log env lx svc wb1 (wbs_depth_log wb1) g1 s2 of
                (Inl e, lg2, g2, s3) \<Rightarrow> (Inl e, wb1\<lparr>wbs_depth_log := lg2\<rparr>, g2, s3)
              | (Inr _, lg2, g2, s3) \<Rightarrow>
                  (let wb2 = wb1\<lparr>wbs_depth_log := lg2\<rparr>; (r, s4) = add_document lx svc ''mudLog'' (mudlog_create_tree wb2) s3
                   in (r, wb2, g2, s4)))))"

fun seed_fleet :: "sim_env \<Rightarrow> lxml \<Rightarrow> 's service \<Rightarrow> WellboreState list \<Rightarrow> reads \<Rightarrow> 's \<Rightarrow> unit res \<times> WellboreState list \<times> reads \<times> 's" where
  "seed_fleet env lx svc [] g s = (Inr (), [], g, s)"
| "seed_fleet env lx svc (wb # wbs) g s = (case seed_wellbore env lx svc wb g s of
       (Inl e, wb', g', s') \<Rightarrow> (Inl e, wb' # wbs, g', s')
     | (Inr _, wb', g', s') \<Rightarrow> (let (r, wbs', g2, s2) = seed_fleet env lx svc wbs g' s' in (r, wb' # wbs', g2, s2)))"

text \<open>Appends rows and tells whether the log is missing.\<close>

definition sim_update_log :: "lxml \<Rightarrow> 's service \<Rightarrow> WellboreState \<Rightarrow> SimLog \<Rightarrow> sim_row list \<Rightarrow> 's \<Rightarrow> bool \<times> 's" where
  "sim_update_log lx svc wb lg rows s = (case sbind (lift_res (serialize lx (log_update_tree wb lg rows))) (\<lambda>x. update_in_store svc ''log'' x []) s of
      (Inl e, s') \<Rightarrow> (False, s')
    | (Inr (rc, supp), s') \<Rightarrow> (\<not> is_success (Some rc) \<and> log_missing rc supp, s'))"

definition tick_log :: "sim_env \<Rightarrow> lxml \<Rightarrow> 's service \<Rightarrow> nat \<Rightarrow> WellboreState \<Rightarrow> SimLog \<Rightarrow> reads \<Rightarrow> 's \<Rightarrow> bool \<times> SimLog \<times> reads \<times> 's" where
  "tick_log env lx svc n wb lg g s =
     (let (rows, lg', g') = emit_rows env n lg g; (missing, s') = sim_update_log lx svc wb lg' rows s in (missing, lg', g', s'))"

definition tick_wellbore :: "sim_env \<Rightarrow> lxml \<Rightarrow> 's service \<Rightarrow> nat \<Rightarrow> WellboreState \<Rightarrow> reads \<Rightarrow> 's \<Rightarrow> bool \<times> WellboreState \<times> reads \<times> 's" where
  "tick_wellbore env lx svc n wb g s =
     (let (missing1, lg1, g1, s1) = tick_log env lx svc n wb (wbs_time_log wb) g s; wb1 = wb\<lparr>wbs_time_log := lg1\<rparr>;
          (missing2, lg2, g2, s2) = tick_log env lx svc n wb1 (wbs_depth_log wb1) g1 s1
      in (missing1 \<or> missing2, wb1\<lparr>wbs_depth_log := lg2\<rparr>, g2, s2))"

text \<open>The wellbores from position \<open>i\<close> on; the one at \<open>burst_at\<close> gets a burst.\<close>

fun tick_wellbores :: "sim_env \<Rightarrow> lxml \<Rightarrow> 's service \<Rightarrow> nat option \<Rightarrow> nat \<Rightarrow> WellboreState list \<Rightarrow> reads \<Rightarrow> 's
    \<Rightarrow> bool \<times> WellboreState list \<times> reads \<times> 's" where
  "tick_wellbores env lx svc burst_at i [] g s = (False, [], g, s)"
| "tick_wellbores env lx svc burst_at i (wb # wbs) g s =
     (let (m1, wb', g1, s1) = tick_wellbore env lx svc (if burst_at = Some i then BURST_ROWS else 1) wb g s;
          (m2, wbs', g2, s2) = tick_wellbores env lx svc burst_at (Suc i) wbs g1 s1
      in (m1 \<or> m2, wb' # wbs', g2, s2))"

text \<open>With no wells the choice of a burst divides by zero.\<close>

definition sim_tick :: "sim_env \<Rightarrow> lxml \<Rightarrow> 's service \<Rightarrow> WellboreState list \<Rightarrow> nat \<Rightarrow> reads \<Rightarrow> 's
    \<Rightarrow> bool res \<times> WellboreState list \<times> reads \<times> 's" where
  "sim_tick env lx svc fleet tick_no g s =
     (let burst = tick_no \<noteq> 0 \<and> tick_no mod BURST_EVERY_TICKS = 0 in
      if burst \<and> fleet = [] then (Inl ZeroDivisionError, fleet, g, s)
      else (let (needs_reseed, fleet', g', s') =
              tick_wellbores env lx svc (if burst then Some (tick_no mod length fleet) else None) 0 fleet g s
            in (Inr needs_reseed, fleet', g', s')))"

section \<open>The loop\<close>

fun wait_for_server :: "'s service \<Rightarrow> (nat \<Rightarrow> 's \<Rightarrow> 's) \<Rightarrow> nat \<Rightarrow> 's \<Rightarrow> 's" where
  "wait_for_server svc others 0 s = s"
| "wait_for_server svc others (Suc n) s = (case get_version svc s of
      (Inr v, s') \<Rightarrow> s' | (Inl e, s') \<Rightarrow> wait_for_server svc others n (others n s'))"

text \<open>One iteration; an exception of the tick or of the seeding is logged.\<close>

definition rig_iteration :: "sim_env \<Rightarrow> lxml \<Rightarrow> 's service \<Rightarrow> nat \<Rightarrow> WellboreState list \<times> reads \<times> 's \<Rightarrow> WellboreState list \<times> reads \<times> 's" where
  "rig_iteration env lx svc tick_no r = (case r of (fleet, g, s) \<Rightarrow>
     (case sim_tick env lx svc fleet tick_no g s of
        (Inr True, fleet', g', s') \<Rightarrow> snd (seed_fleet env lx svc fleet' g' s')
      | (_, fleet', g', s') \<Rightarrow> (fleet', g', s')))"

text \<open>The state after \<open>n\<close> iterations, where \<open>others i\<close> is what other clients do to the store before iteration \<open>i\<close>.\<close>

fun rig_loop :: "sim_env \<Rightarrow> lxml \<Rightarrow> 's service \<Rightarrow> (nat \<Rightarrow> 's \<Rightarrow> 's) \<Rightarrow> nat \<Rightarrow> WellboreState list \<times> reads \<times> 's \<Rightarrow> WellboreState list \<times> reads \<times> 's" where
  "rig_loop env lx svc others 0 r = r"
| "rig_loop env lx svc others (Suc n) r = (case rig_loop env lx svc others n r of (fleet, g, s) \<Rightarrow>
     rig_iteration env lx svc (Suc n) (fleet, g, others n s))"

text \<open>The program up to iteration \<open>n\<close>: an exception of the first seeding ends it.\<close>

definition rig_main :: "sim_env \<Rightarrow> lxml \<Rightarrow> 's service \<Rightarrow> (nat \<Rightarrow> 's \<Rightarrow> 's) \<Rightarrow> (nat \<Rightarrow> 's \<Rightarrow> 's) \<Rightarrow> nat \<Rightarrow> nat \<Rightarrow> 's
    \<Rightarrow> (WellboreState list \<times> reads \<times> 's) res" where
  "rig_main env lx svc boot others well_count n s =
     (let (fleet, g) = build_fleet env well_count (0, 0); s1 = wait_for_server svc boot 60 s in
      case seed_fleet env lx svc fleet g s1 of
        (Inl e, r) \<Rightarrow> Inl e
      | (Inr _, r) \<Rightarrow> Inr (rig_loop env lx svc others n r))"

section \<open>What the rig leaves behind\<close>

lemma legal_literals [simp]: "list_all legal_char NULL_VALUE"
  "list_all (list_all legal_char) (map cu_mnemonic TIME_CURVES)" "list_all (list_all legal_char) (map cu_mnemonic DEPTH_CURVES)"
  by code_simp+

text \<open>The identity of a log, which no operation changes, and that its texts are legal in XML.\<close>

definition log_ids :: "SimLog \<Rightarrow> string \<times> string \<times> IndexType \<times> Direction \<times> Curve list" where
  "log_ids lg = (sg_uid lg, sg_name lg, sg_index_type lg, sg_direction lg, sg_curves lg)"

definition wb_ids where
  "wb_ids wb = (wbs_uid_well wb, wbs_name_well wb, wbs_uid_wellbore wb, wbs_name_wellbore wb, wbs_mudlog_uid wb, wbs_mudlog_name wb,
     wbs_mudlog_md wb, log_ids (wbs_time_log wb), log_ids (wbs_depth_log wb))"

definition legal_text :: "string \<Rightarrow> bool" where "legal_text s = list_all legal_char s"

definition legal_log :: "SimLog \<Rightarrow> bool" where
  "legal_log lg = (sg_uid lg \<noteq> [] \<and> legal_text (sg_uid lg) \<and> legal_text (sg_name lg) \<and> sg_curves lg \<noteq> [] \<and>
     list_all (\<lambda>c. legal_text (cu_mnemonic c) \<and> legal_text (cu_unit c) \<and> legal_text (cu_description c)) (sg_curves lg))"

definition legal_wellbore :: "WellboreState \<Rightarrow> bool" where
  "legal_wellbore wb = (legal_text (wbs_uid_well wb) \<and> legal_text (wbs_name_well wb) \<and> legal_text (wbs_uid_wellbore wb) \<and>
     legal_text (wbs_name_wellbore wb) \<and> legal_text (wbs_mudlog_uid wb) \<and> legal_text (wbs_mudlog_name wb) \<and>
     legal_log (wbs_time_log wb) \<and> legal_log (wbs_depth_log wb))"

lemma legal_join: "list_all legal_char sep \<Longrightarrow> list_all (list_all legal_char) xs \<Longrightarrow> list_all legal_char (join sep xs)"
  by (induction sep xs rule: join.induct) auto

lemma legal_take [simp]: "list_all legal_char s \<Longrightarrow> list_all legal_char (take n s)" "list_all legal_char s \<Longrightarrow> list_all legal_char (drop n s)"
  using legal_take_drop by blast+

lemma legal_fixed: "list_all legal_char (fixed_text k m)"
proof -
  have "list_all legal_char s \<Longrightarrow> list_all legal_char (strip_zeros s)" for s
    by (auto simp: strip_zeros_def list_all_iff dest: set_dropWhileD)
  then show ?thesis by (simp add: fixed_text_def Let_def)
qed

lemma legal_fmt_num [simp]: "list_all legal_char (sim_fmt_num x)"
  by (auto simp: sim_fmt_num_def format_3f_def sign_of_def legal_fixed legal_char_def split: sum.splits pyfloat.splits)

lemma legal_cells: "list_all (list_all legal_char) (fst (emit_cells env an lg t cs g))"
  by (induction cs arbitrary: g) (auto simp: split_beta Let_def)

lemma emit_row_outcome:
  "emit_row env an lg g = (r, lg', g') \<Longrightarrow> log_ids lg' = log_ids lg \<and> list_all legal_char (row_csv r) \<and> list_all legal_char (fst r)"
proof -
  assume e: "emit_row env an lg g = (r, lg', g')"
  have "log_ids (fst (advance env lg g)) = log_ids lg" by (simp add: advance_def log_ids_def Let_def split_beta)
  with e show ?thesis
    by (auto simp: emit_row_def Let_def split_beta log_ids_def row_csv_def sim_iso_utc_def intro!: legal_join legal_cells)
qed

lemma emit_rows_outcome:
  "emit_rows env n lg g = (rs, lg', g') \<Longrightarrow> log_ids lg' = log_ids lg \<and> list_all (\<lambda>r. list_all legal_char (row_csv r)) rs"
proof (induction n arbitrary: lg g rs lg' g')
  case (Suc n)
  obtain r l1 g1 where r: "emit_row env True lg g = (r, l1, g1)" by (metis prod_cases3)
  obtain rs' l2 g2 where rs: "emit_rows env n l1 g1 = (rs', l2, g2)" by (metis prod_cases3)
  from Suc.prems r rs have "rs = r # rs'" "lg' = l2" by auto
  with Suc.IH [OF rs] emit_row_outcome [OF r] show ?case by auto
qed simp

section \<open>The documents are legal and address their objects\<close>

lemma legal_values: "list_all legal_char (it_value it)" "list_all legal_char (dir_value d)" "list_all legal_char WITSML_VERSION"
proof -
  show "list_all legal_char (it_value it)" by (cases it) (simp_all add: legal_char_def)
  show "list_all legal_char (dir_value d)" by (cases d) (simp_all add: legal_char_def)
qed (simp add: legal_char_def WITSML_VERSION_def)

lemmas legal_named = legal_values legal_char_def

lemma legal_log_join:
  assumes "legal_log lg"
  shows "list_all legal_char (join '','' (map cu_mnemonic (sg_curves lg)))" "list_all legal_char (join '','' (map cu_unit (sg_curves lg)))"
proof -
  have "list_all (list_all legal_char) (map cu_mnemonic (sg_curves lg))" "list_all (list_all legal_char) (map cu_unit (sg_curves lg))"
    using assms by (auto simp: legal_log_def legal_text_def list.pred_map o_def elim: list.pred_mono_strong)
  then show "list_all legal_char (join '','' (map cu_mnemonic (sg_curves lg)))" "list_all legal_char (join '','' (map cu_unit (sg_curves lg)))"
    by (simp_all add: legal_join)
qed

lemma legal_data_block: "legal_log lg \<Longrightarrow> list_all (\<lambda>r. list_all legal_char (row_csv r)) rows \<Longrightarrow> xml_legal (data_block lg rows)"
  using legal_log_join [of lg] by (simp add: data_block_def leaf_def list.pred_map o_def)

lemma legal_curve_info: "legal_log lg \<Longrightarrow> list_all xml_legal (log_curve_elements lg)"
proof -
  assume "legal_log lg"
  then have "\<forall>(i, c) \<in> set (enumerate 0 (sg_curves lg)). legal_text (cu_mnemonic c) \<and> legal_text (cu_unit c) \<and> legal_text (cu_description c)"
    by (auto simp: legal_log_def list_all_iff in_set_enumerate_eq)
  then have "list_all (\<lambda>(i, c). legal_text (cu_mnemonic c) \<and> legal_text (cu_unit c) \<and> legal_text (cu_description c)) (enumerate 0 (sg_curves lg))"
    unfolding list_all_iff .
  then show ?thesis unfolding log_curve_elements_def list.pred_map
    by (rule list.pred_mono_strong) (auto simp: leaf_def legal_text_def legal_char_def)
qed

lemma legal_create:
  assumes "legal_wellbore wb" "legal_log lg" "list_all legal_char (row_csv r)" "list_all legal_char (fst r)"
  shows "xml_legal (log_create_tree wb lg r)"
proof -
  have "legal_text (cu_mnemonic (hd (sg_curves lg))) \<and> legal_text (cu_unit (hd (sg_curves lg)))"
    using assms(2) by (cases "sg_curves lg") (auto simp: legal_log_def)
  then show ?thesis using assms legal_curve_info [OF assms(2)] legal_data_block [OF assms(2), of "[r]"]
    by (simp add: log_create_tree_def log_element_def new_root_def leaf_def legal_named legal_wellbore_def legal_log_def legal_text_def Let_def)
qed

lemma legal_update:
  "legal_wellbore wb \<Longrightarrow> legal_log lg \<Longrightarrow> list_all (\<lambda>r. list_all legal_char (row_csv r)) rows \<Longrightarrow> xml_legal (log_update_tree wb lg rows)"
  using legal_data_block [of lg rows]
  by (simp add: log_update_tree_def log_element_def new_root_def legal_named legal_wellbore_def legal_log_def legal_text_def)

lemma legal_geology:
  "list_all legal_char uid \<Longrightarrow> list_all (\<lambda>(a, b, x, d). list_all legal_char a \<and> list_all legal_char b \<and> list_all legal_char d) [p, q] \<Longrightarrow>
     xml_legal (geology_element uid lo hi p q)"
  by (simp add: geology_element_def lithology_element_def leaf_def legal_named legal_char_def split: prod.splits)

lemma legal_others:
  assumes "legal_wellbore wb"
  shows "xml_legal (sim_well_tree (wbs_uid_well wb) (wbs_name_well wb))"
    "xml_legal (sim_wellbore_tree (wbs_uid_well wb) (wbs_name_well wb) (wbs_uid_wellbore wb) (wbs_name_wellbore wb))"
    "xml_legal (mudlog_create_tree wb)"
proof -
  show "xml_legal (sim_well_tree (wbs_uid_well wb) (wbs_name_well wb))"
    "xml_legal (sim_wellbore_tree (wbs_uid_well wb) (wbs_name_well wb) (wbs_uid_wellbore wb) (wbs_name_wellbore wb))"
    using assms by (simp_all add: sim_well_tree_def sim_wellbore_tree_def new_root_def leaf_def legal_named legal_wellbore_def legal_text_def)
  have "xml_legal (geology_element uid lo hi p q)" if "list_all legal_char uid"
    "list_all (\<lambda>(a, b, x, d). list_all legal_char a \<and> list_all legal_char b \<and> list_all legal_char d) [p, q]" for uid lo hi p q
    using that by (rule legal_geology)
  then show "xml_legal (mudlog_create_tree wb)"
    using assms by (simp add: mudlog_create_tree_def new_root_def leaf_def legal_named legal_wellbore_def legal_text_def Let_def)
qed

section \<open>What the documents do to the store\<close>

text \<open>No request of the rig removes an object.\<close>

definition stored :: "MockStore \<Rightarrow> obj_key set" where
  "stored s = dom (view_store s)"

lemma exec_keeps: "(\<forall>k. c \<noteq> Remove k) \<Longrightarrow> dom m \<subseteq> dom (snd (exec c m))"
  by (cases c) (auto split: option.splits)

lemma command_keeps: "store_command lx (AddObject ty xml) \<noteq> Remove k" "store_command lx (UpdateObject ty xml) \<noteq> Remove k"
  by (auto simp: add_command_def update_command_def new_object_def changed_object_def split: sum.splits option.splits)

lemma objects_kept: "stored s \<subseteq> stored (snd (add_object lx ty xml s))" "stored s \<subseteq> stored (snd (update_object lx ty xml s))"
  using exec_keeps [of "store_command lx (AddObject ty xml)" "view_store s"] add_refines [of lx ty xml s]
    exec_keeps [of "store_command lx (UpdateObject ty xml)" "view_store s"] update_refines [of lx ty xml s] command_keeps
  unfolding stored_def by (metis snd_conv)+

lemma add_document_keeps: "stored s \<subseteq> stored (snd (add_document lx (store_service lx) ty tree s))"
proof (cases "serialize lx tree")
  case (Inr x)
  have "snd (sim_add (store_service lx) ty x s) = snd (add_object lx ty x s)"
    by (simp add: sim_add_def add_to_store_def sbind_def store_service_def lift_res_def split_beta split: sum.splits)
  with Inr show ?thesis using objects_kept(1) by (simp add: add_document_def sbind_def lift_res_def)
qed (simp add: add_document_def sbind_def lift_res_def)

definition sim_key :: "WellboreState \<Rightarrow> SimLog \<Rightarrow> obj_key" where
  "sim_key wb lg = KLog (wbs_uid_well wb, wbs_uid_wellbore wb, sg_uid lg)"

lemma or_str_self [simp]: "or_str (Some s) [] = s"
  by (simp add: or_str_def or_none_def)

lemma log_document:
  assumes "xml_codec lx" "xml_legal (log_element wb lg ks)" "sg_uid lg \<noteq> []"
  shows "\<exists>x v. serialize lx (log_element wb lg ks) = Inr x \<and> store_command lx (AddObject ''log'' x) = Add (sim_key wb lg) v"
    and "\<exists>x f. serialize lx (log_element wb lg ks) = Inr x \<and> store_command lx (UpdateObject ''log'' x) = Change (sim_key wb lg) f"
proof -
  have x: "serialize lx (log_element wb lg ks) = Inr (lx_tostring lx (log_element wb lg ks))"
      "lx_recover lx (lx_tostring lx (log_element wb lg ks)) = Inr (Some (xml_norm (log_element wb lg ks)))"
    using assms(1,2) by (simp_all add: serialize_def xml_codec_def)
  have "store_type ''log'' = ''log''" by code_simp
  with x assms(3) show "\<exists>x v. serialize lx (log_element wb lg ks) = Inr x \<and> store_command lx (AddObject ''log'' x) = Add (sim_key wb lg) v"
      "\<exists>x f. serialize lx (log_element wb lg ks) = Inr x \<and> store_command lx (UpdateObject ''log'' x) = Change (sim_key wb lg) f"
    by (simp_all add: add_command_def update_command_def new_object_def changed_object_def root_or_first_def log_element_def new_root_def
      xml_first_el log_key_of_def sim_key_def)
qed

lemma log_document_added:
  assumes "xml_codec lx" "xml_legal (log_element wb lg ks)" "sg_uid lg \<noteq> []"
  shows "fst (add_document lx (store_service lx) ''log'' (log_element wb lg ks) s) = Inr () \<and>
    sim_key wb lg \<in> stored (snd (add_document lx (store_service lx) ''log'' (log_element wb lg ks) s))"
proof -
  obtain x v where x: "serialize lx (log_element wb lg ks) = Inr x" "store_command lx (AddObject ''log'' x) = Add (sim_key wb lg) v"
    using log_document(1) [OF assms] by blast
  have "sim_key wb lg \<in> stored (snd (add_object lx ''log'' x s))"
    using add_refines [of lx "''log''" x s] unfolding x(2) by (auto simp: stored_def split: if_splits)
  moreover have "snd (sim_add (store_service lx) ''log'' x s) = snd (add_object lx ''log'' x s)"
    by (simp add: sim_add_def add_to_store_def sbind_def store_service_def lift_res_def split_beta split: sum.splits)
  ultimately show ?thesis using x(1) by (simp add: add_document_def sbind_def lift_res_def)
qed

text \<open>An update that does not flag its log leaves it in the store.\<close>

lemma update_flags_missing:
  assumes "xml_codec lx" "legal_wellbore wb" "legal_log lg" "list_all (\<lambda>r. list_all legal_char (row_csv r)) rows"
    "sim_update_log lx (store_service lx) wb lg rows s = (missing, s')"
  shows "stored s \<subseteq> stored s' \<and> (missing \<or> sim_key wb lg \<in> stored s')"
proof -
  have "sg_uid lg \<noteq> []" using assms(3) by (simp add: legal_log_def)
  then obtain x f where x: "serialize lx (log_update_tree wb lg rows) = Inr x" "store_command lx (UpdateObject ''log'' x) = Change (sim_key wb lg) f"
    using log_document(2) [OF assms(1), of wb lg] legal_update [OF assms(2-4)] unfolding log_update_tree_def by blast
  let ?a = "fst (update_object lx ''log'' x s)" and ?s = "snd (update_object lx ''log'' x s)"
  have u: "update_in_store (store_service lx) ''log'' x [] s = (Inr (fst ?a, as_str (supp_part (snd ?a))), ?s)"
    by (simp add: update_in_store_def sbind_def store_service_def lift_res_def split_beta result_pair_def pair_response_def part_or_def)
  then have s': "s' = ?s" "missing = (\<not> is_success (Some (fst ?a)) \<and> log_missing (fst ?a) (as_str (supp_part (snd ?a))))"
    using assms(5) x(1) by (simp_all add: sim_update_log_def sbind_def lift_res_def)
  have "(Some (fst ?a), view_store ?s) = exec (Change (sim_key wb lg) f) (view_store s)"
    using update_refines [of lx "''log''" x s] unfolding x(2) .
  then have "sim_key wb lg \<in> stored ?s \<or> fst ?a = - 411" by (auto simp: stored_def RC_ERROR_NOT_FOUND_def split: option.splits)
  then show ?thesis using objects_kept(2) s' by (auto simp: log_missing_def is_success_def)
qed

section \<open>Seeding and ticking\<close>

lemma same_log: "log_ids lg' = log_ids lg \<Longrightarrow> legal_log lg' = legal_log lg \<and> sim_key wb lg' = sim_key wb lg"
  by (simp add: log_ids_def legal_log_def sim_key_def)

lemma same_wellbore: "wb_ids wb' = wb_ids wb \<Longrightarrow> legal_wellbore wb' = legal_wellbore wb \<and> sim_key wb' lg = sim_key wb lg"
  using same_log [of "wbs_time_log wb'" "wbs_time_log wb"] same_log [of "wbs_depth_log wb'" "wbs_depth_log wb"]
  by (auto simp: wb_ids_def legal_wellbore_def sim_key_def)

lemma ids_update [simp]:
  "wb_ids (wb\<lparr>wbs_time_log := lg\<rparr>) = wb_ids wb \<longleftrightarrow> log_ids lg = log_ids (wbs_time_log wb)"
  "wb_ids (wb\<lparr>wbs_depth_log := lg\<rparr>) = wb_ids wb \<longleftrightarrow> log_ids lg = log_ids (wbs_depth_log wb)"
  "wb_ids (wb\<lparr>wbs_time_log := lg, wbs_depth_log := lg'\<rparr>) = wb_ids wb \<longleftrightarrow>
     log_ids lg = log_ids (wbs_time_log wb) \<and> log_ids lg' = log_ids (wbs_depth_log wb)"
  by (auto simp: wb_ids_def)

text \<open>The keys of the logs of a wellbore.\<close>

definition wb_keys :: "WellboreState \<Rightarrow> obj_key set" where
  "wb_keys wb = {sim_key wb (wbs_time_log wb), sim_key wb (wbs_depth_log wb)}"

lemma same_keys: "wb_ids wb' = wb_ids wb \<Longrightarrow> wb_keys wb' = wb_keys wb"
  by (simp add: wb_ids_def wb_keys_def sim_key_def log_ids_def)

lemma other_document_added:
  assumes "xml_legal tree"
  obtains s' where "add_document lx (store_service lx) ty tree s = (Inr (), s')" "stored s \<subseteq> stored s'"
  using assms add_document_keeps [of s lx ty tree]
  by (cases "add_document lx (store_service lx) ty tree s") (auto simp: add_document_def sbind_def lift_res_def serialize_def)

lemma seed_log_outcome:
  assumes "xml_codec lx" "legal_wellbore wb" "legal_log lg" "seed_log env lx (store_service lx) wb lg g s = (r, lg', g', s')"
  shows "r = Inr () \<and> log_ids lg' = log_ids lg \<and> stored s \<subseteq> stored s' \<and> sim_key wb lg \<in> stored s'"
proof -
  obtain row l1 g1 where e: "emit_row env False lg g = (row, l1, g1)" by (metis prod_cases3)
  note o = emit_row_outcome [OF e]
  have l1: "legal_log l1" "sim_key wb l1 = sim_key wb lg" using same_log o assms(3) by metis+
  then have legal: "xml_legal (log_create_tree wb l1 row)" using legal_create assms(2) o by blast
  obtain ks where ks: "log_create_tree wb l1 row = log_element wb l1 ks" by (simp add: log_create_tree_def Let_def)
  have "sg_uid l1 \<noteq> []" using l1(1) by (simp add: legal_log_def)
  from log_document_added [OF assms(1) legal [unfolded ks] this, of s]
  show ?thesis using assms(4) e o l1(2) add_document_keeps [of s lx "''log''" "log_create_tree wb l1 row"]
    by (auto simp: seed_log_def ks split: prod.splits)
qed

lemma seed_wellbore_outcome:
  assumes "xml_codec lx" "legal_wellbore wb" "seed_wellbore env lx (store_service lx) wb g s = (r, wb', g', s')"
  shows "r = Inr () \<and> wb_ids wb' = wb_ids wb \<and> stored s \<subseteq> stored s' \<and> wb_keys wb \<subseteq> stored s'"
proof -
  obtain s0 where s0: "add_document lx (store_service lx) ''well'' (sim_well_tree (wbs_uid_well wb) (wbs_name_well wb)) s = (Inr (), s0)"
      "stored s \<subseteq> stored s0"
    using other_document_added [OF legal_others(1) [OF assms(2)]] .
  obtain s1 where s1: "add_document lx (store_service lx) ''wellbore''
      (sim_wellbore_tree (wbs_uid_well wb) (wbs_name_well wb) (wbs_uid_wellbore wb) (wbs_name_wellbore wb)) s0 = (Inr (), s1)" "stored s0 \<subseteq> stored s1"
    using other_document_added [OF legal_others(2) [OF assms(2)]] .
  obtain r1 t g1 s2 where t: "seed_log env lx (store_service lx) wb (wbs_time_log wb) g s1 = (r1, t, g1, s2)" by (metis prod_cases4)
  let ?wb1 = "wb\<lparr>wbs_time_log := t\<rparr>"
  have t': "r1 = Inr () \<and> log_ids t = log_ids (wbs_time_log wb) \<and> stored s1 \<subseteq> stored s2 \<and> sim_key wb (wbs_time_log wb) \<in> stored s2"
    using seed_log_outcome [OF assms(1,2) _ t] assms(2) by (simp add: legal_wellbore_def)
  then have wb1: "wb_ids ?wb1 = wb_ids wb" "legal_wellbore ?wb1" using same_wellbore [of ?wb1 wb] assms(2) by simp_all
  obtain r2 d g2 s3 where d: "seed_log env lx (store_service lx) ?wb1 (wbs_depth_log ?wb1) g1 s2 = (r2, d, g2, s3)" by (metis prod_cases4)
  let ?wb2 = "?wb1\<lparr>wbs_depth_log := d\<rparr>"
  have d': "r2 = Inr () \<and> log_ids d = log_ids (wbs_depth_log wb) \<and> stored s2 \<subseteq> stored s3 \<and> sim_key wb (wbs_depth_log wb) \<in> stored s3"
    using seed_log_outcome [OF assms(1) wb1(2) _ d] wb1 same_wellbore [of ?wb1 wb] by (simp add: legal_wellbore_def)
  then have wb2: "wb_ids ?wb2 = wb_ids wb" "legal_wellbore ?wb2"
    using wb1 same_wellbore [of ?wb2 wb] assms(2) by simp_all
  obtain s4 where s4: "add_document lx (store_service lx) ''mudLog'' (mudlog_create_tree ?wb2) s3 = (Inr (), s4)" "stored s3 \<subseteq> stored s4"
    using other_document_added [OF legal_others(3) [OF wb2(2)]] .
  have "seed_wellbore env lx (store_service lx) wb g s = (Inr (), ?wb2, g2, s4)"
    using s0(1) s1(1) t t' d d' s4(1) by (simp add: seed_wellbore_def sbind_def Let_def)
  then have "r = Inr ()" "wb' = ?wb2" "s' = s4" using assms(3) by simp_all
  moreover have "stored s \<subseteq> stored s4" using s0(2) s1(2) t' d' s4(2) by (meson subset_trans)
  moreover have "wb_keys wb \<subseteq> stored s4" using t' d' s4(2) by (auto simp: wb_keys_def)
  ultimately show ?thesis using wb2(1) by simp
qed

lemma seed_fleet_outcome:
  assumes "xml_codec lx" "list_all legal_wellbore fleet" "seed_fleet env lx (store_service lx) fleet g s = (r, fleet', g', s')"
  shows "r = Inr () \<and> map wb_ids fleet' = map wb_ids fleet \<and> stored s \<subseteq> stored s' \<and> (\<forall>wb \<in> set fleet. wb_keys wb \<subseteq> stored s')"
  using assms(2,3)
proof (induction fleet arbitrary: g s r fleet' g' s')
  case (Cons wb wbs)
  obtain r1 wb1 g1 s1 where w: "seed_wellbore env lx (store_service lx) wb g s = (r1, wb1, g1, s1)" by (metis prod_cases4)
  obtain r2 wbs2 g2 s2 where f: "seed_fleet env lx (store_service lx) wbs g1 s1 = (r2, wbs2, g2, s2)" by (metis prod_cases4)
  have o: "r1 = Inr () \<and> wb_ids wb1 = wb_ids wb \<and> stored s \<subseteq> stored s1 \<and> wb_keys wb \<subseteq> stored s1"
    using seed_wellbore_outcome [OF assms(1) _ w] Cons.prems(1) by simp
  moreover have "r2 = Inr () \<and> map wb_ids wbs2 = map wb_ids wbs \<and> stored s1 \<subseteq> stored s2 \<and> (\<forall>wb \<in> set wbs. wb_keys wb \<subseteq> stored s2)"
    using Cons.IH [OF _ f] Cons.prems(1) by simp
  moreover have "r = r2" "fleet' = wb1 # wbs2" "s' = s2" using Cons.prems(2) w f o by simp_all
  ultimately show ?case by auto
qed simp

lemma tick_log_outcome:
  assumes "xml_codec lx" "legal_wellbore wb" "legal_log lg" "tick_log env lx (store_service lx) n wb lg g s = (m, lg', g', s')"
  shows "log_ids lg' = log_ids lg \<and> stored s \<subseteq> stored s' \<and> (m \<or> sim_key wb lg \<in> stored s')"
proof -
  obtain rows l1 g1 where e: "emit_rows env n lg g = (rows, l1, g1)" by (metis prod_cases3)
  note o = emit_rows_outcome [OF e]
  have l1: "legal_log l1" "sim_key wb l1 = sim_key wb lg" using same_log o assms(3) by metis+
  obtain m1 s1 where u: "sim_update_log lx (store_service lx) wb l1 rows s = (m1, s1)" by fastforce
  have "m = m1" "lg' = l1" "s' = s1" using assms(4) e u by (simp_all add: tick_log_def)
  then show ?thesis using update_flags_missing [OF assms(1,2) l1(1) _ u] o l1(2) by simp
qed

lemma tick_wellbore_outcome:
  assumes "xml_codec lx" "legal_wellbore wb" "tick_wellbore env lx (store_service lx) n wb g s = (m, wb', g', s')"
  shows "wb_ids wb' = wb_ids wb \<and> stored s \<subseteq> stored s' \<and> (m \<or> wb_keys wb \<subseteq> stored s')"
proof -
  obtain m1 t g1 s1 where t: "tick_log env lx (store_service lx) n wb (wbs_time_log wb) g s = (m1, t, g1, s1)" by (metis prod_cases4)
  let ?wb1 = "wb\<lparr>wbs_time_log := t\<rparr>"
  have t': "log_ids t = log_ids (wbs_time_log wb) \<and> stored s \<subseteq> stored s1 \<and> (m1 \<or> sim_key wb (wbs_time_log wb) \<in> stored s1)"
    using tick_log_outcome [OF assms(1,2) _ t] assms(2) by (simp add: legal_wellbore_def)
  then have wb1: "wb_ids ?wb1 = wb_ids wb" "legal_wellbore ?wb1" using same_wellbore [of ?wb1 wb] assms(2) by simp_all
  obtain m2 d g2 s2 where d: "tick_log env lx (store_service lx) n ?wb1 (wbs_depth_log ?wb1) g1 s1 = (m2, d, g2, s2)" by (metis prod_cases4)
  have d': "log_ids d = log_ids (wbs_depth_log wb) \<and> stored s1 \<subseteq> stored s2 \<and> (m2 \<or> sim_key wb (wbs_depth_log wb) \<in> stored s2)"
    using tick_log_outcome [OF assms(1) wb1(2) _ d] wb1 same_wellbore [of ?wb1 wb] by (simp add: legal_wellbore_def)
  have "m = (m1 \<or> m2)" "wb' = ?wb1\<lparr>wbs_depth_log := d\<rparr>" "s' = s2" using assms(3) t d by (simp_all add: tick_wellbore_def Let_def)
  then show ?thesis using t' d' wb1(1) by (auto simp: wb_keys_def)
qed

lemma tick_wellbores_outcome:
  assumes "xml_codec lx" "list_all legal_wellbore fleet" "tick_wellbores env lx (store_service lx) burst i fleet g s = (m, fleet', g', s')"
  shows "map wb_ids fleet' = map wb_ids fleet \<and> stored s \<subseteq> stored s' \<and> (m \<or> (\<forall>wb \<in> set fleet. wb_keys wb \<subseteq> stored s'))"
  using assms(2,3)
proof (induction fleet arbitrary: i g s m fleet' g' s')
  case (Cons wb wbs)
  obtain m1 wb1 g1 s1 where w: "tick_wellbore env lx (store_service lx) (if burst = Some i then BURST_ROWS else 1) wb g s = (m1, wb1, g1, s1)"
    by (metis prod_cases4)
  obtain m2 wbs2 g2 s2 where f: "tick_wellbores env lx (store_service lx) burst (Suc i) wbs g1 s1 = (m2, wbs2, g2, s2)" by (metis prod_cases4)
  have "wb_ids wb1 = wb_ids wb \<and> stored s \<subseteq> stored s1 \<and> (m1 \<or> wb_keys wb \<subseteq> stored s1)"
    using tick_wellbore_outcome [OF assms(1) _ w] Cons.prems(1) by simp
  moreover have "map wb_ids wbs2 = map wb_ids wbs \<and> stored s1 \<subseteq> stored s2 \<and> (m2 \<or> (\<forall>wb \<in> set wbs. wb_keys wb \<subseteq> stored s2))"
    using Cons.IH [OF _ f] Cons.prems(1) by simp
  moreover have "m = (m1 \<or> m2)" "fleet' = wb1 # wbs2" "s' = s2" using Cons.prems(2) w f by simp_all
  ultimately show ?case by auto
qed simp

section \<open>The loop recovers\<close>

lemma fleet_member:
  assumes "map wb_ids fleet' = map wb_ids fleet" "wb' \<in> set fleet'"
  obtains wb where "wb \<in> set fleet" "wb_ids wb' = wb_ids wb"
proof -
  have "wb_ids ` set fleet' = wb_ids ` set fleet" using assms(1) by (metis list.set_map)
  then have "wb_ids wb' \<in> wb_ids ` set fleet" using assms(2) by blast
  then show ?thesis using that by blast
qed

lemma legal_fleet: "list_all legal_wellbore fleet \<Longrightarrow> map wb_ids fleet' = map wb_ids fleet \<Longrightarrow> list_all legal_wellbore fleet'"
proof -
  assume a: "list_all legal_wellbore fleet" "map wb_ids fleet' = map wb_ids fleet"
  have "legal_wellbore wb'" if m: "wb' \<in> set fleet'" for wb'
  proof -
    obtain wb where "wb \<in> set fleet" "wb_ids wb' = wb_ids wb" using fleet_member [OF a(2) m] .
    then show ?thesis using a(1) same_wellbore [of wb' wb] by (simp add: list_all_iff)
  qed
  then show ?thesis by (simp add: list_all_iff)
qed

lemma fleet_keys: "map wb_ids fleet' = map wb_ids fleet \<Longrightarrow> (\<forall>wb \<in> set fleet. wb_keys wb \<subseteq> S) \<Longrightarrow> (\<forall>wb \<in> set fleet'. wb_keys wb \<subseteq> S)"
proof
  fix wb' assume a: "map wb_ids fleet' = map wb_ids fleet" "\<forall>wb \<in> set fleet. wb_keys wb \<subseteq> S" "wb' \<in> set fleet'"
  obtain wb where "wb \<in> set fleet" "wb_ids wb' = wb_ids wb" using fleet_member [OF a(1,3)] .
  then show "wb_keys wb' \<subseteq> S" using a(2) same_keys [of wb' wb] by simp
qed

text \<open>After an iteration every log of the fleet is stored, whatever the store held before.\<close>

lemma iteration_recovers:
  assumes "xml_codec lx" "list_all legal_wellbore fleet" "rig_iteration env lx (store_service lx) n (fleet, g, s) = (fleet', g', s')"
  shows "map wb_ids fleet' = map wb_ids fleet \<and> stored s \<subseteq> stored s' \<and> (\<forall>wb \<in> set fleet'. wb_keys wb \<subseteq> stored s')"
proof (cases "fleet = [] \<and> n \<noteq> 0 \<and> n mod BURST_EVERY_TICKS = 0")
  case True
  then show ?thesis using assms(3) by (simp add: rig_iteration_def sim_tick_def)
next
  case False
  let ?b = "if n \<noteq> 0 \<and> n mod BURST_EVERY_TICKS = 0 then Some (n mod length fleet) else None"
  obtain m f1 g1 s1 where t: "tick_wellbores env lx (store_service lx) ?b 0 fleet g s = (m, f1, g1, s1)" by (metis prod_cases4)
  have o: "map wb_ids f1 = map wb_ids fleet" "stored s \<subseteq> stored s1" "m \<or> (\<forall>wb \<in> set fleet. wb_keys wb \<subseteq> stored s1)"
    using tick_wellbores_outcome [OF assms(1,2) t] by simp_all
  have tick: "sim_tick env lx (store_service lx) fleet n g s = (Inr m, f1, g1, s1)"
    using False t unfolding sim_tick_def Let_def by auto
  show ?thesis
  proof (cases m)
    case True
    obtain r f2 g2 s2 where sd: "seed_fleet env lx (store_service lx) f1 g1 s1 = (r, f2, g2, s2)" by (metis prod_cases4)
    have so: "map wb_ids f2 = map wb_ids f1" "stored s1 \<subseteq> stored s2" "\<forall>wb \<in> set f1. wb_keys wb \<subseteq> stored s2"
      using seed_fleet_outcome [OF assms(1) legal_fleet [OF assms(2) o(1)] sd] by simp_all
    have "fleet' = f2" "s' = s2" using assms(3) tick True sd by (simp_all add: rig_iteration_def)
    then show ?thesis using o so fleet_keys [OF so(1,3)] by auto
  next
    case m: False
    then have "fleet' = f1" "s' = s1" using assms(3) tick by (simp_all add: rig_iteration_def)
    then show ?thesis using o m fleet_keys [OF o(1)] by auto
  qed
qed

lemma legal_built: "legal_wellbore (fst (build_wellbore env i g))" "wbs_uid_well (fst (build_wellbore env i g)) = ''sim-well-'' @ pad 3 (int i)"
  by (simp_all add: build_wellbore_def new_log_def Let_def split_beta legal_wellbore_def legal_log_def legal_text_def TIME_CURVES_def
      DEPTH_CURVES_def TIME_INDEX_def DEPTH_INDEX_def legal_char_def)

lemma built_fleet: "list_all legal_wellbore (fst (build_wellbores env is g)) \<and>
    map wbs_uid_well (fst (build_wellbores env is g)) = map (\<lambda>i. ''sim-well-'' @ pad 3 (int i)) is"
  by (induction "is" arbitrary: g) (auto simp: split_beta Let_def legal_built)

lemma loop_recovers:
  assumes "xml_codec lx" "list_all legal_wellbore fleet" "\<forall>wb \<in> set fleet. wb_keys wb \<subseteq> stored s"
    "rig_loop env lx (store_service lx) others n (fleet, g, s) = (fleet', g', s')"
  shows "map wb_ids fleet' = map wb_ids fleet \<and> (\<forall>wb \<in> set fleet'. wb_keys wb \<subseteq> stored s')"
  using assms(4)
proof (induction n arbitrary: fleet' g' s')
  case 0
  then show ?case using assms(3) by simp
next
  case (Suc n)
  obtain f1 g1 s1 where l: "rig_loop env lx (store_service lx) others n (fleet, g, s) = (f1, g1, s1)" by (metis prod_cases3)
  have ids: "map wb_ids f1 = map wb_ids fleet" using Suc.IH [OF l] by simp
  have "rig_iteration env lx (store_service lx) (Suc n) (f1, g1, others n s1) = (fleet', g', s')" using Suc.prems l by simp
  from iteration_recovers [OF assms(1) legal_fleet [OF assms(2) ids] this] ids show ?case by simp
qed

text \<open>
  C8. The feed recovers. The rig starts with any store, and after any number of iterations, whatever other clients
  did to the store between them, a restart that emptied it included, the fleet has its \<open>n\<close> wells and the time
  log and the depth log of each of them are in the store; the start never fails.
\<close>

theorem rig_recovers:
  assumes "xml_codec lx"
  shows "case rig_main env lx (store_service lx) boot others wells n s of
      Inl e \<Rightarrow> False
    | Inr (fleet, g, s') \<Rightarrow> map wbs_uid_well fleet = map (\<lambda>i. ''sim-well-'' @ pad 3 (int i)) [1..<wells + 1] \<and>
        (\<forall>wb \<in> set fleet. \<forall>lg \<in> set (wbs_logs wb). view_store s' (sim_key wb lg) \<noteq> None)"
proof -
  obtain f0 g0 where b: "build_fleet env wells (0, 0) = (f0, g0)" by (rule prod.exhaust)
  then have f0: "list_all legal_wellbore f0" "map wbs_uid_well f0 = map (\<lambda>i. ''sim-well-'' @ pad 3 (int i)) [1..<wells + 1]"
    using built_fleet [of env "[1..<wells + 1]" "(0, 0)"] by (simp_all add: build_fleet_def del: upt_Suc)
  let ?s1 = "wait_for_server (store_service lx) boot 60 s"
  obtain r f1 g1 s1 where sd: "seed_fleet env lx (store_service lx) f0 g0 ?s1 = (r, f1, g1, s1)" by (metis prod_cases4)
  have so: "r = Inr ()" "map wb_ids f1 = map wb_ids f0" "\<forall>wb \<in> set f0. wb_keys wb \<subseteq> stored s1"
    using seed_fleet_outcome [OF assms f0(1) sd] by simp_all
  obtain f2 g2 s2 where l: "rig_loop env lx (store_service lx) others n (f1, g1, s1) = (f2, g2, s2)" by (metis prod_cases3)
  have lo: "map wb_ids f2 = map wb_ids f0" "\<forall>wb \<in> set f2. wb_keys wb \<subseteq> stored s2"
    using loop_recovers [OF assms legal_fleet [OF f0(1) so(2)] fleet_keys [OF so(2,3)] l] unfolding so(2) by blast+
  have uids: "map wbs_uid_well f2 = map wbs_uid_well f0" using arg_cong [OF lo(1), of "map fst"] by (simp add: wb_ids_def o_def)
  have "rig_main env lx (store_service lx) boot others wells n s = Inr (f2, g2, s2)" using b sd so(1) l by (simp add: rig_main_def)
  then show ?thesis using uids f0(2) lo(2) by (auto simp: wb_keys_def wbs_logs_def stored_def)
qed

text \<open>A rig of two wells, with a store that is emptied before every iteration.\<close>

definition ex_rig :: sim_env where
  "ex_rig = \<lparr>sim_random = (\<lambda>i. Fin (1 / 2)), sim_sin = (\<lambda>x. Fin 0), sim_tau = Fin 6, sim_clock = (\<lambda>i. int i * 5000000), sim_interval = Fin 5\<rparr>"

theorem rig_recovers_witness:
  "case rig_main ex_rig ref_lxml (store_service ref_lxml) (\<lambda>i s. s) (\<lambda>i s. new_store) 2 3 new_store of
     Inl e \<Rightarrow> False
   | Inr (fleet, g, s) \<Rightarrow> length fleet = 2 \<and> (\<forall>wb \<in> set fleet. view_store s (sim_key wb (wbs_time_log wb)) \<noteq> None)"
proof -
  let ?r = "rig_main ex_rig ref_lxml (store_service ref_lxml) (\<lambda>i s. s) (\<lambda>i s. new_store) 2 3 new_store"
  note all = rig_recovers [OF ref_lxml_codec, where env = ex_rig and boot = "\<lambda>i s. s" and others = "\<lambda>i s. new_store" and wells = 2 and n = 3 and s = new_store]
  show ?thesis
  proof (cases ?r)
    case (Inl e)
    then show ?thesis using all by (simp only: sum.case)
  next
    case (Inr r)
    obtain fleet g s where r: "r = (fleet, g, s)" by (cases r)
    from all have "map wbs_uid_well fleet = map (\<lambda>i. ''sim-well-'' @ pad 3 (int i)) [1..<2 + 1]"
        "\<forall>wb \<in> set fleet. \<forall>lg \<in> set (wbs_logs wb). view_store s (sim_key wb lg) \<noteq> None"
      unfolding Inr r sum.case prod.case by blast+
    note keys = this
    have "length (map wbs_uid_well fleet) = length [1..<2 + 1 :: nat]" unfolding keys(1) by (rule length_map)
    then have "length fleet = 2" by simp
    moreover have "\<forall>wb \<in> set fleet. view_store s (sim_key wb (wbs_time_log wb)) \<noteq> None" using keys(2) by (simp add: wbs_logs_def)
    ultimately show ?thesis unfolding Inr r by (simp only: sum.case prod.case simp_thms)
  qed
qed

end
