(* ===== verification/SoapWire.thy ===== *)
theory SoapWire
  imports Ingest MockServer
begin

text \<open>
  The client of \<^verbatim>\<open>backend/app/witsml/client.py\<close> and the endpoint of \<^verbatim>\<open>mockstore/server.py\<close>, put together over SOAP.
  zeep is a parameter: how it writes the envelope of a call, the SOAPAction it sends and how it reads an answer. What is
  assumed of it is \<open>zeep_ok\<close>; the result is that a client over SOAP sees what \<open>store_service\<close> says, the service that the
  theorems about the client and the store are stated with.
\<close>

section \<open>The client over SOAP\<close>

record zeep =
  zp_request :: "string \<Rightarrow> (string \<times> string) list \<Rightarrow> string"
  zp_action :: "string \<Rightarrow> string option"
  zp_reply :: "string \<Rightarrow> nat \<times> string \<Rightarrow> response res"
  zp_str :: "response \<Rightarrow> string"

text \<open>A call posts the envelope; an exception that leaves the route is an answer with status 500 and no envelope.\<close>

definition soap_call :: "zeep \<Rightarrow> lxml \<Rightarrow> string \<Rightarrow> (string \<times> string) list \<Rightarrow> MockStore \<Rightarrow> response res \<times> MockStore" where
  "soap_call zp lx op parts s = (case post_soap lx (zp_request zp op parts) (zp_action zp op) s of
      (Inl e, s') \<Rightarrow> (zp_reply zp op (500, ''Internal Server Error''), s')
    | (Inr answer, s') \<Rightarrow> (zp_reply zp op answer, s'))"

definition soap_service :: "zeep \<Rightarrow> lxml \<Rightarrow> MockStore service" where
  "soap_service zp lx = \<lparr>
     svc_get_version = soap_call zp lx ''WMLS_GetVersion'' [],
     svc_get_cap = (\<lambda>opts. soap_call zp lx ''WMLS_GetCap'' [(''OptionsIn'', opts)]),
     svc_get_from_store = (\<lambda>ty q opts cap. soap_call zp lx ''WMLS_GetFromStore''
        [(''WMLtypeIn'', ty), (''QueryIn'', q), (''OptionsIn'', opts), (''CapabilitiesIn'', cap)]),
     svc_add_to_store = (\<lambda>ty x opts. soap_call zp lx ''WMLS_AddToStore''
        [(''WMLtypeIn'', ty), (''XMLin'', x), (''OptionsIn'', opts), (''CapabilitiesIn'', [])]),
     svc_update_in_store = (\<lambda>ty x opts. soap_call zp lx ''WMLS_UpdateInStore''
        [(''WMLtypeIn'', ty), (''XMLin'', x), (''OptionsIn'', opts), (''CapabilitiesIn'', [])]),
     svc_delete_from_store = (\<lambda>ty q opts. soap_call zp lx ''WMLS_DeleteFromStore''
        [(''WMLtypeIn'', ty), (''QueryIn'', q), (''OptionsIn'', opts), (''CapabilitiesIn'', [])]),
     svc_get_base_msg = (\<lambda>i. soap_call zp lx ''WMLS_GetBaseMsg'' [(''ReturnValueIn'', show_int i)]),
     svc_str = zp_str zp\<rparr>"

section \<open>What is assumed of the libraries\<close>

definition legal :: "string \<Rightarrow> bool" where
  "legal s = list_all legal_char s"

text \<open>The value of an output part by its type in the WSDL: the code an integer, texts as they are, an empty one perhaps as None.\<close>

definition part_read :: "string \<Rightarrow> string \<Rightarrow> pyobj \<Rightarrow> bool" where
  "part_read name t v = (if name = ''Result'' then (\<forall>i. int_of_string t = Some i \<longrightarrow> v = OInt i) else v = OStr t \<or> (t = [] \<and> v = ONone))"

definition reply_read :: "(string \<times> string) list \<Rightarrow> response \<Rightarrow> bool" where
  "reply_read parts r = (case r of
      RObj ps \<Rightarrow> (\<forall>name. case map_of parts name of
          Some t \<Rightarrow> (\<exists>v. map_of ps name = Some v \<and> part_read name t v)
        | None \<Rightarrow> map_of ps name = None \<or> map_of ps name = Some ONone)
    | _ \<Rightarrow> False)"

text \<open>
  A call with legal texts arrives as an element of the operation's name with its parts as children. The parts of an answer are
  read by name, the only part of an answer as its text, and an answer with status 500 raises.
\<close>

definition zeep_ok :: "lxml \<Rightarrow> zeep \<Rightarrow> bool" where
  "zeep_ok lx zp =
     ((\<forall>op parts. op \<noteq> [] \<longrightarrow> distinct (map fst parts) \<longrightarrow> list_all (\<lambda>p. legal (snd p)) parts \<longrightarrow>
        (\<exists>env n. lx_strict lx (zp_request zp op parts) = Inr (Some env) \<and> find_body_op env = Some n \<and> el_local n = op \<and>
           (\<forall>(name, t) \<in> set parts. part_text n name = t))) \<and>
      (\<forall>op parts n. 1 < length parts \<longrightarrow> distinct (map fst parts) \<longrightarrow> response_el op parts = Inr n \<longrightarrow>
        (\<exists>r. zp_reply zp op (200, lx_tostring lx (envelope_of [n])) = Inr r \<and> reply_read parts r)) \<and>
      (\<forall>op t n. t \<noteq> [] \<longrightarrow> response_el op [(''Result'', t)] = Inr n \<longrightarrow>
        zp_reply zp op (200, lx_tostring lx (envelope_of [n])) = Inr (RStr t)) \<and>
      (\<forall>op content. \<exists>e. zp_reply zp op (500, content) = Inl e))"

text \<open>lxml reads and writes only legal characters, and the texts of its exceptions are legal.\<close>

definition lxml_legal :: "lxml \<Rightarrow> bool" where
  "lxml_legal lx = ((\<forall>n. xml_legal n \<longrightarrow> legal (lx_tostring lx n)) \<and> (\<forall>x n. lx_recover lx x = Inr (Some n) \<longrightarrow> xml_legal n) \<and>
     (\<forall>e. legal (lx_message lx e)))"

section \<open>The messages of the store are legal\<close>

lemma legal_append [simp]: "legal (s @ t) \<longleftrightarrow> legal s \<and> legal t"
  by (simp add: legal_def)

lemma legal_lower: "legal s \<Longrightarrow> legal (lower s)"
proof -
  have "legal_char (lower_char c)" if "legal_char c" for c
    using that by (auto simp: legal_char_def lower_char_def Let_def)
  then show "legal s \<Longrightarrow> legal (lower s)" by (simp add: legal_def lower_def list_all_iff)
qed

lemma legal_strip: "legal s \<Longrightarrow> legal (strip s)"
  using set_strip by (fastforce simp: legal_def list_all_iff)

lemma legal_show [simp]: "legal (show_int i)"
  using digits_show_pos legal_digits by (simp add: legal_def show_int_def legal_char_def)

lemma legal_attr: "xml_legal n \<Longrightarrow> legal (or_str (attr_get n k) [])"
proof (cases "attr_get n k")
  case (Some v)
  assume "xml_legal n"
  with Some have "legal v" by (cases n) (fastforce simp: legal_def list_all_iff dest: map_of_SomeD)+
  with Some show ?thesis by (simp add: or_str_def or_none_def legal_def)
qed (simp add: or_str_def or_none_def legal_def)

lemma legal_first: "xml_legal n \<Longrightarrow> xml_first n name = Some m \<Longrightarrow> xml_legal m"
  by (cases n) (auto simp: xml_first_def list_all_iff dest: find_first_Some)

lemma legal_root: "xml_legal n \<Longrightarrow> root_or_first n name = Some m \<Longrightarrow> xml_legal m"
  using legal_first by (auto simp: root_or_first_def split: option.splits if_splits)

lemma legal_soap_literals [simp]: "legal []" "legal ''no <well> element in XMLin''" "legal ''no <wellbore> element in XMLin''"
  "legal ''no <log> element in XMLin''" "legal ''no <mudLog> element in XMLin''" "legal ''<well> missing uid''"
  "legal ''<wellbore> missing uid''" "legal ''<log> missing uid''" "legal ''<mudLog> missing uid''" "legal ''well uid ''"
  "legal ''wellbore uid ''" "legal ''log uid ''" "legal ''mudLog uid ''" "legal [CHR 0x27]" "legal '' already exists''"
  "legal ''unsupported WMLtypeIn ''" "legal ''malformed XMLin: ''" "legal ''empty XMLin''" "legal '' uid ''" "legal '' not found for update''"
  "legal ''log''" "legal ''mudLog''" "legal ''nothing matched the delete query''" "legal ''malformed QueryIn: ''"
  "legal ''QueryIn has no <log> element''" "legal ''1.4.1.1''" "legal ''1''"
  by code_simp+

lemma or_str_simps [simp]: "or_str None d = d" "or_str (Some s) [] = s"
  by (simp_all add: or_str_def or_none_def)

lemma legal_quoted [simp]: "legal (CHR 0x27 # s) \<longleftrightarrow> legal s"
  by (simp add: legal_def legal_char_def)

abbreviation legal_answer :: "answer \<Rightarrow> bool" where
  "legal_answer a \<equiv> legal (or_str (snd a) [])"

lemma legal_well_answer: "xml_legal rt \<Longrightarrow> legal_answer (fst (add_well rt s))"
  using legal_attr legal_root [of rt "''well''"] by (auto simp: add_well_def Let_def split: option.splits simp del: append_Cons)

lemma legal_wellbore_answer: "xml_legal rt \<Longrightarrow> legal_answer (fst (add_wellbore rt s))"
  using legal_attr legal_root [of rt "''wellbore''"] by (auto simp: add_wellbore_def Let_def split: option.splits simp del: append_Cons)

lemma legal_log_answer: "xml_legal rt \<Longrightarrow> legal_answer (fst (add_log rt s)) \<and> legal_answer (fst (update_log rt s))"
  using legal_attr legal_root [of rt "''log''"]
  by (auto simp: add_log_def update_log_def not_found_def Let_def split: option.splits prod.splits simp del: append_Cons)

lemma legal_mudlog_answer: "xml_legal rt \<Longrightarrow> legal_answer (fst (add_mudlog rt s)) \<and> legal_answer (fst (update_mudlog rt s))"
  using legal_attr legal_root [of rt "''mudLog''"]
  by (auto simp: add_mudlog_def update_mudlog_def not_found_def Let_def split: option.splits simp del: append_Cons)

lemma add_answer_legal:
  assumes "lxml_legal lx" "legal ty"
  shows "legal_answer (fst (add_object lx ty x s))" "legal_answer (fst (update_object lx ty x s))"
proof -
  have ty: "legal (unsupported (lower (strip ty)))" using legal_lower [OF legal_strip [OF assms(2)]] by (simp add: unsupported_def del: append_Cons)
  have lx: "legal (lx_message lx e)" "lx_recover lx x = Inr (Some n) \<Longrightarrow> xml_legal n" for e n
    using assms(1) by (simp_all add: lxml_legal_def)
  show "legal_answer (fst (add_object lx ty x s))"
    using ty lx legal_well_answer legal_wellbore_answer legal_log_answer legal_mudlog_answer
    by (simp add: add_object_def Let_def split: sum.splits option.splits del: append_Cons)
  show "legal_answer (fst (update_object lx ty x s))"
    using ty lx legal_log_answer legal_mudlog_answer
    by (simp add: update_object_def Let_def split: sum.splits option.splits del: append_Cons)
qed

lemma delete_answer_legal:
  assumes "lxml_legal lx" "delete_object lx ty x s = Inr (a, s')"
  shows "legal_answer a"
proof -
  have ops: "snd (fst (delete_well rt s)) \<in> {None, snd nothing_matched}" "snd (fst (delete_wellbore rt s)) \<in> {None, snd nothing_matched}"
      "snd (fst (delete_log rt s)) \<in> {None, snd nothing_matched}" "snd (fst (delete_mudlog rt s)) \<in> {None, snd nothing_matched}" for rt
    by (simp_all add: delete_well_def delete_wellbore_def delete_log_def delete_mudlog_def Let_def split: option.splits)
  have "snd a \<in> {None, snd nothing_matched} \<or> (\<exists>e. snd a = Some (''malformed QueryIn: '' @ lx_message lx e))"
  proof (cases "lx_recover lx x")
    case (Inl e)
    then show ?thesis using assms(2) by (auto simp: delete_object_def Let_def)
  next
    case (Inr r)
    then show ?thesis
    proof (cases r)
      case (Some rt)
      have "(a, s') \<in> {delete_well rt s, delete_wellbore rt s, delete_log rt s, delete_mudlog rt s, (nothing_matched, s)}"
        using assms(2) Inr Some by (simp add: delete_object_def Let_def split: if_splits)
      then show ?thesis using ops [of rt] by (metis empty_iff fst_conv insertCI insertE)
    qed (use assms(2) in \<open>simp add: delete_object_def Let_def split: if_splits\<close>)
  qed
  then show ?thesis using assms(1) by (auto simp: nothing_matched_def lxml_legal_def simp del: append_Cons)
qed

lemma serialized_legal: "lxml_legal lx \<Longrightarrow> serialize lx n = Inr x \<Longrightarrow> legal x"
  by (auto simp: serialize_def lxml_legal_def split: if_splits)

lemma query_answer_legal:
  assumes "lxml_legal lx" "legal ty" "store_query lx ty q opts s = Inr (rc, x, supp)"
  shows "legal x \<and> legal (or_str supp [])"
proof -
  have ty: "legal (unsupported (lower (strip ty)))" using legal_lower [OF legal_strip [OF assms(2)]] by (simp add: unsupported_def del: append_Cons)
  have wells: "query_wells lx rt s = Inr (rc, x, supp) \<or> query_wellbores lx rt s = Inr (rc, x, supp) \<or>
      query_mudlogs lx rt o' s = Inr (rc, x, supp) \<Longrightarrow> legal x \<and> supp = None" for rt o'
    using serialized_legal [OF assms(1)]
    by (auto simp: query_wells_def query_wellbores_def query_mudlogs_def Let_def rbind_eq_Inr split: prod.splits)
  have logs: "query_logs lx rt o' s = Inr (rc, x, supp) \<Longrightarrow> legal x \<and> legal (or_str supp [])" for rt o'
    using serialized_legal [OF assms(1)]
    by (auto simp: query_logs_def rbind_eq_Inr split: option.splits)
  show ?thesis
  proof (cases "lx_recover lx q")
    case (Inl e)
    then show ?thesis using assms(1,3) by (auto simp: store_query_def Let_def lxml_legal_def simp del: append_Cons)
  next
    case (Inr r)
    show ?thesis
    proof (cases r)
      case None
      then show ?thesis using assms(3) Inr ty by (auto simp: store_query_def Let_def split: if_splits simp del: append_Cons)
    next
      case (Some rt)
      have "query_wells lx rt s = Inr (rc, x, supp) \<or> query_wellbores lx rt s = Inr (rc, x, supp) \<or>
          query_logs lx rt (parse_options opts) s = Inr (rc, x, supp) \<or> query_mudlogs lx rt (parse_options opts) s = Inr (rc, x, supp) \<or>
          (x = [] \<and> supp = Some (unsupported (lower (strip ty))))"
        using assms(3) Inr Some by (simp add: store_query_def Let_def split: if_splits)
      then show ?thesis using wells logs ty by (metis legal_soap_literals(1) or_str_simps)
    qed
  qed
qed

section \<open>Calls\<close>

lemma response_legal: "response_el op parts = Inr n \<Longrightarrow> xml_legal n"
  by (auto simp: response_el_def wmls_def list_all_iff split: if_splits)

lemma response_made: "list_all (\<lambda>p. legal (snd p)) parts \<Longrightarrow> \<exists>n. response_el op parts = Inr n"
  by (simp add: response_el_def legal_def)

lemma envelope_legal: "xml_legal (envelope_of [n]) \<longleftrightarrow> xml_legal n"
  by (simp add: envelope_of_def soap_el_def)

text \<open>A call is the dispatch of its operation on an element with its parts.\<close>

lemma soap_call_dispatch:
  assumes "zeep_ok lx zp" "op \<noteq> []" "distinct (map fst parts)" "list_all (\<lambda>p. legal (snd p)) parts"
  obtains n where "\<forall>(name, t) \<in> set parts. part_text n name = t"
    "\<And>e s'. dispatch lx op n s = (Inl e, s') \<Longrightarrow> \<exists>e'. soap_call zp lx op parts s = (Inl e', s')"
    "\<And>resp s'. dispatch lx op n s = (Inr resp, s') \<Longrightarrow> xml_legal resp \<Longrightarrow>
       soap_call zp lx op parts s = (zp_reply zp op (200, lx_tostring lx (envelope_of [resp])), s')"
proof -
  obtain env n where n: "lx_strict lx (zp_request zp op parts) = Inr (Some env)" "find_body_op env = Some n" "el_local n = op"
      "\<forall>(name, t) \<in> set parts. part_text n name = t"
    using assms unfolding zeep_ok_def by metis
  have bad: "\<exists>e. zp_reply zp op (500, c) = Inl e" for c using assms(1) unfolding zeep_ok_def by blast
  have name: "or_none (Some op) = Some op" using assms(2) by (simp add: or_none_def)
  have post: "post_soap lx (zp_request zp op parts) (zp_action zp op) s =
      (case dispatch lx op n s of
         (Inl e, s') \<Rightarrow> (http lx 500 (fault_tree (op @ '' failed: '' @ lx_message lx e)), s')
       | (Inr resp, s') \<Rightarrow> (http lx 200 (envelope_of [resp]), s'))"
    using assms(2) by (simp add: post_soap_def n(1-3) name del: append_Cons)
  show ?thesis
  proof (rule that [OF n(4)])
    fix e s' assume "dispatch lx op n s = (Inl e, s')"
    then show "\<exists>e'. soap_call zp lx op parts s = (Inl e', s')"
      using bad by (simp add: soap_call_def post http_def serialize_def)
  next
    fix resp s' assume "dispatch lx op n s = (Inr resp, s')" "xml_legal resp"
    then show "soap_call zp lx op parts s = (zp_reply zp op (200, lx_tostring lx (envelope_of [resp])), s')"
      by (simp add: soap_call_def post http_def serialize_def envelope_legal)
  qed
qed

lemma read_parts:
  assumes "reply_read parts r" "map_of parts name = Some t"
  shows "if name = ''Result'' then (\<forall>i. int_of_string t = Some i \<longrightarrow> part r name = OInt i)
    else part r name = OStr t \<or> (t = [] \<and> part r name = ONone)"
  using assms by (auto simp: reply_read_def part_def part_read_def dest!: spec [of _ name] split: response.splits)

lemma read_absent: "reply_read parts r \<Longrightarrow> map_of parts name = None \<Longrightarrow> part r name = ONone"
  by (auto simp: reply_read_def part_def dest!: spec [of _ name] split: response.splits)

lemma read_object: "reply_read parts r \<Longrightarrow> \<exists>ps. r = RObj ps"
  by (cases r) (simp_all add: reply_read_def)

text \<open>An answer is a code and texts, where None and the empty text are the same.\<close>

definition same_text :: "string option \<Rightarrow> string option \<Rightarrow> bool" where
  "same_text a b = (or_none a = or_none b)"

lemma read_pair:
  assumes "reply_read [(''Result'', show_int rc), (''SuppMsgOut'', t)] r"
  shows "\<exists>supp. result_pair r = (Some rc, supp) \<and> same_text supp (Some t)"
proof -
  obtain ps where r: "r = RObj ps" using read_object [OF assms] by blast
  have "map_of ps ''Result'' = Some (OInt rc)" "map_of ps ''SuppMsgOut'' = Some (OStr t) \<or> (t = [] \<and> map_of ps ''SuppMsgOut'' = Some ONone)"
    using assms unfolding r reply_read_def
    by (auto simp: part_read_def dest: spec [of _ "''Result''"] spec [of _ "''SuppMsgOut''"])
  then show ?thesis by (auto simp: r result_pair_def part_or_def same_text_def or_none_def)
qed

lemma read_triple:
  assumes "reply_read [(''Result'', show_int rc), (out, x), (''SuppMsgOut'', t)] r" "out \<in> {''XMLout'', ''CapabilitiesOut''}"
  shows "\<exists>x' supp. result_triple r = (Some rc, x', supp) \<and> same_text x' (Some x) \<and> same_text supp (Some t)"
proof -
  obtain ps where r: "r = RObj ps" using read_object [OF assms(1)] by blast
  note p = read_parts [OF assms(1)] read_absent [OF assms(1)]
  have parts: "part r ''Result'' = OInt rc" "part r out = OStr x \<or> (x = [] \<and> part r out = ONone)"
      "part r ''SuppMsgOut'' = OStr t \<or> (t = [] \<and> part r ''SuppMsgOut'' = ONone)" "part r ''suppMsgOut'' = ONone"
      "out = ''XMLout'' \<Longrightarrow> part r ''CapabilitiesOut'' = ONone" "out = ''CapabilitiesOut'' \<Longrightarrow> part r ''XMLout'' = ONone"
      "part r ''xmlOut'' = ONone" "part r ''capabilitiesOut'' = ONone"
    using p(1) [of "''Result''"] p(1) [of out] p(1) [of "''SuppMsgOut''"] p(2) [of "''suppMsgOut''"] p(2) [of "''CapabilitiesOut''"]
      p(2) [of "''XMLout''"] p(2) [of "''xmlOut''"] p(2) [of "''capabilitiesOut''"] assms(2) by auto
  then show ?thesis using assms(2) unfolding r by (auto simp: result_triple_def same_text_def or_none_def)
qed

lemma soap_reply:
  assumes "zeep_ok lx zp" "op \<noteq> []" "distinct (map fst parts)" "list_all (\<lambda>p. legal (snd p)) parts"
    "\<And>n. \<forall>(name, t) \<in> set parts. part_text n name = t \<Longrightarrow> dispatch lx op n s = (response_el op out, s')"
    "1 < length out" "distinct (map fst out)" "list_all (\<lambda>p. legal (snd p)) out"
  shows "\<exists>r. soap_call zp lx op parts s = (Inr r, s') \<and> reply_read out r"
proof -
  obtain n where n: "\<forall>(name, t) \<in> set parts. part_text n name = t"
      "\<And>resp s'. dispatch lx op n s = (Inr resp, s') \<Longrightarrow> xml_legal resp \<Longrightarrow>
         soap_call zp lx op parts s = (zp_reply zp op (200, lx_tostring lx (envelope_of [resp])), s')"
    by (rule soap_call_dispatch [OF assms(1-4), of s]) blast
  obtain resp where resp: "response_el op out = Inr resp" using response_made [OF assms(8)] by blast
  then have "soap_call zp lx op parts s = (zp_reply zp op (200, lx_tostring lx (envelope_of [resp])), s')"
    using n(2) assms(5) [OF n(1)] response_legal by simp
  moreover have "\<exists>r. zp_reply zp op (200, lx_tostring lx (envelope_of [resp])) = Inr r \<and> reply_read out r"
    using assms(1,6,7) resp unfolding zeep_ok_def by blast
  ultimately show ?thesis by auto
qed

lemma soap_failure:
  assumes "zeep_ok lx zp" "op \<noteq> []" "distinct (map fst parts)" "list_all (\<lambda>p. legal (snd p)) parts"
    "\<And>n. \<forall>(name, t) \<in> set parts. part_text n name = t \<Longrightarrow> dispatch lx op n s = (Inl e, s')"
  shows "\<exists>e'. soap_call zp lx op parts s = (Inl e', s')"
proof -
  obtain n where "\<forall>(name, t) \<in> set parts. part_text n name = t"
      "\<And>e s'. dispatch lx op n s = (Inl e, s') \<Longrightarrow> \<exists>e'. soap_call zp lx op parts s = (Inl e', s')"
    by (rule soap_call_dispatch [OF assms(1-4), of s]) blast
  then show ?thesis using assms(5) by blast
qed

text \<open>Two outcomes agree when both raise or both answer alike, and leave the store alike.\<close>

definition agree :: "('a \<Rightarrow> 'a \<Rightarrow> bool) \<Rightarrow> 'a res \<times> 's \<Rightarrow> 'a res \<times> 's \<Rightarrow> bool" where
  "agree same x y = (snd x = snd y \<and>
     (case (fst x, fst y) of (Inr a, Inr b) \<Rightarrow> same a b | (Inl e, Inl e') \<Rightarrow> True | _ \<Rightarrow> False))"

definition same_pair :: "int \<times> string option \<Rightarrow> int \<times> string option \<Rightarrow> bool" where
  "same_pair a b = (fst a = fst b \<and> same_text (snd a) (snd b))"

definition same_triple :: "int \<times> string option \<times> string option \<Rightarrow> int \<times> string option \<times> string option \<Rightarrow> bool" where
  "same_triple a b = (fst a = fst b \<and> same_text (fst (snd a)) (fst (snd b)) \<and> same_text (snd (snd a)) (snd (snd b)))"

lemma pair_agrees:
  assumes "soap_call zp lx op parts s = (Inr r, s')" "reply_read [(''Result'', show_int (fst a)), (''SuppMsgOut'', or_str (snd a) [])] r"
    "svc s = soap_call zp lx op parts s" "svc' s = (Inr (pair_response a), s')"
  shows "agree same_pair (sbind svc (\<lambda>r. let (result, supp) = result_pair r in lift_res (Inr (or_zero result, supp))) s)
    (sbind svc' (\<lambda>r. let (result, supp) = result_pair r in lift_res (Inr (or_zero result, supp))) s)"
proof -
  obtain supp where "result_pair r = (Some (fst a), supp)" "same_text supp (Some (or_str (snd a) []))" using read_pair [OF assms(2)] by blast
  moreover have "result_pair (pair_response a) = (Some (fst a), Some (or_str (snd a) []))"
    by (simp add: result_pair_def pair_response_def part_or_def supp_part_def)
  ultimately show ?thesis using assms(1,3,4) by (simp add: agree_def sbind_def lift_res_def same_pair_def)
qed

lemma add_agrees:
  assumes "zeep_ok lx zp" "lxml_legal lx" "legal ty" "legal doc" "legal opts"
  shows "agree same_pair (add_to_store (soap_service zp lx) ty doc opts s) (add_to_store (store_service lx) ty doc opts s)"
    "agree same_pair (update_in_store (soap_service zp lx) ty doc opts s) (update_in_store (store_service lx) ty doc opts s)"
proof -
  let ?parts = "[(''WMLtypeIn'', ty), (''XMLin'', doc), (''OptionsIn'', opts), (''CapabilitiesIn'', [])]"
  let ?out = "\<lambda>a. [(''Result'', show_int (fst a)), (''SuppMsgOut'', or_str (snd a) [])]"
  have p: "distinct (map fst ?parts)" "list_all (\<lambda>p. legal (snd p)) ?parts" using assms(3-5) by simp_all
  let ?a = "fst (add_object lx ty doc s)" and ?s = "snd (add_object lx ty doc s)"
  have "\<exists>r. soap_call zp lx ''WMLS_AddToStore'' ?parts s = (Inr r, ?s) \<and> reply_read (?out ?a) r"
    by (rule soap_reply [OF assms(1) _ p]) (use add_answer_legal(1) [OF assms(2,3)] in \<open>simp_all add: dispatch_def change_response_def split_beta\<close>)
  then obtain r where "soap_call zp lx ''WMLS_AddToStore'' ?parts s = (Inr r, ?s)" "reply_read (?out ?a) r" by blast
  then show "agree same_pair (add_to_store (soap_service zp lx) ty doc opts s) (add_to_store (store_service lx) ty doc opts s)"
    unfolding add_to_store_def by (rule pair_agrees) (simp_all add: soap_service_def store_service_def split_beta)
  let ?b = "fst (update_object lx ty doc s)" and ?t = "snd (update_object lx ty doc s)"
  have "\<exists>r. soap_call zp lx ''WMLS_UpdateInStore'' ?parts s = (Inr r, ?t) \<and> reply_read (?out ?b) r"
    by (rule soap_reply [OF assms(1) _ p]) (use add_answer_legal(2) [OF assms(2,3)] in \<open>simp_all add: dispatch_def change_response_def split_beta\<close>)
  then obtain r where "soap_call zp lx ''WMLS_UpdateInStore'' ?parts s = (Inr r, ?t)" "reply_read (?out ?b) r" by blast
  then show "agree same_pair (update_in_store (soap_service zp lx) ty doc opts s) (update_in_store (store_service lx) ty doc opts s)"
    unfolding update_in_store_def by (rule pair_agrees) (simp_all add: soap_service_def store_service_def split_beta)
qed

lemma delete_agrees:
  assumes "zeep_ok lx zp" "lxml_legal lx" "legal ty" "legal doc" "legal opts"
  shows "agree same_pair (delete_from_store (soap_service zp lx) ty doc opts s) (delete_from_store (store_service lx) ty doc opts s)"
proof -
  let ?parts = "[(''WMLtypeIn'', ty), (''QueryIn'', doc), (''OptionsIn'', opts), (''CapabilitiesIn'', [])]"
  let ?out = "\<lambda>a. [(''Result'', show_int (fst a)), (''SuppMsgOut'', or_str (snd a) [])]"
  have p: "distinct (map fst ?parts)" "list_all (\<lambda>p. legal (snd p)) ?parts" using assms(3-5) by simp_all
  show ?thesis
  proof (cases "delete_object lx ty doc s")
    case (Inl e)
    have "\<exists>e'. soap_call zp lx ''WMLS_DeleteFromStore'' ?parts s = (Inl e', s)"
      by (rule soap_failure [OF assms(1) _ p, where e = e]) (use Inl in \<open>simp_all add: dispatch_def\<close>)
    then show ?thesis using Inl by (auto simp: delete_from_store_def soap_service_def store_service_def sbind_def agree_def)
  next
    case (Inr x)
    obtain a s' where x: "x = (a, s')" by (cases x)
    have "legal_answer a" using delete_answer_legal [OF assms(2)] Inr x by blast
    then have "\<exists>r. soap_call zp lx ''WMLS_DeleteFromStore'' ?parts s = (Inr r, s') \<and> reply_read (?out a) r"
      by (intro soap_reply [OF assms(1) _ p]) (use Inr x in \<open>simp_all add: dispatch_def change_response_def\<close>)
    then obtain r where "soap_call zp lx ''WMLS_DeleteFromStore'' ?parts s = (Inr r, s')" "reply_read (?out a) r" by blast
    then show ?thesis
      unfolding delete_from_store_def by (rule pair_agrees) (simp_all add: soap_service_def store_service_def Inr x)
  qed
qed

lemma query_agrees:
  assumes "zeep_ok lx zp" "lxml_legal lx" "legal ty" "legal doc" "legal opts"
  shows "agree same_triple (get_from_store (soap_service zp lx) ty doc opts s) (get_from_store (store_service lx) ty doc opts s)"
proof -
  let ?parts = "[(''WMLtypeIn'', ty), (''QueryIn'', doc), (''OptionsIn'', opts), (''CapabilitiesIn'', [])]"
  have p: "distinct (map fst ?parts)" "list_all (\<lambda>p. legal (snd p)) ?parts" using assms(3-5) by simp_all
  show ?thesis
  proof (cases "store_query lx ty doc (Some opts) s")
    case (Inl e)
    have "\<exists>e'. soap_call zp lx ''WMLS_GetFromStore'' ?parts s = (Inl e', s)"
      by (rule soap_failure [OF assms(1) _ p, where e = e]) (use Inl in \<open>simp_all add: dispatch_def rbind_def\<close>)
    then show ?thesis using Inl by (auto simp: get_from_store_def soap_service_def store_service_def sbind_def agree_def rbind_def)
  next
    case (Inr q)
    obtain rc x supp where q: "q = (rc, x, supp)" by (cases q)
    let ?out = "[(''Result'', show_int rc), (''XMLout'', x), (''SuppMsgOut'', or_str supp [])]"
    have "legal x" "legal (or_str supp [])" using query_answer_legal [OF assms(2,3)] Inr q by blast+
    then have "\<exists>r. soap_call zp lx ''WMLS_GetFromStore'' ?parts s = (Inr r, s) \<and> reply_read ?out r"
      by (intro soap_reply [OF assms(1) _ p]) (use Inr q in \<open>simp_all add: dispatch_def\<close>)
    then obtain r where r: "soap_call zp lx ''WMLS_GetFromStore'' ?parts s = (Inr r, s)" "reply_read ?out r" by blast
    obtain x' supp' where "result_triple r = (Some rc, x', supp')" "same_text x' (Some x)" "same_text supp' (Some (or_str supp []))"
      using read_triple [OF r(2)] by auto
    then show ?thesis using r(1) get_from_store_service [OF Inr [unfolded q]]
      by (simp add: get_from_store_def soap_service_def sbind_def lift_res_def agree_def same_triple_def)
  qed
qed

lemma version_agrees:
  assumes "zeep_ok lx zp"
  shows "get_version (soap_service zp lx) s = get_version (store_service lx) s"
proof -
  have "\<exists>n. response_el ''WMLS_GetVersion'' [(''Result'', ''1.4.1.1'')] = Inr n" by (rule response_made) simp
  then obtain resp where resp: "response_el ''WMLS_GetVersion'' [(''Result'', ''1.4.1.1'')] = Inr resp" by blast
  obtain n where n: "\<And>resp s'. dispatch lx ''WMLS_GetVersion'' n s = (Inr resp, s') \<Longrightarrow> xml_legal resp \<Longrightarrow>
      soap_call zp lx ''WMLS_GetVersion'' [] s = (zp_reply zp ''WMLS_GetVersion'' (200, lx_tostring lx (envelope_of [resp])), s')"
    by (rule soap_call_dispatch [OF assms, of "''WMLS_GetVersion''" "[]" s]) (simp, simp, simp, blast)
  have "soap_call zp lx ''WMLS_GetVersion'' [] s = (zp_reply zp ''WMLS_GetVersion'' (200, lx_tostring lx (envelope_of [resp])), s)"
    by (rule n) (simp_all add: dispatch_def resp response_legal [OF resp])
  moreover have "zp_reply zp ''WMLS_GetVersion'' (200, lx_tostring lx (envelope_of [resp])) = Inr (RStr ''1.4.1.1'')"
    using assms resp unfolding zeep_ok_def by blast
  ultimately show ?thesis by (simp add: get_version_def soap_service_def store_service_def sbind_def)
qed

section \<open>Fetching a log over SOAP\<close>

lemma agree_same [simp]: "agree (=) x x"
  by (auto simp: agree_def split: sum.splits)

lemma agree_sbind:
  assumes "agree P (m s) (m' s)" "\<And>a b s. P a b \<Longrightarrow> agree Q (f a s) (f' b s)"
  shows "agree Q (sbind m f s) (sbind m' f' s)"
proof (cases "m s")
  case (Pair r s')
  then obtain r' where r': "m' s = (r', s')" using assms(1) by (cases "m' s") (simp add: agree_def)
  show ?thesis
  proof (cases r)
    case (Inl e)
    then obtain e' where "r' = Inl e'" using assms(1) Pair r' by (cases r') (simp_all add: agree_def)
    then show ?thesis using Inl Pair r' by (simp add: agree_def)
  next
    case (Inr a)
    then obtain b where "r' = Inr b" "P a b" using assms(1) Pair r' by (cases r') (simp_all add: agree_def)
    then show ?thesis using assms(2) Inr Pair r' by simp
  qed
qed

text \<open>Asking for the text of a code leaves the store alone.\<close>

lemma base_msg_keeps:
  assumes "zeep_ok lx zp"
  shows "snd (soap_call zp lx ''WMLS_GetBaseMsg'' [(''ReturnValueIn'', show_int i)] s) = s"
proof -
  let ?call = "soap_call zp lx ''WMLS_GetBaseMsg'' [(''ReturnValueIn'', show_int i)] s"
  obtain n where n: "\<And>e s'. dispatch lx ''WMLS_GetBaseMsg'' n s = (Inl e, s') \<Longrightarrow> \<exists>e'. ?call = (Inl e', s')"
      "\<And>resp s'. dispatch lx ''WMLS_GetBaseMsg'' n s = (Inr resp, s') \<Longrightarrow> xml_legal resp \<Longrightarrow>
         ?call = (zp_reply zp ''WMLS_GetBaseMsg'' (200, lx_tostring lx (envelope_of [resp])), s')"
    by (rule soap_call_dispatch [OF assms, of "''WMLS_GetBaseMsg''" "[(''ReturnValueIn'', show_int i)]" s]) (simp, simp, simp, blast)
  obtain t where t: "dispatch lx ''WMLS_GetBaseMsg'' n s = (response_el ''WMLS_GetBaseMsg'' [(''Result'', t)], s)"
    by (simp add: dispatch_def)
  show ?thesis
  proof (cases "response_el ''WMLS_GetBaseMsg'' [(''Result'', t)]")
    case (Inl e)
    then show ?thesis using n(1) t by fastforce
  next
    case (Inr resp)
    then show ?thesis using n(2) [of resp s] t response_legal [OF Inr] by simp
  qed
qed

lemma error_keeps: "zeep_ok lx zp \<Longrightarrow> snd (witsml_error (soap_service zp lx) code supp s) = s"
  using base_msg_keeps [of lx zp]
  by (auto simp: witsml_error_def get_base_msg_def soap_service_def Let_def split: option.splits prod.splits sum.splits response.splits)
     (metis snd_conv)+

lemma data_options_legal: "legal (data_options n)"
proof -
  have "legal ''returnElements=data-only''" "legal ''maxReturnNodes=''" "legal '';''" by code_simp+
  then show ?thesis
    by (cases n) (simp_all add: data_options_def options_in_def opt_names legal_def)
qed

lemma data_query_legal:
  assumes "lxml_legal lx" "log_data_query lx uw ub u ms it a b uom m = Inr q"
  shows "legal (qq_wml_type q)" "legal (qq_query_xml q)" "legal (qq_options_in q)"
proof -
  obtain tree where "serialize lx tree = Inr (qq_query_xml q)" "qq_wml_type q = ''log''" "qq_options_in q = data_options m"
    using assms(2) by (auto simp: log_data_query_def qbe_def rbind_eq_Inr split: if_splits)
  then show "legal (qq_wml_type q)" "legal (qq_query_xml q)" "legal (qq_options_in q)"
    using serialized_legal [OF assms(1)] data_options_legal by simp_all
qed

lemma batch_agrees:
  assumes "zeep_ok lx zp" "lxml_legal lx"
  shows "agree (=) (fetch_batch lx (soap_service zp lx) rq c s) (fetch_batch lx (store_service lx) rq c s)"
proof (cases "log_data_query lx (lr_uid_well rq) (lr_uid_wellbore rq) (lr_uid rq) (lr_mnemonics rq) (lr_index_type rq) c (lr_end rq)
    (lr_index_uom rq) (lr_max_return_nodes rq)")
  case (Inr q)
  have g: "agree same_triple (get_from_store (soap_service zp lx) (qq_wml_type q) (qq_query_xml q) (qq_options_in q) s)
      (get_from_store (store_service lx) (qq_wml_type q) (qq_query_xml q) (qq_options_in q) s)"
    by (rule query_agrees [OF assms data_query_legal [OF assms(2) Inr]])
  have or_eq: "same_text a b \<Longrightarrow> or_str a [] = or_str b []" for a b
    by (auto simp: same_text_def or_str_def or_none_def split: option.splits if_splits)
  show ?thesis
    unfolding fetch_batch_def Inr sbind_simps(3)
    by (rule agree_sbind [where P = same_triple], rule g)
      (auto simp: same_triple_def agree_def split_beta error_keeps [OF assms(1)] witsml_error_keeps dest: or_eq split: sum.splits)
qed (simp add: fetch_batch_def agree_def)

lemma loop_agrees:
  assumes "zeep_ok lx zp" "lxml_legal lx"
  shows "agree (=) (fetch_loop n lx (soap_service zp lx) rq st s) (fetch_loop n lx (store_service lx) rq st s)"
proof (induction n arbitrary: st s)
  case (Suc n)
  have "agree (=) (sbind (lift_res r) (\<lambda>(st', go_on). if go_on then fetch_loop n lx (soap_service zp lx) rq st' else lift_res (Inr st')) s)
      (sbind (lift_res r) (\<lambda>(st', go_on). if go_on then fetch_loop n lx (store_service lx) rq st' else lift_res (Inr st')) s)" for r s
    by (rule agree_sbind [where P = "(=)"]) (auto intro: Suc.IH)
  then show ?case unfolding fetch_loop.simps
    by (intro agree_sbind [where P = "(=)"] batch_agrees [OF assms]) (auto split: prod.splits)
qed simp

lemma log_data_agrees:
  assumes "zeep_ok lx zp" "lxml_legal lx"
  shows "agree (=) (get_log_data lx (soap_service zp lx) rq s) (get_log_data lx (store_service lx) rq s)"
  unfolding get_log_data_def by (rule agree_sbind [where P = "(=)"], rule loop_agrees [OF assms]) simp

section \<open>Properties\<close>

text \<open>
  C5. SOAP is transparent. Whatever the client asks of the mock server over SOAP, with texts XML can carry, it gets what
  the operation of the store answers: the same code, the same documents and messages, the same change of the store, and
  an exception exactly where the operation raises. Fetching a log through the +2 loop gives the same rows.
\<close>

theorem soap_transparent:
  assumes "zeep_ok lx zp" "lxml_legal lx" "legal ty" "legal doc" "legal opts"
  shows "get_version (soap_service zp lx) s = get_version (store_service lx) s \<and>
    agree same_triple (get_from_store (soap_service zp lx) ty doc opts s) (get_from_store (store_service lx) ty doc opts s) \<and>
    agree same_pair (add_to_store (soap_service zp lx) ty doc opts s) (add_to_store (store_service lx) ty doc opts s) \<and>
    agree same_pair (update_in_store (soap_service zp lx) ty doc opts s) (update_in_store (store_service lx) ty doc opts s) \<and>
    agree same_pair (delete_from_store (soap_service zp lx) ty doc opts s) (delete_from_store (store_service lx) ty doc opts s) \<and>
    agree (=) (get_log_data lx (soap_service zp lx) rq s) (get_log_data lx (store_service lx) rq s)"
  by (intro conjI version_agrees [OF assms(1)] query_agrees [OF assms] add_agrees [OF assms] delete_agrees [OF assms]
      log_data_agrees [OF assms(1,2)])

section \<open>Libraries that behave as assumed\<close>

text \<open>The reference codec with every character written as two letters, reading only legal trees.\<close>

definition letter :: "nat \<Rightarrow> char" where
  "letter n = char_of (97 + n)"

fun spell :: "string \<Rightarrow> string" where
  "spell [] = []"
| "spell (c # cs) = letter (code_of c div 16) # letter (code_of c mod 16) # spell cs"

fun unspell :: "string \<Rightarrow> string" where
  "unspell (a # b # cs) = char_of (16 * (code_of a - 97) + (code_of b - 97)) # unspell cs"
| "unspell _ = []"

definition legal_parse :: "string \<Rightarrow> node option res" where
  "legal_parse s = (case ref_parse (unspell s) of
      Inr (Some n) \<Rightarrow> if xml_legal n then Inr (Some n) else Inl XMLSyntaxError | r \<Rightarrow> r)"

definition legal_lxml :: lxml where
  "legal_lxml = \<lparr>lx_recover = legal_parse, lx_strict = legal_parse, lx_tostring = (\<lambda>n. spell (put_node n)), lx_message = (\<lambda>e. [])\<rparr>"

lemma code_bound: "code_of c < 256"
  using range_nat_of_char by auto

lemma letter_code: "n < 16 \<Longrightarrow> code_of (letter n) = 97 + n"
  by (simp add: letter_def)

lemma unspell_spell: "unspell (spell s) = s"
proof (induction s)
  case (Cons c s)
  have "code_of c div 16 < 16" using code_bound [of c] by (simp add: less_mult_imp_div_less)
  then have "unspell (spell (c # s)) = char_of (16 * (code_of c div 16) + code_of c mod 16) # s" using Cons by (simp add: letter_code)
  then show ?case by simp
qed simp

lemma legal_spell: "legal (spell s)"
proof (induction s)
  case (Cons c s)
  have "legal_char (letter n)" if "n < 16" for n using letter_code [OF that] by (simp add: legal_char_def)
  moreover have "code_of c div 16 < 16" using code_bound [of c] by (simp add: less_mult_imp_div_less)
  ultimately show ?case using Cons by (simp add: legal_def)
qed (simp add: legal_def)

lemma legal_lxml_ok: "xml_codec legal_lxml" "lxml_legal legal_lxml"
proof -
  have parse: "legal_parse (spell (put_node n)) = Inr (Some (xml_norm n))" if "xml_legal n" for n
    using that get_put_node [of n _ "[]"] by (simp add: legal_parse_def ref_parse_def unspell_spell)
  then show "xml_codec legal_lxml" by (simp add: xml_codec_def legal_lxml_def)
  show "lxml_legal legal_lxml"
    by (auto simp: lxml_legal_def legal_lxml_def legal_spell legal_parse_def split: sum.splits option.splits if_splits)
qed

text \<open>A zeep that writes a call as an envelope and reads the children of the first element of the body.\<close>

definition plain_request :: "string \<Rightarrow> (string \<times> string) list \<Rightarrow> string" where
  "plain_request op parts = lx_tostring legal_lxml (envelope_of [wmls op None (map (\<lambda>(n, t). wmls n (Some t) []) parts)])"

definition plain_part :: "node \<Rightarrow> string \<times> pyobj" where
  "plain_part n = (el_local n, let t = or_str (node_text n) [] in
     if el_local n = ''Result'' then (case int_of_string t of Some i \<Rightarrow> OInt i | None \<Rightarrow> OStr t) else OStr t)"

definition plain_reply :: "string \<Rightarrow> nat \<times> string \<Rightarrow> response res" where
  "plain_reply op a = (if fst a \<noteq> 200 then Inl TransportError
     else case legal_parse (snd a) of
         Inr (Some env) \<Rightarrow> (case find_body_op env of
             None \<Rightarrow> Inl TransportError
           | Some n \<Rightarrow> (case kids n of [k] \<Rightarrow> Inr (RStr (or_str (node_text k) [])) | ks \<Rightarrow> Inr (RObj (map plain_part ks))))
       | _ \<Rightarrow> Inl TransportError)"

definition plain_zeep :: zeep where
  "plain_zeep = \<lparr>zp_request = plain_request, zp_action = (\<lambda>op. None), zp_reply = plain_reply, zp_str = (\<lambda>r. [])\<rparr>"

lemma envelope_op: "find_body_op (xml_norm (envelope_of [wmls op None ks])) = Some (xml_norm (wmls op None ks))"
  by (simp add: find_body_op_def envelope_of_def soap_el_def wmls_def is_elem_def)

lemma part_text_norm: "part_text (xml_norm n) name = part_text n name"
  by (auto simp: part_text_def or_none_def or_str_def split: option.splits)

definition plain_value :: "string \<Rightarrow> string \<Rightarrow> pyobj" where
  "plain_value k t = (if k = ''Result'' then (case int_of_string t of Some i \<Rightarrow> OInt i | None \<Rightarrow> OStr t) else OStr t)"

lemma map_of_values: "map_of (map (\<lambda>(k, t). (k, f k t)) ps) name = map_option (f name) (map_of ps name)"
  by (induction ps) auto

lemma plain_zeep_ok: "zeep_ok legal_lxml plain_zeep"
proof -
  have parse: "legal_parse (lx_tostring legal_lxml n) = Inr (Some (xml_norm n))" if "xml_legal n" for n
    using that legal_lxml_ok(1) by (simp add: xml_codec_def legal_lxml_def)
  have call: "\<exists>env n. lx_strict legal_lxml (plain_request op parts) = Inr (Some env) \<and> find_body_op env = Some n \<and> el_local n = op \<and>
      (\<forall>(name, t) \<in> set parts. part_text n name = t)" if d: "distinct (map fst parts)" "list_all (\<lambda>p. legal (snd p)) parts" for op parts
  proof (intro exI conjI)
    let ?w = "wmls op None (map (\<lambda>(n, t). wmls n (Some t) []) parts)"
    have "xml_legal (envelope_of [?w])" unfolding envelope_legal using d(2)
      by (auto simp: wmls_def list_all_iff legal_def)
    then show "lx_strict legal_lxml (plain_request op parts) = Inr (Some (xml_norm (envelope_of [?w])))"
      using parse by (simp add: plain_request_def legal_lxml_def)
    show "find_body_op (xml_norm (envelope_of [?w])) = Some (xml_norm ?w)" by (rule envelope_op)
    show "el_local (xml_norm ?w) = op" by (simp add: wmls_def)
    have "find_first (has_local name) (map (\<lambda>(n, t). wmls n (Some t) []) ps) = Some (wmls name (Some t) [])"
      if "(name, t) \<in> set ps" "distinct (map fst ps)" for name t ps
      using that by (induction ps) (auto simp: wmls_def rev_image_eqI)
    with d(1) have "xml_first ?w name = Some (wmls name (Some t) [])" if "(name, t) \<in> set parts" for name t
      using that by (simp add: xml_first_def wmls_def)
    then have "part_text ?w name = t" if "(name, t) \<in> set parts" for name t
      using that by (simp add: part_text_def wmls_def)
    then show "\<forall>(name, t) \<in> set parts. part_text (xml_norm ?w) name = t" by (auto simp: part_text_norm)
  qed
  have read: "legal_parse (lx_tostring legal_lxml (envelope_of [n])) = Inr (Some (xml_norm (envelope_of [n]))) \<and>
      find_body_op (xml_norm (envelope_of [n])) = Some (xml_norm n) \<and>
      kids (xml_norm n) = map (\<lambda>(k, t). wmls k (or_none (Some t)) []) parts" if r: "response_el op parts = Inr n" for op parts n
  proof -
    have n: "n = wmls (op @ ''Response'') None (map (\<lambda>(n, t). wmls n (Some t) []) parts)"
      using r by (simp add: response_el_def split: if_splits)
    have "xml_legal (envelope_of [n])" unfolding envelope_legal by (rule response_legal [OF r])
    then show ?thesis using parse by (auto simp: n envelope_op) (simp add: wmls_def split_beta)
  qed
  have part_back: "plain_part (wmls k (or_none (Some t)) []) = (k, if k = ''Result'' then (case int_of_string t of Some i \<Rightarrow> OInt i | None \<Rightarrow> OStr t) else OStr t)" for k t
    by (cases "t = []") (simp_all add: plain_part_def wmls_def or_none_def or_str_def split: option.split)
  have reply: "\<exists>r. plain_reply op (200, lx_tostring legal_lxml (envelope_of [n])) = Inr r \<and> reply_read parts r"
    if "1 < length parts" "response_el op parts = Inr n" for op parts n
  proof -
    obtain p q ps where ps: "parts = p # q # ps"
    proof (cases parts rule: remdups_adj.cases)
    qed (use \<open>1 < length parts\<close> in auto)
    have "plain_reply op (200, lx_tostring legal_lxml (envelope_of [n])) = Inr (RObj (map plain_part (kids (xml_norm n))))"
      using read [OF that(2)] by (auto simp: plain_reply_def ps split_beta)
    moreover have "map plain_part (kids (xml_norm n)) = map (\<lambda>(k, t). (k, plain_value k t)) parts"
      using read [OF that(2)] part_back by (auto simp: plain_value_def simp del: kids_norm)
    ultimately show ?thesis
      by (auto simp: reply_read_def part_read_def map_of_values plain_value_def split: option.splits)
  qed
  have one: "plain_reply op (200, lx_tostring legal_lxml (envelope_of [n])) = Inr (RStr t)"
    if "t \<noteq> []" "response_el op [(''Result'', t)] = Inr n" for op t n
    using read [OF that(2)] that(1) by (auto simp: plain_reply_def wmls_def or_none_def or_str_def simp del: kids_norm)
  show ?thesis unfolding zeep_ok_def plain_zeep_def zeep.simps
    using call reply one by (auto simp: plain_reply_def [of _ "(500, _)"])
qed

definition ex_wells_doc :: string where
  "ex_wells_doc = lx_tostring legal_lxml (el ''wells'' [] None [el ''well'' [(''uid'', ''W1'')] None [el ''name'' [] (Some ''North-1'') []]])"

theorem soap_transparent_witness:
  "get_version (soap_service plain_zeep legal_lxml) ex_store = (Inr ''1.4.1.1'', ex_store) \<and>
    agree same_pair (add_to_store (soap_service plain_zeep legal_lxml) ''well'' ex_wells_doc [] ex_store)
      (add_to_store (store_service legal_lxml) ''well'' ex_wells_doc [] ex_store) \<and>
    agree (=) (get_log_data legal_lxml (soap_service plain_zeep legal_lxml) (ex_request None None) ex_store)
      (get_log_data legal_lxml (store_service legal_lxml) (ex_request None None) ex_store)"
proof -
  have "legal ex_wells_doc" by (simp add: ex_wells_doc_def legal_lxml_def legal_spell)
  moreover have "legal ''well''" "legal []" by code_simp+
  moreover have "get_version (store_service legal_lxml) ex_store = (Inr ''1.4.1.1'', ex_store)"
    by (simp add: get_version_def store_service_def sbind_def lift_res_def)
  ultimately show ?thesis
    using soap_transparent [OF plain_zeep_ok legal_lxml_ok(2), of "''well''" ex_wells_doc "[]" ex_store "ex_request None None"]
    by simp
qed

end
