(* ===== verification/EndToEnd.thy ===== *)
theory EndToEnd
  imports SoapWire Run
begin

text \<open>
  The ingestion over SOAP. The theorems of \<open>Run\<close> are about a scheduler whose service is the store itself; here the
  scheduler talks to the store through zeep and the endpoint of the mock server, and does exactly the same.
\<close>

definition over_soap :: "zeep \<Rightarrow> MockStore sched_env \<Rightarrow> MockStore sched_env" where
  "over_soap zp env = env\<lparr>se_service := soap_service zp (se_lxml env)\<rparr>"

lemma over_soap_env [simp]:
  "se_lxml (over_soap zp env) = se_lxml env" "se_service (over_soap zp env) = soap_service zp (se_lxml env)"
  "se_pyd (over_soap zp env) = se_pyd env" "se_local (over_soap zp env) = se_local env"
  "se_max_return_nodes (over_soap zp env) = se_max_return_nodes env" "se_clock (over_soap zp env) = se_clock env"
  "se_db_up (over_soap zp env) = se_db_up env" "se_db_dt (over_soap zp env) = se_db_dt env"
  by (simp_all add: over_soap_def)

section \<open>Polls\<close>

lemma take_in_over_soap: "take_in (over_soap zp env) = take_in env"
  by (intro ext) (simp add: take_in_def)

lemma persist_over_soap: "persist_samples (over_soap zp env) = persist_samples env"
  unfolding persist_samples_def over_soap_env ..

lemma store_samples_over_soap: "store_samples (over_soap zp env) = store_samples env"
  unfolding store_samples_def over_soap_env persist_over_soap ..

lemma snapshots_over_soap:
  "snapshot_index_state (over_soap zp env) = snapshot_index_state env" "load_index_snapshot (over_soap zp env) = load_index_snapshot env"
  unfolding snapshot_index_state_def load_index_snapshot_def over_soap_env by (rule refl)+

lemma ingest_over_soap:
  assumes "zeep_ok (se_lxml env) zp" "lxml_legal (se_lxml env)" "se_service env = store_service (se_lxml env)"
  shows "ingest_log (over_soap zp env) h w = ingest_log env h w"
proof -
  let ?rq = "ingest_request (se_max_return_nodes env) h (current_state h w)
    (filter (\<lambda>m. m \<noteq> lst_index_mnemonic (current_state h w)) (lst_mnemonics (current_state h w)))"
  have "agree (=) (get_log_data (se_lxml env) (soap_service zp (se_lxml env)) ?rq (sc_remote w))
      (get_log_data (se_lxml env) (se_service env) ?rq (sc_remote w))"
    unfolding assms(3) by (rule log_data_agrees [OF assms(1,2)])
  then show ?thesis
    by (auto simp: ingest_log_def do_ingest_log_def Let_def take_in_over_soap store_samples_over_soap agree_def
        split: sum.splits prod.splits)
qed

section \<open>Discovery\<close>

lemma same_text_read: "same_text a b \<Longrightarrow> or_str a [] = or_str b []"
  by (auto simp: same_text_def or_str_def or_none_def split: option.splits if_splits)

lemma qbe_legal:
  assumes "lxml_legal lx" "qbe lx ty rt opts = Inr q" "legal ty" "legal opts"
  shows "legal (qq_wml_type q)" "legal (qq_query_xml q)" "legal (qq_options_in q)"
  using assms(2-4) serialized_legal [OF assms(1)] by (auto simp: qbe_def rbind_eq_Inr)

lemma fetch_over_soap:
  assumes "zeep_ok (se_lxml env) zp" "lxml_legal (se_lxml env)" "se_service env = store_service (se_lxml env)"
    and q: "query = qbe (se_lxml env) ty rt opts" "legal ty" "legal opts"
  shows "agree (=) (fetch_objects reader (over_soap zp env) query s) (fetch_objects reader env query s)"
proof (cases query)
  case (Inr x)
  have "agree same_triple (get_from_store (soap_service zp (se_lxml env)) (qq_wml_type x) (qq_query_xml x) (qq_options_in x) s)
      (get_from_store (se_service env) (qq_wml_type x) (qq_query_xml x) (qq_options_in x) s)"
    unfolding assms(3) by (rule query_agrees [OF assms(1,2) qbe_legal [OF assms(2) _ q(2,3)]]) (use Inr q(1) in simp_all)
  then show ?thesis
    unfolding fetch_objects_def Inr sbind_simps(3) over_soap_env
    by (rule agree_sbind [where P = same_triple]) (auto simp: same_triple_def agree_def split_beta dest: same_text_read split: sum.splits)
qed (simp add: fetch_objects_def agree_def)

lemma topology_over_soap:
  assumes "zeep_ok (se_lxml env) zp" "lxml_legal (se_lxml env)" "se_service env = store_service (se_lxml env)"
  shows "agree (=) (fetch_wells (over_soap zp env) s) (fetch_wells env s)"
    "agree (=) (fetch_wellbores (over_soap zp env) u s) (fetch_wellbores env u s)"
    "agree (=) (fetch_log_headers (over_soap zp env) u v s) (fetch_log_headers env u v s)"
proof -
  have l: "legal ''well''" "legal ''wellbore''" "legal ''log''" by code_simp+
  have o: "legal (options_in [(OPT_RETURN_ELEMENTS, OvStr (re_value r))])" for r
  proof -
    have "legal ''returnElements=''" by code_simp
    moreover have "legal (re_value r)" by (cases r; hypsubst; code_simp)
    ultimately show ?thesis by (simp add: options_in_def opt_names legal_def)
  qed
  show "agree (=) (fetch_wells (over_soap zp env) s) (fetch_wells env s)"
    unfolding fetch_wells_def over_soap_env
    by (rule fetch_over_soap [OF assms _ l(1)], unfold well_query_def, rule refl, rule o)
  show "agree (=) (fetch_wellbores (over_soap zp env) u s) (fetch_wellbores env u s)"
    unfolding fetch_wellbores_def over_soap_env
    by (rule fetch_over_soap [OF assms _ l(2)], unfold wellbore_query_def, rule refl, rule o)
  show "agree (=) (fetch_log_headers (over_soap zp env) u v s) (fetch_log_headers env u v s)"
    unfolding fetch_log_headers_def over_soap_env
    by (rule fetch_over_soap [OF assms _ l(3)], unfold log_header_query_def, rule refl, rule o)
qed

text \<open>Two steps that agree up to the exception they raise leave the same state when the exception is caught.\<close>

lemma agree_cases:
  assumes "agree (=) x y"
  obtains e e' s where "x = (Inl e, s)" "y = (Inl e', s)" | a s where "x = (Inr a, s)" "y = (Inr a, s)"
  using assms by (cases x; cases y; cases "fst x"; cases "fst y") (auto simp: agree_def)

lemma discover_over_soap:
  assumes "zeep_ok (se_lxml env) zp" "lxml_legal (se_lxml env)" "se_service env = store_service (se_lxml env)"
  shows "snd (discover (over_soap zp env) w) = snd (discover env w)"
proof -
  note agrees = topology_over_soap [OF assms]
  have wb: "discover_wellbore (over_soap zp env) wl wb acc = discover_wellbore env wl wb acc" for wl wb acc
  proof (cases acc)
    case (Pair w any_logs)
    show ?thesis
      by (rule agree_cases [OF agrees(3) [of "w_uid wl" "wb_uid wb" "sc_remote w"]]) (simp_all add: discover_wellbore_def Pair)
  qed
  have wl: "discover_well (over_soap zp env) wl acc = discover_well env wl acc" for wl acc
  proof (cases acc)
    case (Pair w any_logs)
    have e: "discover_wellbore (over_soap zp env) wl = discover_wellbore env wl" by (intro ext) (rule wb)
    show ?thesis
      unfolding discover_well_def e Pair
      by (rule agree_cases [OF agrees(2) [of "w_uid wl" "sc_remote w"]]) (simp_all add: Let_def)
  qed
  have e: "discover_well (over_soap zp env) = discover_well env" by (intro ext) (rule wl)
  show ?thesis
    unfolding discover_def e by (rule agree_cases [OF agrees(1) [of "sc_remote w"]]) simp_all
qed

section \<open>Properties\<close>

text \<open>
  C3. Ingestion over SOAP is ingestion from the store. A scheduler that reaches the mock server through SOAP does in its
  start, in every poll and in every tick exactly what one does that calls the store: the same buffers, states, rows of
  the cache and snapshots, also when operations fail.
\<close>

theorem ingestion_over_soap:
  assumes "zeep_ok (se_lxml env) zp" "lxml_legal (se_lxml env)" "se_service env = store_service (se_lxml env)"
  shows "start (over_soap zp env) w = start env w \<and> ingest_log (over_soap zp env) h w = ingest_log env h w \<and>
    tick (over_soap zp env) w = tick env w"
proof -
  have ingest: "ingest_log (over_soap zp env) = ingest_log env" by (intro ext) (rule ingest_over_soap [OF assms])
  show ?thesis
    unfolding start_def tick_def snapshots_over_soap ingest discover_over_soap [OF assms] by (intro conjI refl)
qed

text \<open>The mock server with one log, behind the reference libraries: the first tick caches its rows.\<close>

definition ex_soap_env :: "MockStore sched_env" where
  "ex_soap_env = ex_env\<lparr>se_lxml := legal_lxml, se_service := store_service legal_lxml\<rparr>"

theorem ingestion_over_soap_witness:
  "\<exists>lg D. log_at ex_store ex_header lg \<and>
     cache_rows ex_header (tick (over_soap plain_zeep ex_soap_env) ex_start) =
       map (sample_row 1 ex_header (is_time (sl_index_type lg))) (log_samples lg D) \<and>
     distinct (map fst D) \<and> set D = set (sl_rows lg)"
proof -
  have l: "se_lxml ex_soap_env = legal_lxml" "se_service ex_soap_env = store_service (se_lxml ex_soap_env)" by (simp_all add: ex_soap_env_def)
  have e: "tick (over_soap plain_zeep ex_soap_env) ex_start = tick ex_soap_env ex_start"
    using ingestion_over_soap [of ex_soap_env plain_zeep] plain_zeep_ok legal_lxml_ok(2) l by simp
  have svc: "service_ok ex_soap_env" using ex_service legal_lxml_ok(1) by (simp add: service_ok_def ex_soap_env_def)
  have follow: "can_follow ex_soap_env 1 ex_store [ex_header]"
    using ex_follow by (simp add: can_follow_def pollable_def poll_request_def ex_soap_env_def)
  then have ids: "identities [ex_header]" "\<forall>h \<in> set [ex_header]. lh_uid h \<noteq> []" by (simp_all add: can_follow_def)
  note d = discovered_facts [OF ids, where sid = 1 and n = 100 and s = ex_store]
  have r: "sc_remote ex_start = ex_store" "sc_server_id ex_start = 1" using d(1) by (simp_all add: noted_def new_scheduler_def)
  have "\<exists>lg D. log_at (sc_remote ex_start) ex_header lg \<and>
     cache_rows ex_header (tick ex_soap_env ex_start) =
       map (sample_row (sc_server_id ex_start) ex_header (is_time (sl_index_type lg))) (log_samples lg D) \<and>
     distinct (map fst D) \<and> set D = set (sl_rows lg)"
    by (rule tick_catches [OF svc ids(1) discovered_inv [OF follow] d(4)]) (use d(3) in auto)
  then show ?thesis unfolding e r .
qed

end
