(* ===== verification/Seed.thy ===== *)
theory Seed
  imports Accounts Units Reports "HOL-Library.Sublist"
begin

text \<open>
  The seed of \<^verbatim>\<open>backend/app/db/seed.py\<close>: the parameter catalogue, the default unit conversions, the super admin and
  the sample reports, added in one transaction when they are missing. The settings it reads are a parameter. It is shown
  that a second run adds nothing, that what was there stays, and that the seeded admin logs in.
\<close>

section \<open>What is seeded\<close>

definition PARAMETER_CATALOG :: "(string \<times> string \<times> string \<times> string option) list" where
  "PARAMETER_CATALOG =
    [(''DEPTH'', ''Bit depth (measured)'', ''m'', Some ''0108''),
     (''ROP'', ''Rate of penetration'', ''m/h'', Some ''0113''),
     (''WOB'', ''Weight on bit'', ''klbf'', Some ''0116''),
     (''RPM'', ''Rotary speed'', ''rpm'', Some ''0114''),
     (''TORQUE'', ''Torque'', ''kN.m'', None),
     (''SPP'', ''Standpipe pressure'', ''kPa'', None),
     (''FLOWIN'', ''Mud flow in'', ''L/min'', None),
     (''HOOKLOAD'', ''Hookload'', ''klbf'', Some ''0114''),
     (''TOTGAS'', ''Total gas'', ''%'', Some ''0140''),
     (''C1'', ''Methane (chromatograph)'', ''ppm'', None),
     (''C2'', ''Ethane (chromatograph)'', ''ppm'', None),
     (''C3'', ''Propane (chromatograph)'', ''ppm'', None),
     (''C4'', ''Butane (chromatograph)'', ''ppm'', None),
     (''C5'', ''Pentane (chromatograph)'', ''ppm'', None),
     (''MW'', ''Mud weight / density'', ''sg'', None),
     (''TIME'', ''Time index'', ''s'', None)]"

definition DEFAULT_UNIT_DEFS :: "(string \<times> string \<times> string \<times> string) list" where
  "DEFAULT_UNIT_DEFS =
    [(''Specific gravity to pounds per cubic foot'', ''sg'', ''pcf'', ''__value__ * 62.4''),
     (''Pounds per cubic foot to pounds per gallon'', ''pcf'', ''ppg'', ''__value__ / 7.48''),
     (''Specific gravity to pounds per gallon'', ''sg'', ''ppg'', ''__value__ * 8.345''),
     (''Percent to parts per million'', ''percent'', ''ppm'', ''__value__ * 10000''),
     (''Parts per million to percent'', ''ppm'', ''percent'', ''__value__ / 10000''),
     (''Metres to feet'', ''m'', ''ft'', ''__value__ * 3.280839895''),
     (''Feet to metres'', ''ft'', ''m'', ''__value__ / 3.280839895''),
     (''Kilopascal to psi'', ''kPa'', ''psi'', ''__value__ * 0.1450377''),
     (''psi to Kilopascal'', ''psi'', ''kPa'', ''__value__ / 0.1450377''),
     (''Identity'', ''__value__'', ''__value__'', ''__value__'')]"

record sample_report =
  sp_report_date :: int
  sp_field :: string
  sp_rig :: string
  sp_well_uid :: string
  sp_hole_size :: string
  sp_operation_type :: string
  sp_mud_system :: string
  sp_remarks :: "(datetime \<times> pyfloat \<times> string \<times> string) list"
  sp_mud_properties :: "(string \<times> string \<times> string option) list"

definition SAMPLE_REPORTS :: "sample_report list" where
  "SAMPLE_REPORTS =
    [\<lparr>sp_report_date = ymd2ord 2026 6 18, sp_field = ''North Sea Alpha'', sp_rig = ''Ocean Titan'', sp_well_uid = ''W-1001'',
      sp_hole_size = ''12 1/4 in'', sp_operation_type = ''Drilling'', sp_mud_system = ''Water-Based Mud'',
      sp_remarks =
       [(DT True (usec_of 2026 6 18 4 30 0 0), Fin 2450, ''Hazard'',
         ''Observed partial lost circulation while drilling shale; pumped LCM pill.''),
        (DT True (usec_of 2026 6 18 9 15 0 0), Fin 2510, ''Operations'',
         ''Connection made up, circulated bottoms up, no gas show.'')],
      sp_mud_properties =
       [(''Mud Weight'', ''1.25'', Some ''sg''),
        (''Funnel Viscosity'', ''48'', Some ''s/qt''),
        (''Plastic Viscosity'', ''18'', Some ''cP''),
        (''Yield Point'', ''22'', Some ''lbf/100ft2''),
        (''pH'', ''9.5'', None)]\<rparr>,
     \<lparr>sp_report_date = ymd2ord 2026 6 19, sp_field = ''North Sea Alpha'', sp_rig = ''Ocean Titan'', sp_well_uid = ''W-1001'',
      sp_hole_size = ''8 1/2 in'', sp_operation_type = ''Tripping'', sp_mud_system = ''Oil-Based Mud'',
      sp_remarks =
       [(DT True (usec_of 2026 6 19 2 0 0 0), Fin 3120, ''Hazard'',
         ''Stuck pipe event during trip out; worked string free after 40 min.''),
        (DT True (usec_of 2026 6 19 6 45 0 0), Fin 3120, ''Operations'',
         ''Resumed POOH, no further overpull, racking stands.'')],
      sp_mud_properties =
       [(''Mud Weight'', ''1.42'', Some ''sg''),
        (''Funnel Viscosity'', ''55'', Some ''s/qt''),
        (''Oil/Water Ratio'', ''80/20'', None),
        (''Electrical Stability'', ''420'', Some ''V'')]\<rparr>,
     \<lparr>sp_report_date = ymd2ord 2026 6 20, sp_field = ''Caspian Bravo'', sp_rig = ''Desert Falcon'', sp_well_uid = ''W-2002'',
      sp_hole_size = ''17 1/2 in'', sp_operation_type = ''Cementing'', sp_mud_system = ''Water-Based Mud'',
      sp_remarks =
       [(DT True (usec_of 2026 6 20 11 0 0 0), Fin 1980, ''Operations'',
         ''Cement job on surface casing completed, returns to surface observed.''),
        (DT True (usec_of 2026 6 20 14 30 0 0), Fin 1980, ''Hazard'',
         ''Minor lost circulation during displacement; managed with low pump rate.'')],
      sp_mud_properties =
       [(''Mud Weight'', ''1.15'', Some ''sg''),
        (''Funnel Viscosity'', ''42'', Some ''s/qt''),
        (''Filtrate (API)'', ''6.5'', Some ''mL/30min''),
        (''pH'', ''10.1'', None)]\<rparr>]"

section \<open>The steps\<close>

text \<open>One round of a loop that skips what is known; \<^verbatim>\<open>known\<close> is read once, before the loop.\<close>

definition seed_row :: "sql \<Rightarrow> ('r \<Rightarrow> 'k option) \<Rightarrow> bool \<Rightarrow> 'r \<Rightarrow> nat \<times> 'r rows \<Rightarrow> (nat \<times> 'r rows) res" where
  "seed_row db key known r s = (if known then Inr s
     else rbind (insert_row db key r (snd s)) (\<lambda>(i, t). Inr (fst s + 1, t)))"

definition seed_parameter_catalog :: "sql \<Rightarrow> nat handler" where
  "seed_parameter_catalog db d =
     (let existing = set (map (\<lambda>p. pc_mnemonic (snd p)) (ad_parameters d)) in
      rbind (rfold (\<lambda>(m, desc, u, wits). seed_row db mnemonic_key (m \<in> existing)
          \<lparr>pc_mnemonic = m, pc_description = Some desc, pc_default_unit = Some u, pc_wits_id = wits\<rparr>)
        PARAMETER_CATALOG (0, ad_parameters d)) (\<lambda>(added, t). Inr (added, d\<lparr>ad_parameters := t\<rparr>)))"

definition seed_unit_defs :: "sql \<Rightarrow> nat handler" where
  "seed_unit_defs db d =
     (let existing = set (map (\<lambda>p. (ud_from_unit (snd p), ud_to_unit (snd p))) (ad_units d)) in
      rbind (rfold (\<lambda>(nm, frm, to_u, expr). seed_row db unit_key ((frm, to_u) \<in> existing)
          \<lparr>ud_name = nm, ud_from_unit = frm, ud_to_unit = to_u, ud_expression = expr, ud_is_builtin = True\<rparr>)
        DEFAULT_UNIT_DEFS (0, ad_units d)) (\<lambda>(added, t). Inr (added, d\<lparr>ad_units := t\<rparr>)))"

record seed_settings =
  superadmin_username :: string
  superadmin_password :: string

definition super_admin :: "auth_env \<Rightarrow> seed_settings \<Rightarrow> User" where
  "super_admin env st =
     \<lparr>us_username = superadmin_username st, us_password_hash = hash_password env (superadmin_password st),
      us_first_name = Some ''Super'', us_last_name = Some ''Admin'', us_phone = None, us_address = None, us_position = None,
      us_access_level = ''super_admin'', us_is_active = True, us_created_at = ae_now env\<rparr>"

definition seed_superadmin :: "auth_env \<Rightarrow> seed_settings \<Rightarrow> bool handler" where
  "seed_superadmin env st d = rbind (find_user (superadmin_username st) d) (\<lambda>existing. case existing of
      Some _ \<Rightarrow> Inr (False, d)
    | None \<Rightarrow> rbind (insert_row (ae_sql env) user_key (super_admin env st) (ad_users d)) (\<lambda>(i, t).
        Inr (True, d\<lparr>ad_users := t\<rparr>)))"

text \<open>A report is inserted before the remarks and the properties that refer to it.\<close>

definition seed_report :: "sql \<Rightarrow> datetime \<Rightarrow> sample_report \<Rightarrow> nat \<times> app_db \<Rightarrow> (nat \<times> app_db) res" where
  "seed_report db now sp s = (case s of (added, d) \<Rightarrow>
     rbind (insert_row db no_key
         \<lparr>rp_report_date = Some (sp_report_date sp), rp_field = Some (sp_field sp), rp_rig = Some (sp_rig sp),
          rp_well_uid = Some (sp_well_uid sp), rp_hole_size = Some (sp_hole_size sp),
          rp_operation_type = Some (sp_operation_type sp), rp_mud_system = Some (sp_mud_system sp), rp_created_at = now\<rparr>
       (ad_reports d)) (\<lambda>(i, reports).
     rbind (insert_all db no_key (map (\<lambda>(t, dep, cat, txt).
         \<lparr>rm_report_id = i, rm_time = Some t, rm_depth = Some dep, rm_category = Some cat, rm_text = Some txt\<rparr>)
         (sp_remarks sp)) (ad_remarks d)) (\<lambda>remarks.
     rbind (insert_all db no_key (map (\<lambda>(n, v, u). \<lparr>mp_report_id = i, mp_name = n, mp_value = Some v, mp_unit = u\<rparr>)
         (sp_mud_properties sp)) (ad_mud_properties d)) (\<lambda>props.
     Inr (added + 1, d\<lparr>ad_reports := reports, ad_remarks := remarks, ad_mud_properties := props\<rparr>)))))"

definition seed_reporting :: "sql \<Rightarrow> datetime \<Rightarrow> nat handler" where
  "seed_reporting db now d = (if ad_reports d \<noteq> [] then Inr (0, d) else rfold (seed_report db now) SAMPLE_REPORTS (0, d))"

text \<open>One transaction: what fails leaves the database as it was. The answer is what the last line prints.\<close>

record seed_counts =
  sc_params :: nat
  sc_units :: nat
  sc_admin :: bool
  sc_reports :: nat

definition run_seed :: "auth_env \<Rightarrow> seed_settings \<Rightarrow> seed_counts handler" where
  "run_seed env st d =
     rbind (seed_parameter_catalog (ae_sql env) d) (\<lambda>(params, d).
     rbind (seed_unit_defs (ae_sql env) d) (\<lambda>(units, d).
     rbind (seed_superadmin env st d) (\<lambda>(admin, d).
     rbind (seed_reporting (ae_sql env) (ae_now env) d) (\<lambda>(reports, d).
     Inr (\<lparr>sc_params = params, sc_units = units, sc_admin = admin, sc_reports = reports\<rparr>, d)))))"

text \<open>The startup of the application goes on when the seed fails.\<close>

definition startup_seed :: "auth_env \<Rightarrow> seed_settings \<Rightarrow> app_db \<Rightarrow> app_db" where
  "startup_seed env st d = (case run_seed env st d of Inl e \<Rightarrow> d | Inr (c, d') \<Rightarrow> d')"

section \<open>A loop that adds what is missing\<close>

lemma seed_row_known: "seed_row db key True r s = Inr s"
  by (simp add: seed_row_def)

lemma seed_row_new: "seed_row db key False r (n, t) = rbind (insert_row db key r t) (\<lambda>(i, t). Inr (n + 1, t))"
  by (simp add: seed_row_def)

lemma seed_nothing: "(\<And>x. x \<in> set xs \<Longrightarrow> f x s = Inr s) \<Longrightarrow> rfold f xs s = Inr s"
  by (induction xs) simp_all

lemma seed_loop:
  assumes "rfold (\<lambda>x. seed_row db key (known x) (mk x)) xs (n, t) = Inr (m, t')"
  shows "\<exists>new. t' = t @ new \<and> m = n + length new \<and> snd ` set new = mk ` {x \<in> set xs. \<not> known x}"
  using assms
proof (induction xs arbitrary: n t)
  case (Cons x xs)
  show ?case
  proof (cases "known x")
    case True
    with Cons.prems have "rfold (\<lambda>x. seed_row db key (known x) (mk x)) xs (n, t) = Inr (m, t')" by (simp add: seed_row_known)
    then have "\<exists>new. t' = t @ new \<and> m = n + length new \<and> snd ` set new = mk ` {x \<in> set xs. \<not> known x}" by (rule Cons.IH)
    moreover have "{y \<in> set (x # xs). \<not> known y} = {y \<in> set xs. \<not> known y}" using True by auto
    ultimately show ?thesis by simp
  next
    case False
    then obtain i t1 where i: "insert_row db key (mk x) t = Inr (i, t1)"
        "rfold (\<lambda>x. seed_row db key (known x) (mk x)) xs (n + 1, t1) = Inr (m, t')"
      using Cons.prems by (auto simp: seed_row_new rbind_eq_Inr)
    obtain new where new: "t' = t1 @ new" "m = n + 1 + length new" "snd ` set new = mk ` {x \<in> set xs. \<not> known x}"
      using Cons.IH [OF i(2)] by blast
    have "t' = t @ (i, mk x) # new" using i(1) new(1) by (simp add: insert_row_Inr)
    moreover have "{y \<in> set (x # xs). \<not> known y} = insert x {y \<in> set xs. \<not> known y}" using False by auto
    ultimately show ?thesis using new by (intro exI [of _ "(i, mk x) # new"]) simp
  qed
qed simp

lemma seed_loop_ok:
  assumes "rfold (\<lambda>x. seed_row db key (known x) (mk x)) xs (n, t) = Inr (m, t')" "fresh_ids db" "table_ok key t"
  shows "table_ok key t'"
proof -
  have "table_ok key (snd (m, t'))"
    using assms(1) by (rule rfold_invariant [where I = "\<lambda>s. table_ok key (snd s)"])
      (use assms(2,3) stored.ins_valid [of db key] in \<open>auto simp: seed_row_def rbind_eq_Inr split: if_splits\<close>)
  then show ?thesis by simp
qed

section \<open>What each step adds\<close>

lemma seed_parameters_Inr:
  assumes "seed_parameter_catalog db d = Inr (n, d')"
  shows "\<exists>new. d' = d\<lparr>ad_parameters := ad_parameters d @ new\<rparr> \<and>
    (\<forall>(m, _) \<in> set PARAMETER_CATALOG. m \<in> pc_mnemonic ` snd ` set (ad_parameters d @ new)) \<and>
    (fresh_ids db \<longrightarrow> table_ok mnemonic_key (ad_parameters d) \<longrightarrow> table_ok mnemonic_key (ad_parameters d'))"
proof -
  let ?known = "\<lambda>x. fst x \<in> set (map (\<lambda>p. pc_mnemonic (snd p)) (ad_parameters d))"
  let ?mk = "\<lambda>x. \<lparr>pc_mnemonic = fst x, pc_description = Some (fst (snd x)), pc_default_unit = Some (fst (snd (snd x))),
    pc_wits_id = snd (snd (snd x))\<rparr>"
  obtain t where t: "rfold (\<lambda>x. seed_row db mnemonic_key (?known x) (?mk x)) PARAMETER_CATALOG (0, ad_parameters d) = Inr (n, t)"
      "d' = d\<lparr>ad_parameters := t\<rparr>"
    using assms by (auto simp: seed_parameter_catalog_def Let_def case_prod_unfold rbind_eq_Inr)
  obtain new where new: "t = ad_parameters d @ new" "snd ` set new = ?mk ` {x \<in> set PARAMETER_CATALOG. \<not> ?known x}"
    using seed_loop [OF t(1)] by blast
  have "fst x \<in> pc_mnemonic ` snd ` set (ad_parameters d @ new)" if x: "x \<in> set PARAMETER_CATALOG" for x
  proof (cases "?known x")
    case False
    with x have "?mk x \<in> snd ` set new" unfolding new(2) by blast
    then have "pc_mnemonic (?mk x) \<in> pc_mnemonic ` snd ` set new" by (rule imageI)
    then show ?thesis by (simp add: image_Un)
  qed (auto simp: image_Un image_image)
  then show ?thesis using seed_loop_ok [OF t(1)] t(2) new(1) by fastforce
qed

lemma seed_units_Inr:
  assumes "seed_unit_defs db d = Inr (n, d')"
  shows "\<exists>new. d' = d\<lparr>ad_units := ad_units d @ new\<rparr> \<and>
    (\<forall>(_, f, t, _) \<in> set DEFAULT_UNIT_DEFS. (f, t) \<in> (\<lambda>u. (ud_from_unit u, ud_to_unit u)) ` snd ` set (ad_units d @ new)) \<and>
    (fresh_ids db \<longrightarrow> table_ok unit_key (ad_units d) \<longrightarrow> table_ok unit_key (ad_units d'))"
proof -
  let ?key = "\<lambda>u. (ud_from_unit u, ud_to_unit u)" and ?pair = "\<lambda>x :: string \<times> string \<times> string \<times> string. (fst (snd x), fst (snd (snd x)))"
  let ?known = "\<lambda>x. ?pair x \<in> set (map (\<lambda>p. ?key (snd p)) (ad_units d))"
  let ?mk = "\<lambda>x. \<lparr>ud_name = fst x, ud_from_unit = fst (snd x), ud_to_unit = fst (snd (snd x)), ud_expression = snd (snd (snd x)),
    ud_is_builtin = True\<rparr>"
  obtain t where t: "rfold (\<lambda>x. seed_row db unit_key (?known x) (?mk x)) DEFAULT_UNIT_DEFS (0, ad_units d) = Inr (n, t)"
      "d' = d\<lparr>ad_units := t\<rparr>"
    using assms by (auto simp: seed_unit_defs_def Let_def case_prod_unfold rbind_eq_Inr)
  obtain new where new: "t = ad_units d @ new" "snd ` set new = ?mk ` {x \<in> set DEFAULT_UNIT_DEFS. \<not> ?known x}"
    using seed_loop [OF t(1)] by blast
  have "?pair x \<in> ?key ` snd ` set (ad_units d @ new)" if x: "x \<in> set DEFAULT_UNIT_DEFS" for x
  proof (cases "?known x")
    case False
    with x have "?mk x \<in> snd ` set new" unfolding new(2) by blast
    then have "?key (?mk x) \<in> ?key ` snd ` set new" by (rule imageI)
    then show ?thesis by (simp add: image_Un)
  qed (auto simp: image_Un image_image)
  then show ?thesis using seed_loop_ok [OF t(1)] t(2) new(1) by fastforce
qed

lemma seed_superadmin_Inr:
  assumes "seed_superadmin env st d = Inr (b, d')"
  shows "(\<exists>i u. find_user (superadmin_username st) d' = Inr (Some (i, u)) \<and>
      (b \<longrightarrow> u = super_admin env st \<and> insert_row (ae_sql env) user_key u (ad_users d) = Inr (i, ad_users d') \<and> d' = d\<lparr>ad_users := ad_users d'\<rparr>)) \<and>
    (\<not> b \<longrightarrow> d' = d) \<and> (b \<longleftrightarrow> find_user (superadmin_username st) d = Inr None)"
proof -
  have name: "us_username (super_admin env st) = superadmin_username st" by (simp add: super_admin_def)
  have none: "(\<forall>i u. v \<noteq> Some (i, u)) \<longleftrightarrow> v = None" for v :: "(int \<times> User) option" by (cases v) auto
  show ?thesis
    using assms find_created [of "ae_sql env" "super_admin env st" d]
    by (auto simp: seed_superadmin_def rbind_eq_Inr name none split: option.splits)
qed

lemma insert_all_append: "insert_all db key rs t = Inr t' \<Longrightarrow> \<exists>new. t' = t @ new"
  unfolding insert_all_def
  by (rule rfold_invariant [where I = "\<lambda>s. \<exists>new. s = t @ new"]) (auto simp: rbind_eq_Inr insert_row_Inr)

text \<open>What seeding the reports leaves: the three tables extended, nothing else.\<close>

definition reports_extended :: "app_db \<Rightarrow> app_db \<Rightarrow> bool" where
  "reports_extended d d' = (\<exists>r m p. d' = d\<lparr>ad_reports := ad_reports d @ r, ad_remarks := ad_remarks d @ m,
     ad_mud_properties := ad_mud_properties d @ p\<rparr>)"

lemma reports_extended_refl: "reports_extended d d"
  unfolding reports_extended_def by (intro exI [of _ "[]"]) simp

lemma reports_extended_trans: "reports_extended d d' \<Longrightarrow> reports_extended d' d'' \<Longrightarrow> reports_extended d d''"
  unfolding reports_extended_def by force

lemma seed_report_Inr:
  assumes "seed_report db now sp (n, d) = Inr (n', d')"
  shows "reports_extended d d' \<and> ad_reports d' \<noteq> []"
proof -
  let ?r = "\<lparr>rp_report_date = Some (sp_report_date sp), rp_field = Some (sp_field sp), rp_rig = Some (sp_rig sp),
    rp_well_uid = Some (sp_well_uid sp), rp_hole_size = Some (sp_hole_size sp), rp_operation_type = Some (sp_operation_type sp),
    rp_mud_system = Some (sp_mud_system sp), rp_created_at = now\<rparr>"
  obtain i rs ms ps where "insert_row db no_key ?r (ad_reports d) = Inr (i, rs)" and
      d': "d' = d\<lparr>ad_reports := rs, ad_remarks := ad_remarks d @ ms, ad_mud_properties := ad_mud_properties d @ ps\<rparr>"
    using assms by (auto simp: seed_report_def rbind_eq_Inr dest!: insert_all_append)
  then have rs: "rs = ad_reports d @ [(i, ?r)]" by (simp add: insert_row_Inr)
  then show ?thesis unfolding reports_extended_def d' rs by auto
qed

lemma seed_reporting_Inr:
  assumes "seed_reporting db now d = Inr (n, d')"
  shows "reports_extended d d' \<and> ad_reports d' \<noteq> []"
proof (cases "ad_reports d = []")
  case True
  obtain sp sps where sps: "SAMPLE_REPORTS = sp # sps" unfolding SAMPLE_REPORTS_def by blast
  obtain k e where e: "seed_report db now sp (0, d) = Inr (k, e)" "rfold (seed_report db now) sps (k, e) = Inr (n, d')"
    using assms True by (auto simp: seed_reporting_def sps rbind_eq_Inr)
  have "reports_extended d (snd (n, d')) \<and> ad_reports (snd (n, d')) \<noteq> []"
    using e(2)
  proof (rule rfold_invariant [where I = "\<lambda>s. reports_extended d (snd s) \<and> ad_reports (snd s) \<noteq> []"])
    show "reports_extended d (snd (k, e)) \<and> ad_reports (snd (k, e)) \<noteq> []" using seed_report_Inr [OF e(1)] by simp
  next
    fix x s s' assume "reports_extended d (snd s) \<and> ad_reports (snd s) \<noteq> []" "seed_report db now x s = Inr s'"
    then show "reports_extended d (snd s') \<and> ad_reports (snd s') \<noteq> []"
      using seed_report_Inr [of db now x "fst s" "snd s" "fst s'" "snd s'"] by (auto intro: reports_extended_trans)
  qed
  then show ?thesis by simp
qed (use assms in \<open>auto simp: seed_reporting_def reports_extended_refl\<close>)

section \<open>A second run\<close>

lemma parameters_known:
  assumes "\<forall>(m, _) \<in> set PARAMETER_CATALOG. m \<in> pc_mnemonic ` snd ` set (ad_parameters d)"
  shows "seed_parameter_catalog db d = Inr (0, d)"
proof -
  have "seed_parameter_catalog db d = rbind (Inr (0, ad_parameters d)) (\<lambda>(added, t). Inr (added, d\<lparr>ad_parameters := t\<rparr>))"
    unfolding seed_parameter_catalog_def Let_def
    by (rule arg_cong [where f = "\<lambda>r. rbind r _"], rule seed_nothing)
      (use assms in \<open>auto simp: seed_row_def image_image split: prod.splits\<close>)
  then show ?thesis by simp
qed

lemma units_known:
  assumes "\<forall>(_, f, t, _) \<in> set DEFAULT_UNIT_DEFS. (f, t) \<in> (\<lambda>u. (ud_from_unit u, ud_to_unit u)) ` snd ` set (ad_units d)"
  shows "seed_unit_defs db d = Inr (0, d)"
proof -
  have "seed_unit_defs db d = rbind (Inr (0, ad_units d)) (\<lambda>(added, t). Inr (added, d\<lparr>ad_units := t\<rparr>))"
    unfolding seed_unit_defs_def Let_def
    by (rule arg_cong [where f = "\<lambda>r. rbind r _"], rule seed_nothing)
      (use assms in \<open>auto simp: seed_row_def image_image split: prod.splits\<close>)
  then show ?thesis by simp
qed

section \<open>Properties\<close>

text \<open>Every row that was there is there, with its id and in its place, and no other table changes.\<close>

definition rows_kept :: "app_db \<Rightarrow> app_db \<Rightarrow> bool" where
  "rows_kept d d' = (prefix (ad_parameters d) (ad_parameters d') \<and> prefix (ad_units d) (ad_units d') \<and>
     prefix (ad_users d) (ad_users d') \<and> prefix (ad_reports d) (ad_reports d') \<and> prefix (ad_remarks d) (ad_remarks d') \<and>
     prefix (ad_mud_properties d) (ad_mud_properties d') \<and>
     d' = d\<lparr>ad_parameters := ad_parameters d', ad_units := ad_units d', ad_users := ad_users d', ad_reports := ad_reports d',
            ad_remarks := ad_remarks d', ad_mud_properties := ad_mud_properties d'\<rparr>)"

lemma run_seed_Inr:
  assumes "run_seed env st d = Inr (c, d')"
  shows "\<exists>d1 d2 d3. seed_parameter_catalog (ae_sql env) d = Inr (sc_params c, d1) \<and>
    seed_unit_defs (ae_sql env) d1 = Inr (sc_units c, d2) \<and> seed_superadmin env st d2 = Inr (sc_admin c, d3) \<and>
    seed_reporting (ae_sql env) (ae_now env) d3 = Inr (sc_reports c, d')"
  using assms by (auto simp: run_seed_def rbind_eq_Inr)

lemma find_user_cong: "ad_users d = ad_users e \<Longrightarrow> find_user n d = find_user n e"
  by (simp add: find_user_def)

lemma superadmin_extends:
  assumes "seed_superadmin env st d = Inr (b, d')"
  shows "\<exists>new. d' = d\<lparr>ad_users := ad_users d @ new\<rparr>"
proof (cases b)
  case True
  then obtain i u where i: "insert_row (ae_sql env) user_key u (ad_users d) = Inr (i, ad_users d')" "d' = d\<lparr>ad_users := ad_users d'\<rparr>"
    using seed_superadmin_Inr [OF assms] by blast
  then have "d' = d\<lparr>ad_users := ad_users d @ [(i, u)]\<rparr>" by (metis insert_row_Inr)
  then show ?thesis by blast
next
  case False
  then have "d' = d\<lparr>ad_users := ad_users d @ []\<rparr>" using seed_superadmin_Inr [OF assms] by simp
  then show ?thesis by blast
qed

text \<open>
  C29. Seeding is idempotent. After a run that commits, with the rows that were there kept as they were and every mnemonic
  of the catalogue and every pair of the default conversions present, any later run with the same settings adds nothing.
\<close>

theorem seed_idempotent:
  assumes "run_seed env st d = Inr (c, d')"
  shows "rows_kept d d' \<and> (\<forall>(m, _) \<in> set PARAMETER_CATALOG. m \<in> pc_mnemonic ` snd ` set (ad_parameters d')) \<and>
    (\<forall>(_, f, t, _) \<in> set DEFAULT_UNIT_DEFS. (f, t) \<in> (\<lambda>u. (ud_from_unit u, ud_to_unit u)) ` snd ` set (ad_units d')) \<and>
    run_seed env' st d' = Inr (\<lparr>sc_params = 0, sc_units = 0, sc_admin = False, sc_reports = 0\<rparr>, d')"
proof -
  obtain d1 d2 d3 where s: "seed_parameter_catalog (ae_sql env) d = Inr (sc_params c, d1)"
      "seed_unit_defs (ae_sql env) d1 = Inr (sc_units c, d2)" "seed_superadmin env st d2 = Inr (sc_admin c, d3)"
      "seed_reporting (ae_sql env) (ae_now env) d3 = Inr (sc_reports c, d')"
    using run_seed_Inr [OF assms] by blast
  obtain ps us where d1: "d1 = d\<lparr>ad_parameters := ad_parameters d @ ps\<rparr>" and d2: "d2 = d1\<lparr>ad_units := ad_units d1 @ us\<rparr>"
      and known: "\<forall>(m, _) \<in> set PARAMETER_CATALOG. m \<in> pc_mnemonic ` snd ` set (ad_parameters d @ ps)"
        "\<forall>(_, f, t, _) \<in> set DEFAULT_UNIT_DEFS. (f, t) \<in> (\<lambda>u. (ud_from_unit u, ud_to_unit u)) ` snd ` set (ad_units d1 @ us)"
    using seed_parameters_Inr [OF s(1)] seed_units_Inr [OF s(2)] by blast
  obtain i u where admin: "find_user (superadmin_username st) d3 = Inr (Some (i, u))"
    using seed_superadmin_Inr [OF s(3)] by blast
  obtain new where d3: "d3 = d2\<lparr>ad_users := ad_users d2 @ new\<rparr>"
    using superadmin_extends [OF s(3)] by blast
  obtain r m p where d': "d' = d3\<lparr>ad_reports := ad_reports d3 @ r, ad_remarks := ad_remarks d3 @ m,
      ad_mud_properties := ad_mud_properties d3 @ p\<rparr>" and some: "ad_reports d' \<noteq> []"
    using seed_reporting_Inr [OF s(4)] unfolding reports_extended_def by blast
  have eqs: "ad_parameters d' = ad_parameters d @ ps" "ad_units d' = ad_units d1 @ us" "ad_users d' = ad_users d3"
    by (simp_all add: d' d3 d2 d1)
  have "rows_kept d d'"
    by (simp add: rows_kept_def d' d3 d2 d1)
  moreover have "seed_superadmin env' st d' = Inr (False, d')"
    using admin find_user_cong [OF eqs(3), of "superadmin_username st"] by (simp add: seed_superadmin_def)
  moreover have "seed_parameter_catalog (ae_sql env') d' = Inr (0, d')" "seed_unit_defs (ae_sql env') d' = Inr (0, d')"
    by (rule parameters_known units_known, unfold eqs(1,2), rule known)+
  ultimately show ?thesis using known some by (simp add: run_seed_def seed_reporting_def eqs)
qed

text \<open>The accounts stay well formed and the tables keep their unique keys.\<close>

lemma seed_keeps_tables:
  assumes "run_seed env st d = Inr (c, d')" "fresh_ids (ae_sql env)" "accounts_ok (ae_sql env) d"
    and "table_ok mnemonic_key (ad_parameters d)" "table_ok unit_key (ad_units d)"
  shows "accounts_ok (ae_sql env) d' \<and> table_ok mnemonic_key (ad_parameters d') \<and> table_ok unit_key (ad_units d')"
proof -
  obtain d1 d2 d3 where s: "seed_parameter_catalog (ae_sql env) d = Inr (sc_params c, d1)"
      "seed_unit_defs (ae_sql env) d1 = Inr (sc_units c, d2)" "seed_superadmin env st d2 = Inr (sc_admin c, d3)"
      "seed_reporting (ae_sql env) (ae_now env) d3 = Inr (sc_reports c, d')"
    using run_seed_Inr [OF assms(1)] by blast
  obtain ps us where d1: "d1 = d\<lparr>ad_parameters := ad_parameters d @ ps\<rparr>" and d2: "d2 = d1\<lparr>ad_units := ad_units d1 @ us\<rparr>"
      and ok: "table_ok mnemonic_key (ad_parameters d1)" "table_ok unit_key (ad_units d2)"
    using seed_parameters_Inr [OF s(1)] seed_units_Inr [OF s(2)] assms(2,4,5) by auto
  have accounts: "accounts_ok (ae_sql env) d2" using assms(3) by (simp add: accounts_ok_iff d2 d1)
  obtain new where d3: "d3 = d2\<lparr>ad_users := ad_users d2 @ new\<rparr>" using superadmin_extends [OF s(3)] by blast
  have "accounts_ok (ae_sql env) d3"
  proof (cases "sc_admin c")
    case True
    then obtain i where i: "insert_row (ae_sql env) user_key (super_admin env st) (ad_users d2) = Inr (i, ad_users d3)"
      using seed_superadmin_Inr [OF s(3)] by blast
    have "table_ok user_key (ad_users d3)" using stored.ins_valid [OF _ i] assms(2) accounts unfolding accounts_ok_iff by blast
    moreover have "us_access_level (super_admin env st) \<in> set ACCESS_LEVELS" by (simp add: super_admin_def ACCESS_LEVELS_def)
    ultimately have "accounts_ok (ae_sql env) (d2\<lparr>ad_users := ad_users d3\<rparr>)"
      using insert_ids [OF i] by (intro users_ok [OF accounts]) auto
    then show ?thesis by (simp add: d3)
  qed (use seed_superadmin_Inr [OF s(3)] accounts in simp)
  moreover obtain r m p where d': "d' = d3\<lparr>ad_reports := ad_reports d3 @ r, ad_remarks := ad_remarks d3 @ m,
      ad_mud_properties := ad_mud_properties d3 @ p\<rparr>"
    using seed_reporting_Inr [OF s(4)] unfolding reports_extended_def by blast
  ultimately show ?thesis using ok by (simp add: accounts_ok_def d' d3 d2)
qed

text \<open>The catalogue gives the hookload the WITS id of the rotary speed.\<close>

lemma hookload_shares_wits_id:
  "[m. (m, _, _, w) \<leftarrow> PARAMETER_CATALOG, w = Some ''0114''] = [''RPM'', ''HOOKLOAD'']"
  by (simp add: PARAMETER_CATALOG_def)

text \<open>
  C40. On a database without that user, the seed leaves a super admin who logs in with the configured password (or any one
  with the same first 72 bytes) and whose token passes the gate of the user administration.
\<close>

theorem seeded_admin_logs_in:
  assumes laws: "auth_laws env" "0 < ae_expire_minutes env" and seeded: "run_seed env st d = Inr (c, d')"
    and new: "find_user (superadmin_username st) d = Inr None" "superadmin_username st \<noteq> []"
    and pw: "password_bytes pw = password_bytes (superadmin_password st)"
  shows "\<exists>t i. login env (superadmin_username st) pw d' = Inr (t, user_out (i, super_admin env st)) \<and>
    require_super_admin env (Some t) d' = Inr (i, super_admin env st)"
proof -
  obtain d1 d2 d3 where s: "seed_parameter_catalog (ae_sql env) d = Inr (sc_params c, d1)"
      "seed_unit_defs (ae_sql env) d1 = Inr (sc_units c, d2)" "seed_superadmin env st d2 = Inr (sc_admin c, d3)"
      "seed_reporting (ae_sql env) (ae_now env) d3 = Inr (sc_reports c, d')"
    using run_seed_Inr [OF seeded] by blast
  have "ad_users d2 = ad_users d" using seed_parameters_Inr [OF s(1)] seed_units_Inr [OF s(2)] by auto
  then have "sc_admin c" using seed_superadmin_Inr [OF s(3)] new(1) find_user_cong by metis
  then obtain i where "find_user (superadmin_username st) d3 = Inr (Some (i, super_admin env st))"
    using seed_superadmin_Inr [OF s(3)] by blast
  moreover have "ad_users d' = ad_users d3" using seed_reporting_Inr [OF s(4)] by (auto simp: reports_extended_def)
  ultimately have "find_user (us_username (super_admin env st)) d' = Inr (Some (i, super_admin env st))"
    by (simp add: find_user_def super_admin_def)
  from active_user_logs_in [OF laws this, of "superadmin_password st" pw] new(2) pw
  show ?thesis by (auto simp: super_admin_def require_super_admin_def require_level_def)
qed

section \<open>Examples\<close>

definition ex_settings :: seed_settings where
  "ex_settings = \<lparr>superadmin_username = ''admin'', superadmin_password = ''admin''\<rparr>"

definition ex_seeded :: "(seed_counts \<times> app_db) res" where
  "ex_seeded = run_seed ex_auth ex_settings ex_accounts"

lemma ex_seed_counts: "(case ex_seeded of Inr (c, d') \<Rightarrow> sc_params c = 16 \<and> sc_units c = 10 \<and> sc_admin c \<and> sc_reports c = 3 \<and>
    length (ad_remarks d') = 6 | Inl e \<Rightarrow> False)"
  by code_simp

lemma ex_seed: "\<exists>c d'. run_seed ex_auth ex_settings ex_accounts = Inr (c, d')"
  using ex_seed_counts unfolding ex_seeded_def by (auto split: sum.splits)

theorem seed_idempotent_witness:
  "\<exists>c d'. run_seed ex_auth ex_settings ex_accounts = Inr (c, d') \<and> rows_kept ex_accounts d' \<and>
     run_seed ex_auth ex_settings d' = Inr (\<lparr>sc_params = 0, sc_units = 0, sc_admin = False, sc_reports = 0\<rparr>, d')"
  using ex_seed seed_idempotent by blast

theorem seeded_admin_logs_in_witness:
  "\<exists>c d' t i. run_seed ex_auth ex_settings ex_accounts = Inr (c, d') \<and>
     login ex_auth ''admin'' ''admin'' d' = Inr (t, user_out (i, super_admin ex_auth ex_settings)) \<and>
     require_super_admin ex_auth (Some t) d' = Inr (i, super_admin ex_auth ex_settings)"
proof -
  obtain c d' where s: "run_seed ex_auth ex_settings ex_accounts = Inr (c, d')" using ex_seed by blast
  have "0 < ae_expire_minutes ex_auth" "find_user (superadmin_username ex_settings) ex_accounts = Inr None"
    "superadmin_username ex_settings = ''admin''" "superadmin_password ex_settings = ''admin''"
    by (simp_all add: ex_auth_def find_user_def scalar_one_def ex_accounts_def ex_root_def ex_settings_def)
  then show ?thesis using seeded_admin_logs_in [OF ex_laws _ s, of "''admin''"] s by auto
qed

end
