(* ===== verification/Connection.thy ===== *)
theory Connection
  imports MockServer
begin

text \<open>
  How a client gets to the mock server. \<^verbatim>\<open>mockstore/server.py\<close> serves its WSDL with the address of the request in it;
  \<^verbatim>\<open>backend/app/witsml/client.py\<close> builds one zeep client when it is first used, under a lock, and closes it on request.
  The steps of concurrent callers are events of a state machine; asyncio switches tasks only where the code awaits, so
  that the events here interleave more freely than the code does.
\<close>

section \<open>The WSDL route\<close>

definition WSDL_SOAP_NS :: string where "WSDL_SOAP_NS = ''http://schemas.xmlsoap.org/wsdl/soap/''"

record http_request =
  hr_scheme :: string
  hr_netloc :: string
  hr_path :: string
  hr_headers :: "(string \<times> string) list"
  hr_params :: "string list"

definition endpoint_url :: "http_request \<Rightarrow> string" where
  "endpoint_url r =
     (let scheme = (case map_of (hr_headers r) ''x-forwarded-proto'' of Some s \<Rightarrow> s | None \<Rightarrow> hr_scheme r);
          host = or_str (or_none (map_of (hr_headers r) ''host'')) (hr_netloc r)
      in scheme @ ''://'' @ host @ hr_path r)"

fun set_attr :: "string \<Rightarrow> string \<Rightarrow> (string \<times> string) list \<Rightarrow> (string \<times> string) list" where
  "set_attr k v [] = [(k, v)]"
| "set_attr k v (p # ps) = (if fst p = k then (k, v) # ps else p # set_attr k v ps)"

definition is_address :: "node \<Rightarrow> bool" where
  "is_address n = (is_elem n \<and> el_ns n = WSDL_SOAP_NS \<and> el_local n = ''address'')"

fun with_location :: "string \<Rightarrow> node \<Rightarrow> node" where
  "with_location url (Elem ns l a t ks) =
     Elem ns l (if ns = WSDL_SOAP_NS \<and> l = ''address'' then set_attr ''location'' url a else a) t (map (with_location url) ks)"
| "with_location url Misc = Misc"

definition wsdl_with_location :: "lxml \<Rightarrow> string \<Rightarrow> string \<Rightarrow> string res" where
  "wsdl_with_location lx wsdl url = (case lx_strict lx wsdl of
      Inl e \<Rightarrow> Inl e | Inr None \<Rightarrow> Inl AttributeError | Inr (Some tree) \<Rightarrow> serialize lx (with_location url tree))"

definition get_wsdl :: "lxml \<Rightarrow> string \<Rightarrow> http_request \<Rightarrow> (string \<times> string) res" where
  "get_wsdl lx wsdl r =
     (if ''wsdl'' \<in> set (hr_params r)
      then rbind (wsdl_with_location lx wsdl (endpoint_url r)) (\<lambda>content. Inr (content, ''text/xml''))
      else Inr (''WITSML 1.4.1.1 Mock Store. Append ?wsdl for the service definition.'', ''text/plain''))"

definition mock_root :: "string \<Rightarrow> string" where
  "mock_root store_path = ''WITSML Mock Store up. POST SOAP to '' @ store_path @ ''; WSDL at '' @ store_path @ ''?wsdl''"

lemma set_attr_get: "map_of (set_attr k v ps) k' = (if k' = k then Some v else map_of ps k')"
  by (induction ps) auto

text \<open>The addresses of the answer are those of the file, in their places, each with the address of the request.\<close>

lemma iter_with_location: "xml_iter (with_location url n) = map (with_location url) (xml_iter n)"
  by (induction n) (auto simp: map_concat o_def cong: map_cong)

lemma address_with_location [simp]: "is_address (with_location url n) = is_address n"
  by (cases n) (simp_all add: is_address_def is_elem_def)

lemma location_set: "is_address n \<Longrightarrow> attr_get (with_location url n) ''location'' = Some url"
  by (cases n) (simp_all add: is_address_def is_elem_def set_attr_get)

lemma served_address:
  "map (\<lambda>n. attr_get n ''location'') (filter is_address (xml_iter (with_location url n))) =
   replicate (length (filter is_address (xml_iter n))) (Some url)"
  unfolding iter_with_location filter_map o_def address_with_location length_filter_map
  by (induction "xml_iter n" rule: list.induct) (auto simp: location_set o_def map_replicate_const [symmetric] intro!: map_cong)

text \<open>A client that reads the answer finds the address of its request, and only that, in every place.\<close>

lemma served_wsdl_read:
  assumes "xml_codec lx" "lx_strict lx wsdl = Inr (Some n)" "''wsdl'' \<in> set (hr_params r)" "get_wsdl lx wsdl r = Inr (content, ty)"
  shows "ty = ''text/xml'' \<and> (\<exists>m. lx_strict lx content = Inr (Some m) \<and>
    map (\<lambda>a. attr_get a ''location'') (filter is_address (xml_iter m)) =
      replicate (length (filter is_address (xml_iter n))) (Some (endpoint_url r)))"
proof -
  let ?m = "with_location (endpoint_url r) n"
  have c: "content = lx_tostring lx ?m" "xml_legal ?m" "ty = ''text/xml''"
    using assms(2-4) by (auto simp: get_wsdl_def wsdl_with_location_def serialize_def rbind_eq_Inr split: if_splits)
  have norm: "is_address (xml_norm k) = is_address k" "attr_get (xml_norm k) a = attr_get k a" for k a
    by (cases k; simp add: is_address_def is_elem_def)+
  have "lx_strict lx content = Inr (Some (xml_norm ?m))" using assms(1) c(1,2) by (simp add: xml_codec_def)
  moreover have "map (\<lambda>a. attr_get a ''location'') (filter is_address (xml_iter (xml_norm ?m))) =
      map (\<lambda>a. attr_get a ''location'') (filter is_address (xml_iter ?m))"
    by (simp add: xml_iter_norm filter_map o_def norm)
  ultimately show ?thesis using c(3) served_address by simp
qed

section \<open>The lazily built client\<close>

datatype phase = Idle | Waiting | Inside | Closing

text \<open>A client is known by the number of its HTTP client; \<open>cn_got\<close> is the history of what the callers were handed.\<close>

record connection =
  cn_httpx :: "nat option"
  cn_zeep :: "nat option"
  cn_lock :: "nat option"
  cn_phase :: "nat \<Rightarrow> phase"
  cn_open :: "nat list"
  cn_next :: nat
  cn_got :: "(nat \<times> nat) list"

definition new_connection :: connection where
  "new_connection = \<lparr>cn_httpx = None, cn_zeep = None, cn_lock = None, cn_phase = (\<lambda>t. Idle), cn_open = [], cn_next = 0, cn_got = []\<rparr>"

text \<open>\<^verbatim>\<open>Build t ok\<close>: whether reading the WSDL works is up to the server.\<close>

datatype event = Call nat | Enter nat | Build nat bool | Close nat | Closed nat

definition hand_out :: "nat \<Rightarrow> nat \<Rightarrow> connection \<Rightarrow> connection" where
  "hand_out t z c = c\<lparr>cn_phase := (cn_phase c)(t := Idle), cn_got := (t, z) # cn_got c\<rparr>"

text \<open>\<^verbatim>\<open>aclose\<close> up to its await and after it.\<close>

definition aclose_begin :: "nat \<Rightarrow> connection \<Rightarrow> connection" where
  "aclose_begin t c = (case cn_httpx c of
      None \<Rightarrow> c\<lparr>cn_zeep := None\<rparr>
    | Some h \<Rightarrow> c\<lparr>cn_phase := (cn_phase c)(t := Closing), cn_open := filter (\<lambda>n. n \<noteq> h) (cn_open c)\<rparr>)"

definition aclose_end :: "nat \<Rightarrow> connection \<Rightarrow> connection" where
  "aclose_end t c = c\<lparr>cn_phase := (cn_phase c)(t := Idle), cn_httpx := None, cn_zeep := None\<rparr>"

fun conn_event :: "event \<Rightarrow> connection \<Rightarrow> connection option" where
  "conn_event (Call t) c = (if cn_phase c t \<noteq> Idle then None
     else Some (case cn_zeep c of Some z \<Rightarrow> hand_out t z c | None \<Rightarrow> c\<lparr>cn_phase := (cn_phase c)(t := Waiting)\<rparr>))"
| "conn_event (Enter t) c = (if cn_phase c t \<noteq> Waiting \<or> cn_lock c \<noteq> None then None
     else Some (c\<lparr>cn_phase := (cn_phase c)(t := Inside), cn_lock := Some t\<rparr>))"
| "conn_event (Build t ok) c = (if cn_phase c t \<noteq> Inside then None
     else Some (case cn_zeep c of
         Some z \<Rightarrow> hand_out t z (c\<lparr>cn_lock := None\<rparr>)
       | None \<Rightarrow> (let n = cn_next c; c' = c\<lparr>cn_httpx := Some n, cn_open := n # cn_open c, cn_next := n + 1, cn_lock := None\<rparr> in
           if ok then hand_out t n (c'\<lparr>cn_zeep := Some n\<rparr>) else c'\<lparr>cn_phase := (cn_phase c)(t := Idle)\<rparr>)))"
| "conn_event (Close t) c = (if cn_phase c t \<noteq> Idle then None else Some (aclose_begin t c))"
| "conn_event (Closed t) c = (if cn_phase c t \<noteq> Closing then None else Some (aclose_end t c))"

inductive connects :: "connection \<Rightarrow> event list \<Rightarrow> connection \<Rightarrow> bool" where
  rest: "connects c [] c"
| step: "conn_event e c = Some c1 \<Longrightarrow> connects c1 es c' \<Longrightarrow> connects c (e # es) c'"

code_pred connects .

inductive_simps connects_simps [simp]: "connects c [] c'" "connects c (e # es) c'"

fun is_close :: "event \<Rightarrow> bool" where
  "is_close (Close t) = True"
| "is_close (Closed t) = True"
| "is_close _ = False"

section \<open>Callers share one client\<close>

definition shared :: "connection \<Rightarrow> bool" where
  "shared c = ((\<forall>(t, z) \<in> set (cn_got c). cn_zeep c = Some z) \<and> (\<forall>z. cn_zeep c = Some z \<longrightarrow> cn_httpx c = Some z \<and> z \<in> set (cn_open c)) \<and>
     (\<forall>t. cn_lock c = Some t \<longleftrightarrow> cn_phase c t = Inside))"

lemma shared_step:
  assumes "shared c" "conn_event e c = Some c'" "\<not> is_close e"
  shows "shared c' \<and> (\<forall>z. cn_zeep c = Some z \<longrightarrow> cn_zeep c' = Some z \<and> cn_open c' = cn_open c)"
proof (cases e)
  case (Call t)
  then show ?thesis using assms by (auto simp: shared_def hand_out_def split: if_splits option.splits)
next
  case (Enter t)
  then show ?thesis using assms by (auto simp: shared_def split: if_splits)
next
  case (Build t ok)
  then have inside: "cn_phase c t = Inside" using assms(2) by (simp split: if_splits)
  have held: "cn_lock c = Some u \<longleftrightarrow> cn_phase c u = Inside" for u using assms(1) by (simp add: shared_def)
  have "cn_lock c = Some t" "\<forall>u. cn_phase c u = Inside \<longleftrightarrow> u = t" using inside held by (metis, metis option.inject)
  then show ?thesis using assms Build by (auto simp: shared_def hand_out_def Let_def split: if_splits option.splits)
qed (use assms in auto)

lemma shared_connects:
  assumes "connects c es c'" "shared c" "list_all (\<lambda>e. \<not> is_close e) es"
  shows "shared c' \<and> (\<forall>z. cn_zeep c = Some z \<longrightarrow> cn_zeep c' = Some z \<and> cn_open c' = cn_open c)"
  using assms
proof (induction rule: connects.induct)
  case (step e c c1 es c')
  then show ?case using shared_step [of c e c1] by auto
qed auto

lemma connects_append: "connects c (es @ fs) c' \<longleftrightarrow> (\<exists>c1. connects c es c1 \<and> connects c1 fs c')"
  by (induction es arbitrary: c) auto

section \<open>Properties\<close>

text \<open>
  C28. Callers share one client. As long as nobody closes the connection, however the calls interleave and however often
  reading the WSDL fails, everybody who got a client got the same one, over a connection that is open, and the lock is
  held exactly by the task that builds; once there is a client no call opens another connection.
\<close>

theorem callers_share_client:
  assumes "connects new_connection es c" "list_all (\<lambda>e. \<not> is_close e) es"
  shows "(\<forall>(t, z) \<in> set (cn_got c). cn_zeep c = Some z \<and> cn_httpx c = Some z \<and> z \<in> set (cn_open c)) \<and>
    (\<forall>t. cn_lock c = Some t \<longleftrightarrow> cn_phase c t = Inside) \<and>
    (\<forall>fs c' z. connects c fs c' \<longrightarrow> list_all (\<lambda>e. \<not> is_close e) fs \<longrightarrow> cn_zeep c = Some z \<longrightarrow> cn_open c' = cn_open c)"
proof -
  have "shared new_connection" by (simp add: shared_def new_connection_def)
  then have c: "shared c" using shared_connects [OF assms(1)] assms(2) by blast
  then show ?thesis using shared_connects [of c] unfolding shared_def by fast
qed

text \<open>Two tasks of which the second waits for the first to build.\<close>

definition ex_calls :: "event list" where
  "ex_calls = [Call 0, Call 1, Enter 0, Build 0 True, Enter 1, Build 1 True]"

theorem callers_share_client_witness:
  "\<exists>c. connects new_connection ex_calls c \<and> cn_got c = [(1, 0), (0, 0)] \<and> cn_zeep c = Some 0 \<and> cn_open c = [0]"
proof -
  have "\<exists>c. connects new_connection ex_calls c \<and> cn_got c = [(1, 0), (0, 0)] \<and> cn_open c = [0]"
    by (simp add: ex_calls_def new_connection_def hand_out_def Let_def)
  then obtain c where c: "connects new_connection ex_calls c" "cn_got c = [(1, 0), (0, 0)]" "cn_open c = [0]" by blast
  have "list_all (\<lambda>e. \<not> is_close e) ex_calls" by (simp add: ex_calls_def)
  from callers_share_client [OF c(1) this] c show ?thesis by auto
qed

section \<open>Connections that are never closed\<close>

text \<open>Every call that fails to read the WSDL leaves an HTTP client open that nothing refers to afterwards.\<close>

lemma failed_builds_leak:
  "\<exists>c. connects new_connection (concat (replicate n [Call 0, Enter 0, Build 0 False])) c \<and> length (cn_open c) = n \<and> cn_zeep c = None"
proof -
  have "\<exists>c'. connects c (concat (replicate n [Call 0, Enter 0, Build 0 False])) c' \<and> length (cn_open c') = length (cn_open c) + n \<and>
      cn_zeep c' = None" if "cn_zeep c = None" "cn_lock c = None" "cn_phase c 0 = Idle" for c
    using that
  proof (induction n arbitrary: c)
    case (Suc n)
    let ?c = "c\<lparr>cn_httpx := Some (cn_next c), cn_open := cn_next c # cn_open c, cn_next := cn_next c + 1, cn_lock := None,
      cn_phase := (cn_phase c)(0 := Idle)\<rparr>"
    have "connects c [Call 0, Enter 0, Build 0 False] ?c" using Suc.prems by (simp add: Let_def)
    moreover obtain c' where "connects ?c (concat (replicate n [Call 0, Enter 0, Build 0 False])) c'"
        "length (cn_open c') = length (cn_open c) + Suc n" "cn_zeep c' = None"
      using Suc.IH [of ?c] Suc.prems by auto
    ultimately have "connects c ([Call 0, Enter 0, Build 0 False] @ concat (replicate n [Call 0, Enter 0, Build 0 False])) c'"
      unfolding connects_append by blast
    then have "connects c (concat (replicate (Suc n) [Call 0, Enter 0, Build 0 False])) c'" by (simp del: connects_simps)
    with \<open>length (cn_open c') = length (cn_open c) + Suc n\<close> \<open>cn_zeep c' = None\<close> show ?case by blast
  qed simp
  from this [of new_connection] show ?thesis by (simp add: new_connection_def)
qed

text \<open>Closing awaits the old connection; one that is opened meanwhile is forgotten, and stays open.\<close>

lemma close_forgets_new_client:
  "\<exists>c. connects new_connection [Call 0, Enter 0, Build 0 False, Close 1, Call 0, Enter 0, Build 0 True, Closed 1] c \<and>
     cn_got c = [(0, 1)] \<and> cn_open c = [1] \<and> cn_httpx c = None \<and> cn_zeep c = None"
  by (simp add: new_connection_def hand_out_def aclose_begin_def aclose_end_def Let_def)

end
