(* ===== verification/Observations.thy ===== *)
theory Observations
  imports StoreApi Simulator IndexCache
begin

text \<open>
  Consequences of the code that its comments or its users would not expect, each a small fact about the definitions of the
  other theories.
\<close>

text \<open>A limit of zero asks for everything: the slice \<^verbatim>\<open>items[-0:]\<close> is the whole list.\<close>

lemma recent_limit_zero: "recent_items since (Some 0) b = recent_items since None b"
  by (simp add: recent_items_def tail_slice_def)

text \<open>The logs of a well share the buffer of a curve.\<close>

lemma append_ignores_log: "ring_append now w l ss st = ring_append now w l' ss st"
  by (simp add: ring_append_def)

text \<open>Two wellbores whose uids join to one key: the second is refused as a duplicate.\<close>

lemma wellbore_keys_collide: "wellbore_key ''A/B'' ''C'' = wellbore_key ''A'' ''B/C''"
  by (simp add: wellbore_key_def)

text \<open>The unit of the index that the request gives is never written.\<close>

lemma index_uom_not_written: "log_tree (b\<lparr>lgb_index_uom := u\<rparr>) = log_tree b"
proof -
  have "default_index_curve (b\<lparr>lgb_index_uom := u\<rparr>) = default_index_curve b"
    by (simp add: default_index_curve_def split: option.split list.split)
  then show ?thesis by (simp add: log_tree_def)
qed

text \<open>The index curve of a restored log is the alphabetically first of its curves.\<close>

lemma restored_index_mnemonic:
  "grp \<noteq> [] \<Longrightarrow> lst_index_mnemonic (state_of_group f k grp) = Min (set (map ic_mnemonic grp))"
proof -
  assume "grp \<noteq> []"
  then have "set (sorted_set (map ic_mnemonic grp)) \<noteq> {}" by (simp add: sorted_set_def)
  then obtain m ms where m: "sorted_set (map ic_mnemonic grp) = m # ms" by (cases "sorted_set (map ic_mnemonic grp)") auto
  have "set (m # ms) = set (map ic_mnemonic grp)" "sorted (m # ms)" unfolding m [symmetric] by (simp_all add: sorted_set_def)
  then have "Min (set (map ic_mnemonic grp)) = m" by (metis List.finite_set Min_eqI list.set_intros(1) set_ConsD sorted_simps(2) order_refl)
  then show ?thesis using m by (simp add: state_of_group_def Let_def)
qed

text \<open>
  A page of one row that starts at a stored row is that row, truncated: it moves a fetch of one row at a time nowhere, so
  that the fetch ends after the first row of the range.
\<close>

lemma page_of_one_stalls:
  "select_range ex_log (Some (VFloat (Fin 1))) None INCREASING (Some 1) = Inr ([[''1'', ''7'']], True)"
  by code_simp

text \<open>A log that is pulled out of the hole stops at the surface and repeats its index from then on.\<close>

lemma surface_repeats:
  assumes "is_depth (sg_index_type lg)" "sg_direction lg = DECREASING" "sg_depth lg = Fin 0"
  shows "advance env lg g = (lg, g)"
proof -
  have "fl_max (Fin 0) (fl_sub (Fin 0) DEPTH_STEP_M) = Fin 0" by code_simp
  then have "lg\<lparr>sg_depth := fl_max (Fin 0) (fl_sub (sg_depth lg) DEPTH_STEP_M)\<rparr> = lg" using assms(3) by (cases lg) simp
  then show ?thesis using assms(1,2) by (simp add: advance_def Let_def)
qed

end
